(* ===== verification/Cpp_Double.thy ===== *)
theory Cpp_Double
  imports Complex_Main
begin

text \<open>
  The C++ type \<open>double\<close> as far as the containers use it: values are stored, copied and
  compared, never computed with. A finite value is the rational number it denotes (the two
  zeros are one value, as \<open>==\<close> has it), beside the infinities and the not-a-number value.
  The C++ comparisons are false as soon as an operand is not a number. For the library's
  order class the type gets the total order that puts \<open>NaN\<close> first; on numbers it agrees
  with the C++ comparisons, which is all the heap theorems use.
\<close>

datatype double = NaN | NegInf | Fin rat | PosInf

fun dbl_lt :: "double \<Rightarrow> double \<Rightarrow> bool" where
  "dbl_lt NaN _ = False"
| "dbl_lt _ NaN = False"
| "dbl_lt _ NegInf = False"
| "dbl_lt NegInf _ = True"
| "dbl_lt PosInf _ = False"
| "dbl_lt _ PosInf = True"
| "dbl_lt (Fin a) (Fin b) = (a < b)"

definition dbl_gt :: "double \<Rightarrow> double \<Rightarrow> bool" where
  "dbl_gt a b = dbl_lt b a"

definition dbl_le :: "double \<Rightarrow> double \<Rightarrow> bool" where
  "dbl_le a b \<longleftrightarrow> a \<noteq> NaN \<and> b \<noteq> NaN \<and> (a = b \<or> dbl_lt a b)"

instantiation double :: linorder
begin

fun less_double :: "double \<Rightarrow> double \<Rightarrow> bool" where
  "less_double NaN b = (b \<noteq> NaN)"
| "less_double _ NaN = False"
| "less_double _ NegInf = False"
| "less_double NegInf _ = True"
| "less_double PosInf _ = False"
| "less_double _ PosInf = True"
| "less_double (Fin a) (Fin b) = (a < b)"

definition less_eq_double :: "double \<Rightarrow> double \<Rightarrow> bool" where
  "less_eq_double a b \<longleftrightarrow> a = b \<or> a < b"

instance
proof
  fix x y z :: double
  show "(x < y) = (x \<le> y \<and> \<not> y \<le> x)"
    unfolding less_eq_double_def by (cases x; cases y) auto
  show "x \<le> x" by (simp add: less_eq_double_def)
  show "x \<le> y \<Longrightarrow> y \<le> z \<Longrightarrow> x \<le> z"
    unfolding less_eq_double_def by (cases x; cases y; cases z) auto
  show "x \<le> y \<Longrightarrow> y \<le> x \<Longrightarrow> x = y"
    unfolding less_eq_double_def by (cases x; cases y) auto
  show "x \<le> y \<or> y \<le> x"
    unfolding less_eq_double_def by (cases x; cases y) auto
qed

end

text \<open>On numbers the C++ comparisons are the order of the class.\<close>

lemma dbl_gt_number: "a \<noteq> NaN \<Longrightarrow> b \<noteq> NaN \<Longrightarrow> dbl_gt a b \<longleftrightarrow> b < a"
  by (cases a; cases b) (simp_all add: dbl_gt_def)

lemma dbl_le_number: "a \<noteq> NaN \<Longrightarrow> b \<noteq> NaN \<Longrightarrow> dbl_le a b \<longleftrightarrow> a \<le> b"
  by (cases a; cases b) (simp_all add: dbl_le_def less_eq_double_def)

end
