(* ===== verification/Cpp_Prelude.thy ===== *)
theory Cpp_Prelude
  imports Cpp_Double "HOL-Library.Word" "HOL-Library.Multiset"
begin

text \<open>
  What every component theory shares: the outcomes of a C++ operation, the machine integers,
  checked access to a raw buffer, the tokens written to \<open>std::cout\<close>, the trailing
  CR/LF trimming loop that most of the servers contain, and the library lemmas about them.

  \<^item> An operation that can fail returns \<open>cpp_error + 'a\<close>: \<open>Throw\<close> is a C++ exception with
    its message, \<open>Abort\<close> a failed \<open>assert\<close>, \<open>Exit\<close> a call of \<open>exit\<close>, and \<open>Undefined\<close>
    an operation whose behaviour the standard leaves undefined.
  \<^item> \<open>size_t\<close> is a 64-bit word. An \<open>int\<close> is an HOL integer; the conversion of an
    \<open>int\<close> operand to \<open>size_t\<close> in a mixed comparison is written out (\<open>size_t_of_int\<close>),
    and an \<open>int\<close> increment that would pass \<open>INT_MAX\<close> is \<open>Undefined IntOverflow\<close>.
  \<^item> A heap or stack array is a list of its cells, and every access goes through
    \<open>buf_read\<close> and \<open>buf_write\<close>, which fail outside it.
\<close>

named_theorems cpp_defs
named_theorems word_facts
named_theorems step_simps

section \<open>Outcomes\<close>

datatype ub =
    OutOfBoundsRead | OutOfBoundsWrite | UninitialisedRead | NullDeref | UseAfterFree
  | DoubleFree | InvalidFree | DivisionByZero | IntOverflow | PopBackEmpty | EmptyCall | PureVirtualCall

datatype cpp_error =
    Throw string
  | Abort string
  | Exit int
  | Undefined ub

fun bindE :: "'e + 'a \<Rightarrow> ('a \<Rightarrow> 'e + 'b) \<Rightarrow> 'e + 'b" where
  "bindE (Inl e) f = Inl e"
| "bindE (Inr x) f = f x"

lemma bindE_Inr_right [simp]: "bindE m Inr = m"
  by (cases m) simp_all

lemma bindE_assoc: "bindE (bindE m f) g = bindE m (\<lambda>x. bindE (f x) g)"
  by (cases m) simp_all

lemma bindE_eq_Inr_iff: "bindE m f = Inr y \<longleftrightarrow> (\<exists>x. m = Inr x \<and> f x = Inr y)"
  by (cases m) auto

lemma bindE_cong [fundef_cong]:
  "m = m' \<Longrightarrow> (\<And>x. m' = Inr x \<Longrightarrow> f x = f' x) \<Longrightarrow> bindE m f = bindE m' f'"
  by (cases m') auto

section \<open>Machine integers\<close>

type_synonym size_t = "64 word"

abbreviation INT_MAX :: int where
  "INT_MAX \<equiv> 2147483647"

abbreviation INT_MIN :: int where
  "INT_MIN \<equiv> - 2147483648"

text \<open>The largest object the implementation can allocate (\<open>PTRDIFF_MAX\<close>).\<close>

abbreviation PTRDIFF_MAX :: nat where
  "PTRDIFF_MAX \<equiv> 9223372036854775807"

definition size_t_of_int :: "int \<Rightarrow> size_t" where
  "size_t_of_int i = word_of_int i"

definition in_int_range :: "int \<Rightarrow> bool" where
  "in_int_range i \<longleftrightarrow> INT_MIN \<le> i \<and> i \<le> INT_MAX"

lemma unat_size_t_of_int [word_facts]:
  "0 \<le> i \<Longrightarrow> i < 2 ^ 64 \<Longrightarrow> unat (size_t_of_int i) = nat i"
  by (simp add: size_t_of_int_def unsigned_of_int take_bit_eq_mod)

lemma unat_size_t_of_int_neg [word_facts]:
  assumes "i < 0" and "- (2 ^ 64) \<le> i"
  shows "unat (size_t_of_int i) = nat (i + 2 ^ 64)"
proof -
  have "i mod 2 ^ 64 = i + 2 ^ 64"
    using assms mod_pos_pos_trivial [of "i + 2 ^ 64" "2 ^ 64"] by simp
  then show ?thesis by (simp add: size_t_of_int_def unsigned_of_int take_bit_eq_mod)
qed

lemma size_t_of_int_neg1: "size_t_of_int (- 1) = - 1"
  by (simp add: size_t_of_int_def)

lemma unat_size_t_lt [word_facts]: "unat (x :: size_t) < 2 ^ 64"
  using unsigned_less [of x] by simp

lemma unat_minus1_size_t [word_facts]: "unat (- 1 :: size_t) = 2 ^ 64 - 1"
  by (simp add: unsigned_minus_1_eq_mask mask_eq_exp_minus_1)

lemma unat_plus1_size_t [word_facts]:
  "(x :: size_t) \<noteq> - 1 \<Longrightarrow> unat (x + 1) = Suc (unat x)"
  using unatSuc [of x] by (metis add.commute add_eq_0_iff)

lemma unat_minus1_pred_size_t [word_facts]:
  "(x :: size_t) \<noteq> 0 \<Longrightarrow> unat (x - 1) = unat x - 1"
  by (rule unat_minus_one)

lemma unat_of_nat_size_t [word_facts]:
  "n < 2 ^ 64 \<Longrightarrow> unat (of_nat n :: size_t) = n"
  by (simp add: unat_of_nat)

lemma unat_size_t_of_nat [word_facts]:
  "n < 2 ^ 64 \<Longrightarrow> unat (size_t_of_int (int n)) = n"
  by (simp add: unat_size_t_of_int)

lemma unat_less_not_minus1: "unat (x :: size_t) < unat (y :: size_t) \<Longrightarrow> x \<noteq> - 1"
  using unat_size_t_lt [of y] by (auto simp: unat_minus1_size_t)

section \<open>Raw buffers\<close>

definition buf_read :: "'a list \<Rightarrow> nat \<Rightarrow> cpp_error + 'a" where
  "buf_read b i = (if i < length b then Inr (b ! i) else Inl (Undefined OutOfBoundsRead))"

definition buf_write :: "'a list \<Rightarrow> nat \<Rightarrow> 'a \<Rightarrow> cpp_error + 'a list" where
  "buf_write b i v = (if i < length b then Inr (b[i := v]) else Inl (Undefined OutOfBoundsWrite))"

text \<open>\<open>++\<close> on an \<open>int\<close>, and the access \<open>buffer_[i]\<close> with an \<open>int\<close> index.\<close>

definition int_incr :: "int \<Rightarrow> cpp_error + int" where
  "int_incr i = (if i = INT_MAX then Inl (Undefined IntOverflow) else Inr (i + 1))"

definition read_int_index :: "'a list \<Rightarrow> int \<Rightarrow> cpp_error + 'a" where
  "read_int_index b i = (if i < 0 then Inl (Undefined OutOfBoundsRead) else buf_read b (nat i))"

definition write_int_index :: "'a list \<Rightarrow> int \<Rightarrow> 'a \<Rightarrow> cpp_error + 'a list" where
  "write_int_index b i v =
     (if i < 0 then Inl (Undefined OutOfBoundsWrite) else buf_write b (nat i) v)"

lemma buf_read_in [simp]: "i < length b \<Longrightarrow> buf_read b i = Inr (b ! i)"
  by (simp add: buf_read_def)

lemma buf_write_in [simp]: "i < length b \<Longrightarrow> buf_write b i v = Inr (b[i := v])"
  by (simp add: buf_write_def)

lemma buf_read_out [simp]:
  "length b \<le> i \<Longrightarrow> buf_read b i = Inl (Undefined OutOfBoundsRead)"
  by (simp add: buf_read_def)

lemma buf_write_out [simp]:
  "length b \<le> i \<Longrightarrow> buf_write b i v = Inl (Undefined OutOfBoundsWrite)"
  by (simp add: buf_write_def)

lemma replicate_numeral [simp]:
  "replicate (numeral k) x = x # replicate (pred_numeral k) x"
  by (simp add: numeral_eq_Suc)

lemma take_Suc_list_update: "i < length b \<Longrightarrow> take (Suc i) (b[i := v]) = take i b @ [v]"
  by (simp add: take_Suc_conv_app_nth)

lemma sublist_map_nth: "n \<le> length b \<Longrightarrow> map (\<lambda>i. b ! i) [0..<n] = take n b"
  by (rule nth_equalityI) simp_all

text \<open>
  How a block was obtained, and how it is given back: the pairs the standard allows are
  \<open>malloc\<close> with \<open>free\<close>, \<open>new T[n]\<close> with \<open>delete[]\<close> and \<open>new T\<close> with \<open>delete\<close>.
  An operation that releases memory lists its releases, each with the kind of the block.
\<close>

datatype alloc_kind = Malloc | NewArray | NewObject

datatype dealloc = Free | DeleteArray | DeleteObject

datatype heap_op = HeapRelease dealloc alloc_kind

fun release_matches :: "heap_op \<Rightarrow> bool" where
  "release_matches (HeapRelease Free Malloc) = True"
| "release_matches (HeapRelease DeleteArray NewArray) = True"
| "release_matches (HeapRelease DeleteObject NewObject) = True"
| "release_matches _ = False"

text \<open>
  \<open>new T[n]\<close>: an array-new expression whose size passes the implementation's limit throws
  \<open>std::bad_array_new_length\<close>; otherwise it yields \<open>n\<close> cells that are not initialised.
\<close>

definition new_array :: "nat \<Rightarrow> nat \<Rightarrow> 'a \<Rightarrow> cpp_error + 'a list" where
  "new_array elem_bytes n junk =
     (if n * elem_bytes \<le> PTRDIFF_MAX then Inr (replicate n junk)
      else Inl (Throw ''std::bad_array_new_length''))"

section \<open>Sequences of operations on a bounded container\<close>

text \<open>
  A client's use of a container is a list of \<open>Push\<close> and \<open>Pop\<close> calls; each call leaves a
  reply, and a call that throws leaves the container as it was (the exception is caught by
  the caller, which goes on), as in the \<open>try\<close> blocks of \<open>main.cpp\<close> and of the tests.
\<close>

datatype 'v seq_op = OpPush 'v | OpPop

datatype 'v reply = Pushed | Popped 'v | Raised cpp_error

fun run_ops ::
  "('c \<Rightarrow> 'v \<Rightarrow> cpp_error + 'c) \<Rightarrow> ('c \<Rightarrow> cpp_error + 'v \<times> 'c) \<Rightarrow> 'c \<Rightarrow> 'v seq_op list
    \<Rightarrow> 'v reply list \<times> 'c" where
  "run_ops push pop c [] = ([], c)"
| "run_ops push pop c (OpPush v # ops) =
     (case push c v of
        Inl e \<Rightarrow> (let (rs, c') = run_ops push pop c ops in (Raised e # rs, c'))
      | Inr c1 \<Rightarrow> (let (rs, c') = run_ops push pop c1 ops in (Pushed # rs, c')))"
| "run_ops push pop c (OpPop # ops) =
     (case pop c of
        Inl e \<Rightarrow> (let (rs, c') = run_ops push pop c ops in (Raised e # rs, c'))
      | Inr (v, c1) \<Rightarrow> (let (rs, c') = run_ops push pop c1 ops in (Popped v # rs, c')))"

text \<open>The abstract container: a list in removal order and a capacity.\<close>

definition spec_push ::
  "('v list \<Rightarrow> 'v \<Rightarrow> 'v list) \<Rightarrow> nat \<Rightarrow> cpp_error \<Rightarrow> 'v list \<Rightarrow> 'v \<Rightarrow> cpp_error + 'v list" where
  "spec_push put cap full xs v = (if length xs < cap then Inr (put xs v) else Inl full)"

fun spec_pop :: "cpp_error \<Rightarrow> 'v list \<Rightarrow> cpp_error + 'v \<times> 'v list" where
  "spec_pop hollow [] = Inl hollow"
| "spec_pop hollow (x # xs) = Inr (x, xs)"

text \<open>
  The interface of the bounded containers: what a client of \<open>Stack\<close> and \<open>Queue\<close>
  relies on. \<open>items\<close> is the contents in removal order, \<open>put\<close> where a new value goes.
\<close>

locale bounded_container =
  fixes push :: "'c \<Rightarrow> 'v \<Rightarrow> cpp_error + 'c"
    and pop :: "'c \<Rightarrow> cpp_error + 'v \<times> 'c"
    and items :: "'c \<Rightarrow> 'v list"
    and ok :: "'c \<Rightarrow> bool"
    and cap :: "'c \<Rightarrow> nat"
    and put :: "'v list \<Rightarrow> 'v \<Rightarrow> 'v list"
    and full :: cpp_error
    and hollow :: cpp_error
  assumes push_room: "ok c \<Longrightarrow> length (items c) < cap c \<Longrightarrow>
      \<exists>c'. push c v = Inr c' \<and> ok c' \<and> items c' = put (items c) v \<and> cap c' = cap c"
    and push_full: "ok c \<Longrightarrow> \<not> length (items c) < cap c \<Longrightarrow> push c v = Inl full"
    and pop_some: "ok c \<Longrightarrow> items c = x # xs \<Longrightarrow>
      \<exists>c'. pop c = Inr (x, c') \<and> ok c' \<and> items c' = xs \<and> cap c' = cap c"
    and pop_none: "ok c \<Longrightarrow> items c = [] \<Longrightarrow> pop c = Inl hollow"
    and items_cap: "ok c \<Longrightarrow> length (items c) \<le> cap c"
    and length_put: "length (put xs v) = Suc (length xs)"
begin

lemma run_push_step:
  assumes "ok c"
  shows "\<exists>c'. run_ops push pop c (OpPush v # ops) =
           (let (rs, d) = run_ops push pop c' ops in
             ((case spec_push put (cap c) full (items c) v of
                 Inl e \<Rightarrow> Raised e | Inr _ \<Rightarrow> Pushed) # rs, d)) \<and>
         ok c' \<and> cap c' = cap c \<and>
         items c' = (case spec_push put (cap c) full (items c) v of
             Inl e \<Rightarrow> items c | Inr xs \<Rightarrow> xs)"
proof (cases "length (items c) < cap c")
  case True
  with push_room [OF assms, of v] show ?thesis by (auto simp: spec_push_def)
next
  case False
  with push_full [OF assms, of v] assms show ?thesis by (auto simp: spec_push_def)
qed

lemma run_pop_step:
  assumes "ok c"
  shows "\<exists>c'. run_ops push pop c (OpPop # ops) =
           (let (rs, d) = run_ops push pop c' ops in
             ((case spec_pop hollow (items c) of
                 Inl e \<Rightarrow> Raised e | Inr (v, _) \<Rightarrow> Popped v) # rs, d)) \<and>
         ok c' \<and> cap c' = cap c \<and>
         items c' = (case spec_pop hollow (items c) of
             Inl e \<Rightarrow> items c | Inr (_, xs) \<Rightarrow> xs)"
proof (cases "items c")
  case Nil
  with pop_none [OF assms] assms show ?thesis by auto
next
  case (Cons x xs)
  with pop_some [OF assms Cons] show ?thesis by auto
qed

text \<open>Any sequence of calls gives the replies of the abstract container, and ends in its state.\<close>

lemma run_ops_refines:
  assumes "ok c"
  shows "run_ops (spec_push put (cap c) full) (spec_pop hollow) (items c) ops =
           (fst (run_ops push pop c ops), items (snd (run_ops push pop c ops))) \<and>
         ok (snd (run_ops push pop c ops)) \<and>
         cap (snd (run_ops push pop c ops)) = cap c"
  using assms
proof (induction ops arbitrary: c)
  case Nil
  then show ?case by simp
next
  case (Cons op ops)
  show ?case
  proof (cases op)
    case (OpPush v)
    from run_push_step [OF Cons.prems, of v ops] Cons.IH OpPush show ?thesis
      by (fastforce simp: split_beta split: sum.splits)
  next
    case OpPop
    from run_pop_step [OF Cons.prems, of ops] Cons.IH OpPop show ?thesis
      by (fastforce simp: split_beta split: sum.splits)
  qed
qed

lemma drain_returns_items:
  assumes "ok c"
  shows "fst (run_ops push pop c (replicate (length (items c)) OpPop)) = map Popped (items c)"
  using assms
proof (induction "items c" arbitrary: c)
  case Nil
  then show ?case by (simp flip: Nil.hyps(1))
next
  case (Cons x xs)
  from pop_some [OF Cons.prems Cons.hyps(2) [symmetric]] obtain c' where
    c': "pop c = Inr (x, c')" "ok c'" "items c' = xs" by auto
  with Cons.hyps(1) [of c'] show ?case by (simp flip: Cons.hyps(2) add: split_beta)
qed

end

section \<open>Repeating an operation\<close>

fun foldE :: "('s \<Rightarrow> 'v \<Rightarrow> cpp_error + 's) \<Rightarrow> 's \<Rightarrow> 'v list \<Rightarrow> cpp_error + 's" where
  "foldE f s [] = Inr s"
| "foldE f s (v # vs) = bindE (f s v) (\<lambda>s'. foldE f s' vs)"

lemma foldE_append: "foldE f s (vs @ ws) = bindE (foldE f s vs) (\<lambda>s'. foldE f s' ws)"
  by (induction vs arbitrary: s) (simp_all add: bindE_assoc)

text \<open>
  The interface of an unbounded sequence that grows at the end: \<open>rep s vs\<close> says that the
  state \<open>s\<close> holds the sequence \<open>vs\<close>.
\<close>

locale appendable =
  fixes push :: "'s \<Rightarrow> 'v \<Rightarrow> cpp_error + 's"
    and rep :: "'s \<Rightarrow> 'v list \<Rightarrow> bool"
  assumes push_rep: "rep s vs \<Longrightarrow> \<exists>s'. push s v = Inr s' \<and> rep s' (vs @ [v])"
begin

lemma push_all: "rep s vs \<Longrightarrow> \<exists>s'. foldE push s ws = Inr s' \<and> rep s' (vs @ ws)"
proof (induction ws arbitrary: s vs)
  case Nil
  then show ?case by simp
next
  case (Cons w ws)
  from push_rep [OF Cons.prems, of w] obtain s' where "push s w = Inr s'" "rep s' (vs @ [w])"
    by blast
  with Cons.IH [of s' "vs @ [w]"] show ?case by simp
qed

end

section \<open>Console output\<close>

datatype cout = CInt int | CDbl double | CStr string | CEndl

abbreviation tab :: string where "tab \<equiv> [CHR 0x09]"
abbreviation lf :: string where "lf \<equiv> [CHR 0x0A]"
abbreviation crlf :: string where "crlf \<equiv> [CHR 0x0D, CHR 0x0A]"

section \<open>Trailing CR and LF\<close>

definition is_crlf :: "char \<Rightarrow> bool" where
  "is_crlf ch \<longleftrightarrow> ch = CHR 0x0D \<or> ch = CHR 0x0A"

definition rstrip :: "string \<Rightarrow> string" where
  "rstrip s = rev (dropWhile is_crlf (rev s))"

lemma rstrip_no_trailing: "rstrip s = [] \<or> \<not> is_crlf (last (rstrip s))"
proof (cases "dropWhile is_crlf (rev s)")
  case Nil
  then show ?thesis by (simp add: rstrip_def)
next
  case (Cons x xs)
  then have "\<not> is_crlf x" by (metis dropWhile_eq_Cons_conv)
  with Cons show ?thesis by (simp add: rstrip_def)
qed

lemma rstrip_append_crlf: "\<exists>t. s = rstrip s @ t \<and> list_all is_crlf t"
proof -
  have "s = rev (dropWhile is_crlf (rev s)) @ rev (takeWhile is_crlf (rev s))"
    by (metis rev_append rev_rev_ident takeWhile_dropWhile_id)
  moreover have "list_all is_crlf (rev (takeWhile is_crlf (rev s)))"
    by (auto simp: list_all_iff dest: set_takeWhileD)
  ultimately show ?thesis by (auto simp: rstrip_def)
qed

end
