(* ===== verification/Stack.thy ===== *)
theory Stack
  imports Cpp_Prelude
begin

text \<open>
  The class \<open>Stack\<close> of \<open>cmake_make_gtest_cppunit/Stack.h\<close> and \<open>Stack.cpp\<close>: a fixed array of
  \<open>int\<close> and the index \<open>top_\<close> of the last value, a \<open>size_t\<close> that starts at \<open>-1\<close>, i.e. at
  the largest 64-bit value, so that \<open>top_ + 1\<close> wraps to 0. Calls that the C++ makes through
  a \<open>const\<close> method return a value only; the others return the new object.
  The stack refines a bounded list (\<open>bounded_container\<close>), newest value first.
\<close>

section \<open>State and operations\<close>

record stack =
  stk_buffer :: "int list"
  stk_kind :: alloc_kind
  stk_stack_size :: size_t
  stk_top :: size_t

definition Stack_ctor :: "size_t \<Rightarrow> cpp_error + stack" where
  "Stack_ctor stack_size =
     bindE (new_array 4 (unat stack_size) (0 :: int)) (\<lambda>raw.
       Inr \<lparr>stk_buffer = map (\<lambda>_. 0) raw, stk_kind = NewArray,
            stk_stack_size = stack_size, stk_top = - 1\<rparr>)"

definition Stack_dtor :: "stack \<Rightarrow> heap_op list" where
  "Stack_dtor s = [HeapRelease DeleteArray (stk_kind s)]"

definition Stack_Push :: "stack \<Rightarrow> int \<Rightarrow> cpp_error + stack" where
  "Stack_Push s val =
     (if stk_top s + 1 \<ge> stk_stack_size s then Inl (Throw ''stack overflow'')
      else let top' = stk_top s + 1 in
        bindE (buf_write (stk_buffer s) (unat top') val) (\<lambda>b.
          Inr (s\<lparr>stk_buffer := b, stk_top := top'\<rparr>)))"

definition Stack_Size :: "stack \<Rightarrow> size_t" where
  "Stack_Size s = stk_top s + 1"

definition Stack_Pop :: "stack \<Rightarrow> cpp_error + int \<times> stack" where
  "Stack_Pop s =
     (if stk_top s = - 1 then Inl (Throw ''stack underflow'')
      else bindE (buf_read (stk_buffer s) (unat (stk_top s))) (\<lambda>v.
        Inr (v, s\<lparr>stk_top := stk_top s - 1\<rparr>)))"

definition Stack_Top :: "stack \<Rightarrow> cpp_error + int" where
  "Stack_Top s = buf_read (stk_buffer s) (unat (stk_top s))"

definition Stack_Empty :: "stack \<Rightarrow> bool" where
  "Stack_Empty s \<longleftrightarrow> stk_top s = - 1"

text \<open>
  The loop of \<open>Display\<close>: \<open>int i\<close> is compared with the \<open>size_t\<close> \<open>top_\<close>, so it is
  converted; each round reads \<open>buffer_[i]\<close> and increments \<open>i\<close>.
\<close>

function Stack_Display_loop :: "stack \<Rightarrow> int \<Rightarrow> cout list \<Rightarrow> cpp_error + cout list" where
  "Stack_Display_loop s i out =
     (if size_t_of_int i \<le> stk_top s then
        (if i < 0 \<or> int (length (stk_buffer s)) \<le> i then Inl (Undefined OutOfBoundsRead)
         else if i = INT_MAX then Inl (Undefined IntOverflow)
         else Stack_Display_loop s (i + 1) (out @ [CInt (stk_buffer s ! nat i), CStr tab]))
      else Inr (out @ [CEndl]))"
  by pat_completeness auto
termination
  by (relation "measure (\<lambda>(s, i, out). nat (int (length (stk_buffer s)) - i))") auto

declare Stack_Display_loop.simps [simp del]

definition Stack_Display :: "stack \<Rightarrow> cpp_error + cout list" where
  "Stack_Display s = Stack_Display_loop s 0 []"

section \<open>Well-formed stacks and their contents\<close>

definition stack_ok :: "stack \<Rightarrow> bool" where
  "stack_ok s \<longleftrightarrow> length (stk_buffer s) = unat (stk_stack_size s) \<and>
     (stk_top s = - 1 \<or> stk_top s < stk_stack_size s)"

definition stack_items :: "stack \<Rightarrow> int list" where
  "stack_items s = rev (take (unat (stk_top s + 1)) (stk_buffer s))"

definition stack_cap :: "stack \<Rightarrow> nat" where
  "stack_cap s = unat (stk_stack_size s)"

lemmas stack_defs = Stack_Push_def Stack_Pop_def Stack_Top_def Stack_Size_def Stack_Empty_def
  stack_items_def stack_cap_def Let_def

lemma top_plus1_le_size:
  assumes "stack_ok s"
  shows "unat (stk_top s + 1) \<le> length (stk_buffer s)"
proof (cases "stk_top s = - 1")
  case True
  then show ?thesis by simp
next
  case False
  with assms show ?thesis
    by (auto simp: stack_ok_def unat_plus1_size_t word_less_nat_alt)
qed

lemma length_stack_items: "stack_ok s \<Longrightarrow> length (stack_items s) = unat (stk_top s + 1)"
  using top_plus1_le_size [of s] by (simp add: stack_items_def)

lemma stack_items_Nil_iff: "stack_ok s \<Longrightarrow> stack_items s = [] \<longleftrightarrow> stk_top s = - 1"
  using length_stack_items [of s]
  by (metis add.inverse_inverse add_eq_0_iff length_0_conv unat_eq_zero)

lemma stack_items_Cons:
  assumes ok: "stack_ok s" and top: "stk_top s \<noteq> - 1"
  shows "stack_items s = stk_buffer s ! unat (stk_top s) # rev (take (unat (stk_top s)) (stk_buffer s))"
proof -
  have "unat (stk_top s) < length (stk_buffer s)"
    using top_plus1_le_size [OF ok] top by (simp add: unat_plus1_size_t)
  then show ?thesis
    using top by (simp add: stack_items_def unat_plus1_size_t take_Suc_conv_app_nth)
qed

lemma stack_push_room:
  assumes ok: "stack_ok s" and room: "length (stack_items s) < stack_cap s"
  shows "\<exists>s'. Stack_Push s v = Inr s' \<and> stack_ok s' \<and> stack_items s' = v # stack_items s \<and>
    stack_cap s' = stack_cap s"
proof -
  define t where "t = stk_top s + 1"
  have lt: "unat t < unat (stk_stack_size s)"
    using ok room by (simp add: length_stack_items stack_cap_def t_def)
  then have "t < stk_stack_size s" by (simp add: word_less_nat_alt)
  moreover from lt have "unat (t + 1) = Suc (unat t)"
    by (intro unat_plus1_size_t unat_less_not_minus1)
  moreover have "length (stk_buffer s) = unat (stk_stack_size s)"
    using ok by (simp add: stack_ok_def)
  ultimately show ?thesis
    using lt by (auto simp: stack_defs stack_ok_def take_Suc_list_update simp flip: t_def)
qed

lemma stack_push_full:
  "stack_ok s \<Longrightarrow> \<not> length (stack_items s) < stack_cap s \<Longrightarrow>
    Stack_Push s v = Inl (Throw ''stack overflow'')"
  by (simp add: length_stack_items stack_cap_def Stack_Push_def word_le_nat_alt)

lemma stack_pop_some:
  assumes ok: "stack_ok s" and items: "stack_items s = x # xs"
  shows "\<exists>s'. Stack_Pop s = Inr (x, s') \<and> stack_ok s' \<and> stack_items s' = xs \<and>
    stack_cap s' = stack_cap s"
proof -
  have top: "stk_top s \<noteq> - 1" using stack_items_Nil_iff [OF ok] items by auto
  then have lt: "unat (stk_top s) < length (stk_buffer s)"
    using top_plus1_le_size [OF ok] by (simp add: unat_plus1_size_t)
  moreover have "stk_top s - 1 = - 1 \<or> stk_top s - 1 < stk_stack_size s"
  proof (cases "stk_top s = 0")
    case False
    then show ?thesis
      using ok lt by (auto simp: stack_ok_def word_less_nat_alt unat_minus1_pred_size_t)
  qed simp
  ultimately show ?thesis
    using ok top items stack_items_Cons [OF ok top]
    by (auto simp: Stack_Pop_def stack_ok_def stack_items_def stack_cap_def)
qed

interpretation stack_container: bounded_container Stack_Push Stack_Pop stack_items stack_ok
  stack_cap "\<lambda>xs v. v # xs" "Throw ''stack overflow''" "Throw ''stack underflow''"
proof unfold_locales
  fix s assume "stack_ok s" and "stack_items s = []"
  then show "Stack_Pop s = Inl (Throw ''stack underflow'')"
    by (simp add: stack_items_Nil_iff Stack_Pop_def)
next
  fix s assume "stack_ok s"
  then show "length (stack_items s) \<le> stack_cap s"
    using top_plus1_le_size [of s]
    by (simp add: length_stack_items stack_cap_def stack_ok_def)
qed (simp_all add: stack_push_room stack_push_full stack_pop_some)

lemma Stack_ctor_ok:
  "unat n * 4 \<le> PTRDIFF_MAX \<Longrightarrow>
    \<exists>s. Stack_ctor n = Inr s \<and> stack_ok s \<and> stack_items s = [] \<and> stack_cap s = unat n \<and>
      Stack_Empty s \<and> list_all release_matches (Stack_dtor s)"
  by (simp add: Stack_ctor_def new_array_def stack_ok_def stack_defs Stack_dtor_def)

section \<open>Observers\<close>

lemma Stack_Size_items: "stack_ok s \<Longrightarrow> unat (Stack_Size s) = length (stack_items s)"
  by (simp add: Stack_Size_def length_stack_items)

lemma Stack_Top_items:
  assumes "stack_ok s" "stack_items s = x # xs"
  shows "Stack_Top s = Inr x"
proof -
  have top: "stk_top s \<noteq> - 1" using stack_items_Nil_iff [OF assms(1)] assms(2) by auto
  then have "unat (stk_top s) < length (stk_buffer s)"
    using top_plus1_le_size [OF assms(1)] by (simp add: unat_plus1_size_t)
  then show ?thesis using stack_items_Cons [OF assms(1) top] assms(2) by (simp add: Stack_Top_def)
qed

text \<open>The tokens \<open>Display\<close> writes for a list of values.\<close>

definition display_tokens :: "int list \<Rightarrow> cout list" where
  "display_tokens xs = concat (map (\<lambda>x. [CInt x, CStr tab]) xs) @ [CEndl]"

lemma Stack_Display_loop_prints:
  assumes "stack_ok s" "stk_top s \<noteq> - 1" "unat (stk_top s) < nat INT_MAX"
    and "i \<le> Suc (unat (stk_top s))"
  shows "Stack_Display_loop s (int i) out =
    Inr (out @ display_tokens (drop i (take (Suc (unat (stk_top s))) (stk_buffer s))))"
  using assms(4)
proof (induction "Suc (unat (stk_top s)) - i" arbitrary: i out)
  case 0
  then have i: "i = Suc (unat (stk_top s))" by simp
  with assms(3) have "unat (size_t_of_int (int i)) = i"
    by (intro unat_size_t_of_nat) simp
  with i have "\<not> size_t_of_int (int i) \<le> stk_top s"
    by (simp only: word_le_nat_alt)
  with i show ?case by (subst Stack_Display_loop.simps) (simp add: display_tokens_def)
next
  case (Suc n)
  then have i: "i \<le> unat (stk_top s)" by simp
  with assms(3) have le: "size_t_of_int (int i) \<le> stk_top s"
    by (simp add: word_le_nat_alt unat_size_t_of_int)
  have len: "unat (stk_top s) < length (stk_buffer s)"
    using top_plus1_le_size [OF assms(1)] assms(2) by (simp add: unat_plus1_size_t)
  have "Stack_Display_loop s (int (Suc i)) (out @ [CInt (stk_buffer s ! i), CStr tab]) =
      Inr ((out @ [CInt (stk_buffer s ! i), CStr tab]) @
        display_tokens (drop (Suc i) (take (Suc (unat (stk_top s))) (stk_buffer s))))"
    by (intro Suc.hyps(1)) (use Suc.hyps(2) i in simp_all)
  moreover have "drop i (take (Suc (unat (stk_top s))) (stk_buffer s)) =
      stk_buffer s ! i # drop (Suc i) (take (Suc (unat (stk_top s))) (stk_buffer s))"
    using i len by (subst Cons_nth_drop_Suc [symmetric]) simp_all
  ultimately show ?case
    using le i len assms(3)
    by (simp add: Stack_Display_loop.simps [of s "int i"] display_tokens_def add.commute)
qed

lemma Stack_Display_loop_empty:
  assumes "stk_top s = - 1" "length (stk_buffer s) \<le> nat INT_MAX" "i \<le> length (stk_buffer s)"
  shows "Stack_Display_loop s (int i) out = Inl (Undefined OutOfBoundsRead)"
  using assms(3)
proof (induction "length (stk_buffer s) - i" arbitrary: i out)
  case 0
  then show ?case
    using assms(1) by (simp add: Stack_Display_loop.simps [of s "int i"] word_order.extremum)
next
  case (Suc n)
  then have "Stack_Display_loop s (int (Suc i)) (out @ [CInt (stk_buffer s ! i), CStr tab]) =
      Inl (Undefined OutOfBoundsRead)" by (intro Suc.hyps(1)) simp_all
  with Suc.hyps(2) assms show ?case
    by (auto simp: Stack_Display_loop.simps [of s "int i"] word_order.extremum add.commute)
qed

section \<open>Properties\<close>

text \<open>
  C27: a \<open>Stack\<close> constructed with size \<open>n\<close> answers every sequence of \<open>Push\<close> and \<open>Pop\<close> calls
  exactly as a bounded last-in-first-out list of capacity \<open>n\<close> does: same values, same
  "stack overflow" and "stack underflow" exceptions at the same calls, same final contents.
\<close>

theorem Stack_is_bounded_lifo:
  assumes "Stack_ctor n = Inr s"
  shows "run_ops (spec_push (\<lambda>xs v. v # xs) (unat n) (Throw ''stack overflow''))
           (spec_pop (Throw ''stack underflow'')) [] ops =
         (fst (run_ops Stack_Push Stack_Pop s ops),
          stack_items (snd (run_ops Stack_Push Stack_Pop s ops)))"
proof -
  have "unat n * 4 \<le> PTRDIFF_MAX"
    using assms by (simp add: Stack_ctor_def new_array_def split: if_splits)
  with Stack_ctor_ok [of n] assms have "stack_ok s" "stack_items s = []" "stack_cap s = unat n"
    by auto
  with stack_container.run_ops_refines [of s ops] show ?thesis by simp
qed

theorem Stack_is_bounded_lifo_witness:
  "\<exists>s. Stack_ctor 2 = Inr s \<and>
     fst (run_ops Stack_Push Stack_Pop s [OpPush 5, OpPush 10, OpPush 20, OpPop, OpPop, OpPop]) =
     [Pushed, Pushed, Raised (Throw ''stack overflow''), Popped 10, Popped 5,
      Raised (Throw ''stack underflow'')]"
proof -
  define s where "s = \<lparr>stk_buffer = [0, 0], stk_kind = NewArray, stk_stack_size = 2, stk_top = - 1\<rparr>"
  have s: "Stack_ctor 2 = Inr s"
    by (simp add: Stack_ctor_def new_array_def s_def)
  from s Stack_is_bounded_lifo
    [OF s, of "[OpPush 5, OpPush 10, OpPush 20, OpPop, OpPop, OpPop]"]
  show ?thesis by (simp add: spec_push_def)
qed

text \<open>
  the observers agree with the contents: \<open>Size\<close> counts them, \<open>Empty\<close> tests for none,
  \<open>Top\<close> returns the newest value; on an empty stack \<open>Top\<close> has no check and reads
  \<open>buffer_[-1]\<close>, outside the array.
\<close>

theorem Stack_observers:
  assumes "stack_ok s"
  shows "unat (Stack_Size s) = length (stack_items s) \<and>
    (Stack_Empty s \<longleftrightarrow> stack_items s = []) \<and>
    Stack_Top s = (case stack_items s of [] \<Rightarrow> Inl (Undefined OutOfBoundsRead) | x # _ \<Rightarrow> Inr x)"
proof (cases "stack_items s")
  case Nil
  with assms have "stk_top s = - 1" by (simp add: stack_items_Nil_iff)
  moreover have "length (stk_buffer s) \<le> 2 ^ 64 - 1"
    using assms unat_size_t_lt [of "stk_stack_size s"] by (simp add: stack_ok_def)
  ultimately have "Stack_Top s = Inl (Undefined OutOfBoundsRead)"
    by (simp add: Stack_Top_def unat_minus1_size_t)
  with Nil \<open>stk_top s = - 1\<close> Stack_Size_items [OF assms] show ?thesis
    by (simp add: Stack_Empty_def)
next
  case (Cons x xs)
  with assms show ?thesis
    by (simp add: Stack_Size_items Stack_Top_items Stack_Empty_def flip: stack_items_Nil_iff)
qed

theorem Stack_observers_witness:
  "Stack_Top \<lparr>stk_buffer = [7, 9, 0], stk_kind = NewArray, stk_stack_size = 3, stk_top = 1\<rparr> = Inr 9"
proof -
  let ?s = "\<lparr>stk_buffer = [7, 9, 0 :: int], stk_kind = NewArray, stk_stack_size = 3, stk_top = 1\<rparr>"
  have "stack_ok ?s" by (simp add: stack_ok_def)
  from Stack_observers [OF this] show ?thesis by (simp add: stack_items_def)
qed

text \<open>
  \<open>Display\<close> prints a non-empty stack from the bottom to the top, tab separated, and one
  line end. On an empty stack \<open>top_\<close> is the largest \<open>size_t\<close>, the loop condition
  \<open>i <= top_\<close> is always true, and the loop leaves the array.
\<close>

theorem Stack_Display_prints:
  assumes "stack_ok s" and "stack_cap s \<le> nat INT_MAX"
  shows "Stack_Display s =
    (if stack_items s = [] then Inl (Undefined OutOfBoundsRead)
     else Inr (display_tokens (rev (stack_items s))))"
proof (cases "stk_top s = - 1")
  case True
  then show ?thesis
    using assms Stack_Display_loop_empty [of s 0]
    by (simp add: Stack_Display_def stack_items_Nil_iff stack_ok_def stack_cap_def)
next
  case False
  moreover from this have "unat (stk_top s) < nat INT_MAX"
    using assms by (simp add: stack_ok_def stack_cap_def word_less_nat_alt)
  ultimately show ?thesis
    using assms(1) Stack_Display_loop_prints [of s 0 "[]"] stack_items_Nil_iff [OF assms(1)]
    by (auto simp: Stack_Display_def stack_items_def unat_plus1_size_t)
qed

theorem Stack_Display_prints_witness:
  "\<exists>s0. Stack_ctor 2 = Inr s0 \<and> Stack_Display s0 = Inl (Undefined OutOfBoundsRead) \<and>
    (\<exists>s1. Stack_Push s0 5 = Inr s1 \<and> Stack_Display s1 = Inr [CInt 5, CStr tab, CEndl])"
proof -
  let ?s0 = "\<lparr>stk_buffer = [0, 0], stk_kind = NewArray, stk_stack_size = 2, stk_top = - 1\<rparr>"
  let ?s1 = "\<lparr>stk_buffer = [5, 0], stk_kind = NewArray, stk_stack_size = 2, stk_top = 0\<rparr>"
  have "Stack_ctor 2 = Inr ?s0" by (simp add: Stack_ctor_def new_array_def)
  moreover have "Stack_Push ?s0 5 = Inr ?s1" by (simp add: Stack_Push_def)
  moreover have "stack_ok ?s0" "stack_ok ?s1" by (simp_all add: stack_ok_def)
  then have "Stack_Display ?s0 = Inl (Undefined OutOfBoundsRead)"
    "Stack_Display ?s1 = Inr [CInt 5, CStr tab, CEndl]"
    using Stack_Display_prints [of ?s0] Stack_Display_prints [of ?s1]
    by (simp_all add: stack_cap_def stack_items_def display_tokens_def)
  ultimately show ?thesis by blast
qed

end
