(* ===== verification/Queue.thy ===== *)
theory Queue
  imports Cpp_Prelude
begin

text \<open>
  The class \<open>Queue\<close> of \<open>cmake_make_gtest_cppunit/Queue.h\<close> and \<open>Queue.cpp\<close>: a ring buffer with
  \<open>int\<close> indices \<open>head_\<close> and \<open>tail_\<close> and a \<open>size_t\<close> length. The mixed comparisons convert
  the \<open>int\<close> operand to \<open>size_t\<close>. The queue is empty when the indices are equal, so one cell
  stays unused and the capacity is one less than the length of the buffer.
  The queue refines a bounded list (\<open>bounded_container\<close>), oldest value first.
\<close>

section \<open>State and operations\<close>

record queue =
  q_buffer :: "int list"
  q_kind :: alloc_kind
  q_queue_size :: size_t
  q_head :: int
  q_tail :: int

text \<open>
  \<open>malloc(queue_size * sizeof(int))\<close> computes the byte count modulo \<open>2^64\<close>; \<open>memset\<close>
  clears the same number of bytes.
\<close>

definition Queue_ctor :: "size_t \<Rightarrow> queue" where
  "Queue_ctor queue_size =
     \<lparr>q_buffer = replicate (unat (queue_size * 4) div 4) 0, q_kind = Malloc,
      q_queue_size = queue_size, q_head = 0, q_tail = 0\<rparr>"

definition Queue_dtor :: "queue \<Rightarrow> heap_op list" where
  "Queue_dtor q = [HeapRelease Free (q_kind q)]"

definition Queue_Empty :: "queue \<Rightarrow> bool" where
  "Queue_Empty q \<longleftrightarrow> q_head q = q_tail q"

definition Queue_Push :: "queue \<Rightarrow> int \<Rightarrow> cpp_error + queue" where
  "Queue_Push q val =
     bindE (int_incr (q_tail q)) (\<lambda>t1.
       if q_queue_size q = 0 then Inl (Undefined DivisionByZero)
       else if size_t_of_int t1 mod q_queue_size q = size_t_of_int (q_head q)
       then Inl (Throw ''queue is full'')
       else bindE (write_int_index (q_buffer q) (q_tail q) val) (\<lambda>b.
         Inr (q\<lparr>q_buffer := b,
                q_tail := (if size_t_of_int t1 = q_queue_size q then 0 else t1)\<rparr>)))"

definition Queue_Pop :: "queue \<Rightarrow> cpp_error + int \<times> queue" where
  "Queue_Pop q =
     (if Queue_Empty q then Inl (Throw ''queue is empty'')
      else bindE (read_int_index (q_buffer q) (q_head q)) (\<lambda>v.
        bindE (int_incr (q_head q)) (\<lambda>h1.
          Inr (v, q\<lparr>q_head := (if size_t_of_int h1 = q_queue_size q then 0 else h1)\<rparr>))))"

definition Queue_Back :: "queue \<Rightarrow> cpp_error + int" where
  "Queue_Back q =
     (if Queue_Empty q then Inl (Throw ''queue is empty'')
      else if q_tail q = 0 then buf_read (q_buffer q) (unat (q_queue_size q - 1))
      else read_int_index (q_buffer q) (q_tail q - 1))"

definition Queue_Front :: "queue \<Rightarrow> cpp_error + int" where
  "Queue_Front q =
     (if Queue_Empty q then Inl (Throw ''queue is empty'')
      else read_int_index (q_buffer q) (q_head q))"

section \<open>Well-formed queues and their contents\<close>

text \<open>
  The size must be positive (\<open>Push\<close> divides by it) and at most \<open>INT_MAX\<close> (the indices are
  \<open>int\<close>).
\<close>

definition queue_ok :: "queue \<Rightarrow> bool" where
  "queue_ok q \<longleftrightarrow> 0 < length (q_buffer q) \<and> length (q_buffer q) \<le> nat INT_MAX \<and>
     unat (q_queue_size q) = length (q_buffer q) \<and>
     0 \<le> q_head q \<and> q_head q < int (length (q_buffer q)) \<and>
     0 \<le> q_tail q \<and> q_tail q < int (length (q_buffer q))"

definition queue_count :: "queue \<Rightarrow> nat" where
  "queue_count q =
     (nat (q_tail q) + length (q_buffer q) - nat (q_head q)) mod length (q_buffer q)"

definition queue_items :: "queue \<Rightarrow> int list" where
  "queue_items q =
     map (\<lambda>k. q_buffer q ! ((nat (q_head q) + k) mod length (q_buffer q))) [0..<queue_count q]"

definition queue_cap :: "queue \<Rightarrow> nat" where
  "queue_cap q = length (q_buffer q) - 1"

text \<open>The indices as natural numbers, and the two ring steps on them.\<close>

definition ring_next :: "nat \<Rightarrow> nat \<Rightarrow> nat" where
  "ring_next n i = (if Suc i = n then 0 else Suc i)"

lemma ring_next_mod: "i < n \<Longrightarrow> ring_next n i = Suc i mod n"
  by (auto simp: ring_next_def)

lemma ring_next_lt: "i < n \<Longrightarrow> ring_next n i < n"
  by (auto simp: ring_next_def)

text \<open>
  \<open>ring_view\<close> says what a well-formed queue looks like at the level of natural-number
  indices; the operations below are first shown to be ring steps on it.
\<close>

definition ring_view :: "queue \<Rightarrow> int list \<Rightarrow> nat \<Rightarrow> nat \<Rightarrow> bool" where
  "ring_view q b h t \<longleftrightarrow> q_buffer q = b \<and> q_head q = int h \<and> q_tail q = int t \<and>
     unat (q_queue_size q) = length b \<and> 0 < length b \<and> length b \<le> nat INT_MAX \<and>
     h < length b \<and> t < length b"

lemma queue_ok_view:
  "queue_ok q \<longleftrightarrow> ring_view q (q_buffer q) (nat (q_head q)) (nat (q_tail q))"
  by (auto simp: queue_ok_def ring_view_def)

lemma view_bounds:
  "ring_view q b h t \<Longrightarrow> h < length b \<and> t < length b \<and> length b \<le> nat INT_MAX"
  by (simp add: ring_view_def)

lemma view_wrap:
  assumes "ring_view q b h t" "i < length b"
  shows "(if size_t_of_int (int i + 1) = q_queue_size q then 0 else int i + 1) =
    int (ring_next (length b) i)"
proof -
  have "unat (size_t_of_int (int (Suc i))) = Suc i"
    using assms by (intro unat_size_t_of_nat) (auto simp: ring_view_def)
  moreover have "unat (q_queue_size q) = length b" using assms by (simp add: ring_view_def)
  ultimately have "size_t_of_int (int i + 1) = q_queue_size q \<longleftrightarrow> Suc i = length b"
    by (metis of_nat_Suc add.commute word_unat_eq_iff)
  then show ?thesis by (auto simp: ring_next_def)
qed

lemma view_Push:
  assumes v: "ring_view q b h t"
  shows "Queue_Push q val =
    (if Suc t mod length b = h then Inl (Throw ''queue is full'')
     else Inr (q\<lparr>q_buffer := b[t := val], q_tail := int (ring_next (length b) t)\<rparr>))"
proof -
  note w = view_wrap [OF v, of t] and b = view_bounds [OF v]
  have "unat (size_t_of_int (int (Suc t))) = Suc t" "unat (size_t_of_int (int h)) = h"
    using b by (intro unat_size_t_of_nat; simp)+
  moreover have "unat (q_queue_size q) = length b" "q_queue_size q \<noteq> 0"
    using v by (auto simp: ring_view_def)
  ultimately have "size_t_of_int (int t + 1) mod q_queue_size q = size_t_of_int (int h) \<longleftrightarrow>
      Suc t mod length b = h"
    by (simp add: word_unat_eq_iff unat_mod add.commute)
  moreover have "int t \<noteq> INT_MAX" using b by simp
  ultimately show ?thesis
    using v w b \<open>q_queue_size q \<noteq> 0\<close>
    by (simp add: Queue_Push_def int_incr_def write_int_index_def ring_view_def)
qed

lemma view_Pop:
  assumes v: "ring_view q b h t"
  shows "Queue_Pop q =
    (if h = t then Inl (Throw ''queue is empty'')
     else Inr (b ! h, q\<lparr>q_head := int (ring_next (length b) h)\<rparr>))"
  using view_wrap [OF v, of h] view_bounds [OF v] v
  by (simp add: Queue_Pop_def Queue_Empty_def int_incr_def read_int_index_def ring_view_def)

section \<open>The ring as a list\<close>

definition ring_count :: "nat \<Rightarrow> nat \<Rightarrow> nat \<Rightarrow> nat" where
  "ring_count n h t = (t + n - h) mod n"

definition ring_list :: "'a list \<Rightarrow> nat \<Rightarrow> nat \<Rightarrow> 'a list" where
  "ring_list b h t = map (\<lambda>k. b ! ((h + k) mod length b)) [0..<ring_count (length b) h t]"

lemma queue_items_view: "ring_view q b h t \<Longrightarrow> queue_items q = ring_list b h t"
  by (simp add: queue_items_def ring_list_def queue_count_def ring_count_def ring_view_def)

lemma ring_count_eq:
  "h < n \<Longrightarrow> t < n \<Longrightarrow> ring_count n h t = (if h \<le> t then t - h else t + n - h)"
  by (auto simp: ring_count_def mod_if)

lemma ring_count_tail: "h < n \<Longrightarrow> t < n \<Longrightarrow> (h + ring_count n h t) mod n = t"
  by (auto simp: ring_count_eq)

lemma mod_small_twice: "(x :: nat) < 2 * n \<Longrightarrow> x mod n = (if x < n then x else x - n)"
  by (simp add: le_mod_geq not_less)

lemma ring_count_lt: "h < n \<Longrightarrow> t < n \<Longrightarrow> k < ring_count n h t \<Longrightarrow> (h + k) mod n \<noteq> t"
  by (auto simp: ring_count_eq mod_small_twice split: if_splits)

lemma ring_count_push:
  "h < n \<Longrightarrow> t < n \<Longrightarrow> Suc t mod n \<noteq> h \<Longrightarrow>
    ring_count n h (ring_next n t) = Suc (ring_count n h t)"
  by (auto simp: ring_next_def ring_count_eq split: if_splits)

lemma ring_full_iff:
  "h < n \<Longrightarrow> t < n \<Longrightarrow> Suc t mod n = h \<longleftrightarrow> ring_count n h t = n - 1"
  by (auto simp: ring_count_eq mod_Suc split: if_splits)

lemma ring_list_push:
  assumes "h < length b" "t < length b" "Suc t mod length b \<noteq> h"
  shows "ring_list (b[t := v]) h (ring_next (length b) t) = ring_list b h t @ [v]"
proof -
  have "b[t := v] ! ((h + k) mod length b) = b ! ((h + k) mod length b)"
    if "k < ring_count (length b) h t" for k
    using ring_count_lt [OF assms(1,2) that] by simp
  then show ?thesis
    using assms ring_count_tail [OF assms(1,2)] by (simp add: ring_list_def ring_count_push)
qed

lemma ring_list_pop:
  assumes "h < length b" "t < length b" "h \<noteq> t"
  shows "ring_list b h t = b ! h # ring_list b (ring_next (length b) h) t"
proof -
  let ?n = "length b"
  have c: "ring_count ?n h t = Suc (ring_count ?n (ring_next ?n h) t)"
    using assms ring_next_lt [of h ?n]
    by (auto simp: ring_count_eq ring_next_def split: if_splits)
  have "(ring_next ?n h + k) mod ?n = (h + Suc k) mod ?n" for k
    using assms(1) by (simp add: ring_next_mod mod_simps)
  then show ?thesis
    using assms by (simp add: ring_list_def c upt_conv_Cons map_Suc_upt [symmetric] del: upt_Suc)
qed

lemma ring_list_Nil_iff:
  "h < length b \<Longrightarrow> t < length b \<Longrightarrow> ring_list b h t = [] \<longleftrightarrow> h = t"
  by (auto simp: ring_list_def ring_count_eq)

lemma ring_list_last:
  assumes "h < length b" "t < length b" "h \<noteq> t"
  shows "last (ring_list b h t) = b ! (if t = 0 then length b - 1 else t - 1)"
proof -
  have "ring_count (length b) h t \<noteq> 0" using assms by (auto simp: ring_count_eq)
  then have "last (ring_list b h t) =
      b ! ((h + (ring_count (length b) h t - 1)) mod length b)"
    by (simp add: ring_list_def last_map)
  then show ?thesis using assms by (auto simp: ring_count_eq mod_small_twice split: if_splits)
qed

section \<open>The queue as a bounded container\<close>

lemma queue_items_length:
  "ring_view q b h t \<Longrightarrow> length (queue_items q) = ring_count (length b) h t"
  by (simp add: queue_items_view ring_list_def)

lemma queue_room_iff:
  assumes "ring_view q b h t"
  shows "length (queue_items q) < queue_cap q \<longleftrightarrow> Suc t mod length b \<noteq> h"
proof -
  note b = view_bounds [OF assms]
  have "ring_count (length b) h t \<le> length b - 1"
    using b by (auto simp: ring_count_eq)
  moreover have "queue_cap q = length b - 1" using assms by (simp add: queue_cap_def ring_view_def)
  ultimately show ?thesis
    using queue_items_length [OF assms] ring_full_iff [of h "length b" t] b by auto
qed

lemma queue_push_room:
  assumes ok: "queue_ok q" and room: "length (queue_items q) < queue_cap q"
  shows "\<exists>q'. Queue_Push q v = Inr q' \<and> queue_ok q' \<and> queue_items q' = queue_items q @ [v] \<and>
    queue_cap q' = queue_cap q"
proof -
  obtain b h t where vw: "ring_view q b h t" using ok by (auto simp: queue_ok_view)
  let ?q = "q\<lparr>q_buffer := b[t := v], q_tail := int (ring_next (length b) t)\<rparr>"
  have ns: "Suc t mod length b \<noteq> h" using room queue_room_iff [OF vw] by simp
  have vw': "ring_view ?q (b[t := v]) h (ring_next (length b) t)"
    using vw ring_next_lt [of t "length b"] by (simp add: ring_view_def)
  then have "queue_ok ?q" by (simp add: queue_ok_view ring_view_def)
  moreover have "queue_items ?q = queue_items q @ [v]"
    using vw vw' ns view_bounds [OF vw] by (simp add: queue_items_view ring_list_push)
  moreover have "queue_cap ?q = queue_cap q" using vw by (simp add: queue_cap_def ring_view_def)
  ultimately show ?thesis using view_Push [OF vw] ns by simp
qed

lemma queue_push_full:
  assumes "queue_ok q" "\<not> length (queue_items q) < queue_cap q"
  shows "Queue_Push q v = Inl (Throw ''queue is full'')"
  using assms queue_room_iff view_Push by (auto simp: queue_ok_view)

lemma queue_pop_some:
  assumes ok: "queue_ok q" and items: "queue_items q = x # xs"
  shows "\<exists>q'. Queue_Pop q = Inr (x, q') \<and> queue_ok q' \<and> queue_items q' = xs \<and>
    queue_cap q' = queue_cap q"
proof -
  obtain b h t where vw: "ring_view q b h t" using ok by (auto simp: queue_ok_view)
  let ?q = "q\<lparr>q_head := int (ring_next (length b) h)\<rparr>"
  have ne: "h \<noteq> t" using items vw view_bounds [OF vw] ring_list_Nil_iff [of h b t]
    by (auto simp: queue_items_view)
  have vw': "ring_view ?q b (ring_next (length b) h) t"
    using vw ring_next_lt [of h "length b"] by (simp add: ring_view_def)
  then have "queue_ok ?q" by (simp add: queue_ok_view ring_view_def)
  moreover have "queue_items q = b ! h # queue_items ?q"
    using vw vw' ne view_bounds [OF vw] by (simp add: queue_items_view ring_list_pop)
  moreover have "queue_cap ?q = queue_cap q" by (simp add: queue_cap_def)
  ultimately show ?thesis using view_Pop [OF vw] ne items by simp
qed

lemma queue_pop_none:
  assumes "queue_ok q" "queue_items q = []"
  shows "Queue_Pop q = Inl (Throw ''queue is empty'')"
proof -
  obtain b h t where vw: "ring_view q b h t" using assms(1) by (auto simp: queue_ok_view)
  with assms(2) view_bounds [OF vw] have "h = t"
    by (simp add: queue_items_view ring_list_Nil_iff)
  with view_Pop [OF vw] show ?thesis by simp
qed

interpretation queue_container: bounded_container Queue_Push Queue_Pop queue_items queue_ok
  queue_cap "\<lambda>xs v. xs @ [v]" "Throw ''queue is full''" "Throw ''queue is empty''"
proof unfold_locales
  fix q assume "queue_ok q"
  then obtain b h t where vw: "ring_view q b h t" by (auto simp: queue_ok_view)
  with view_bounds [OF vw] show "length (queue_items q) \<le> queue_cap q"
    by (auto simp: queue_items_length queue_cap_def ring_count_eq ring_view_def)
qed (simp_all add: queue_push_room queue_push_full queue_pop_some queue_pop_none)

lemma Queue_ctor_ok:
  assumes "n \<noteq> 0" "unat n \<le> nat INT_MAX"
  shows "queue_ok (Queue_ctor n)" "queue_items (Queue_ctor n) = []"
    "queue_cap (Queue_ctor n) = unat n - 1"
proof -
  have "unat (n * 4) = unat n * 4"
    using assms(2) by (subst unat_mult_lem [THEN iffD1]) simp_all
  then have "length (q_buffer (Queue_ctor n)) = unat n" by (simp add: Queue_ctor_def)
  moreover from assms(1) have "0 < unat n" by (simp add: unat_gt_0)
  moreover from this have "0 < uint n" by (metis of_nat_0_less_iff of_nat_unat)
  ultimately show "queue_ok (Queue_ctor n)" "queue_items (Queue_ctor n) = []"
      "queue_cap (Queue_ctor n) = unat n - 1"
    using assms(2) by (simp_all add: queue_ok_def queue_items_def queue_count_def queue_cap_def)
      (simp_all add: Queue_ctor_def)
qed

section \<open>Properties\<close>

text \<open>
  C7: a \<open>Queue\<close> constructed with size \<open>n\<close>, \<open>0 < n <= INT_MAX\<close>, answers every sequence of
  \<open>Push\<close> and \<open>Pop\<close> calls exactly as a bounded first-in-first-out list of capacity
  \<open>n - 1\<close> does: same values, same "queue is full" and "queue is empty" exceptions at the
  same calls, same final contents, whatever the wrap-around of the ring.
\<close>

theorem Queue_is_bounded_fifo:
  assumes "n \<noteq> 0" and "unat n \<le> nat INT_MAX"
  shows "run_ops (spec_push (\<lambda>xs v. xs @ [v]) (unat n - 1) (Throw ''queue is full''))
           (spec_pop (Throw ''queue is empty'')) [] ops =
         (fst (run_ops Queue_Push Queue_Pop (Queue_ctor n) ops),
          queue_items (snd (run_ops Queue_Push Queue_Pop (Queue_ctor n) ops)))"
  using queue_container.run_ops_refines [of "Queue_ctor n" ops] Queue_ctor_ok [OF assms]
  by simp

theorem Queue_is_bounded_fifo_witness:
  "fst (run_ops Queue_Push Queue_Pop (Queue_ctor 3)
      [OpPush 5, OpPop, OpPush 10, OpPush 20, OpPush 40, OpPop, OpPush 60, OpPop, OpPop, OpPop]) =
    [Pushed, Popped 5, Pushed, Pushed, Raised (Throw ''queue is full''), Popped 10, Pushed,
     Popped 20, Popped 60, Raised (Throw ''queue is empty'')]"
  using Queue_is_bounded_fifo [of 3
      "[OpPush 5, OpPop, OpPush 10, OpPush 20, OpPush 40, OpPop, OpPush 60, OpPop, OpPop, OpPop]"]
  by (simp add: spec_push_def)

text \<open>
  on a well-formed queue \<open>Front\<close> returns the oldest value and \<open>Back\<close> the newest one,
  also when the newest one sits in the last cell (\<open>tail_ == 0\<close>); both throw on an empty
  queue. \<open>Empty\<close> tests for no contents.
\<close>

theorem Queue_front_back:
  assumes "queue_ok q"
  shows "(Queue_Empty q \<longleftrightarrow> queue_items q = []) \<and>
    Queue_Front q = (if queue_items q = [] then Inl (Throw ''queue is empty'')
      else Inr (hd (queue_items q))) \<and>
    Queue_Back q = (if queue_items q = [] then Inl (Throw ''queue is empty'')
      else Inr (last (queue_items q)))"
proof -
  obtain b h t where vw: "ring_view q b h t" using assms by (auto simp: queue_ok_view)
  note b = view_bounds [OF vw]
  have e: "Queue_Empty q \<longleftrightarrow> h = t" using vw by (simp add: Queue_Empty_def ring_view_def)
  have i: "queue_items q = [] \<longleftrightarrow> h = t" using vw b by (simp add: queue_items_view ring_list_Nil_iff)
  have "q_queue_size q \<noteq> 0" using vw by (auto simp: ring_view_def)
  then have "unat (q_queue_size q - 1) = length b - 1"
    using vw by (simp add: ring_view_def unat_minus1_pred_size_t)
  then have "Queue_Back q = Inr (b ! (if t = 0 then length b - 1 else t - 1))" if "h \<noteq> t"
    using vw b that by (auto simp: Queue_Back_def e read_int_index_def ring_view_def nat_diff_distrib)
  moreover have "Queue_Front q = Inr (b ! h)" if "h \<noteq> t"
    using vw b that by (auto simp: Queue_Front_def e read_int_index_def ring_view_def)
  ultimately show ?thesis
    using e i b vw ring_list_last [of h b t] ring_list_pop [of h b t]
    by (auto simp: Queue_Back_def Queue_Front_def queue_items_view)
qed

theorem Queue_front_back_witness:
  "Queue_Back \<lparr>q_buffer = [0, 10, 20], q_kind = Malloc, q_queue_size = 3, q_head = 1, q_tail = 0\<rparr> =
    Inr 20"
proof -
  let ?q = "\<lparr>q_buffer = [0, 10, 20], q_kind = Malloc, q_queue_size = 3, q_head = 1, q_tail = 0\<rparr>"
  have "queue_ok ?q" by (simp add: queue_ok_def)
  from Queue_front_back [OF this] show ?thesis
    by (simp add: queue_items_def queue_count_def upt_rec)
qed

text \<open>
  the size the constructor accepts is not checked: with size 0 the first \<open>Push\<close> divides
  by zero.
\<close>

theorem Queue_zero_size_Push:
  "Queue_Push (Queue_ctor 0) v = Inl (Undefined DivisionByZero)"
  by (simp add: Queue_ctor_def Queue_Push_def int_incr_def)

end
