(* ===== verification/DArray.thy ===== *)
theory DArray
  imports Cpp_Prelude
begin

text \<open>
  The class \<open>DArray\<close> of \<open>cmake_make_gtest_cppunit/DArray.h\<close> and \<open>DArray.cpp\<close>: a growing array
  of \<open>double\<close>. A cell is \<open>None\<close> while it has never been written (the tail of a block obtained
  with \<open>new double[n]\<close>). \<open>da_kind\<close> records how the current block was obtained and
  \<open>da_released\<close> the releases made so far, because the constructor allocates with \<open>malloc\<close>,
  \<open>Reallocate\<close> with \<open>new[]\<close>, and the two release with \<open>delete[]\<close> and \<open>free\<close>. A release of a block by a
  function that does not fit the way it was obtained (\<open>release_matches\<close>) is undefined behaviour; the operations below
  go on as an implementation does in which both are the same allocator, and the log says
  whether the run so far was defined.
  Allocation itself is taken to succeed, except where \<open>new[]\<close> refuses the size.
\<close>

section \<open>State and operations\<close>

record darray =
  da_null :: bool
  da_buffer :: "double option list"
  da_kind :: alloc_kind
  da_buf_size :: size_t
  da_actual_size :: size_t
  da_released :: "heap_op list"

definition DArray_ctor :: "size_t \<Rightarrow> darray" where
  "DArray_ctor buffer_size =
     \<lparr>da_null = False, da_buffer = replicate (unat (buffer_size * 8) div 8) (Some (Fin 0)),
      da_kind = Malloc, da_buf_size = buffer_size, da_actual_size = 0, da_released = []\<rparr>"

definition DArray_DtorHelper :: "darray \<Rightarrow> darray" where
  "DArray_DtorHelper d = d"

definition DArray_dtor :: "darray \<Rightarrow> darray" where
  "DArray_dtor d =
     (DArray_DtorHelper (d\<lparr>da_released := da_released d @ [HeapRelease Free (da_kind d)]\<rparr>))
       \<lparr>da_null := True\<rparr>"

definition DArray_Size :: "darray \<Rightarrow> size_t" where
  "DArray_Size d = da_actual_size d"

definition DArray_Capacity :: "darray \<Rightarrow> size_t" where
  "DArray_Capacity d = da_buf_size d"

definition DArray_IsEmpty :: "darray \<Rightarrow> bool" where
  "DArray_IsEmpty d \<longleftrightarrow> da_actual_size d = 0"

text \<open>A read of \<open>buffer_[i]\<close>: through a null pointer, outside the block, or of a cell that was
  never written, it is undefined.\<close>

definition cell_value :: "double option \<Rightarrow> cpp_error + double" where
  "cell_value c = (case c of None \<Rightarrow> Inl (Undefined UninitialisedRead) | Some x \<Rightarrow> Inr x)"

definition DArray_At :: "darray \<Rightarrow> int \<Rightarrow> cpp_error + double" where
  "DArray_At d index =
     (if da_null d \<or> size_t_of_int index > da_actual_size d - 1 then Inl (Throw ''out of range'')
      else bindE (read_int_index (da_buffer d) index) cell_value)"

text \<open>\<open>operator[]\<close> returns a reference; \<open>DArray_get\<close> reads and \<open>DArray_set\<close> writes through it.\<close>

definition DArray_get :: "darray \<Rightarrow> size_t \<Rightarrow> cpp_error + double" where
  "DArray_get d index =
     (if da_null d then Inl (Undefined NullDeref)
      else bindE (buf_read (da_buffer d) (unat index)) cell_value)"

definition DArray_set :: "darray \<Rightarrow> size_t \<Rightarrow> double \<Rightarrow> cpp_error + darray" where
  "DArray_set d index v =
     (if da_null d then Inl (Undefined NullDeref)
      else bindE (buf_write (da_buffer d) (unat index) (Some v)) (\<lambda>b. Inr (d\<lparr>da_buffer := b\<rparr>)))"

text \<open>
  \<open>memcpy(new_buffer, buffer_, buf_size_ * sizeof(double))\<close>: the byte count is computed modulo
  \<open>2^64\<close>, and both blocks must be at least that long.
\<close>

definition memcpy_cells :: "'a list \<Rightarrow> 'a list \<Rightarrow> nat \<Rightarrow> cpp_error + 'a list" where
  "memcpy_cells dst src k =
     (if length src < k then Inl (Undefined OutOfBoundsRead)
      else if length dst < k then Inl (Undefined OutOfBoundsWrite)
      else Inr (take k src @ drop k dst))"

definition DArray_Reallocate :: "darray \<Rightarrow> cpp_error + darray" where
  "DArray_Reallocate d =
     (let new_buf_size = da_buf_size d * 2 in
      bindE (new_array 8 (unat new_buf_size) None) (\<lambda>new_buffer.
        bindE (memcpy_cells new_buffer (da_buffer d) (unat (da_buf_size d * 8) div 8)) (\<lambda>filled.
          Inr (d\<lparr>da_released := da_released d @ [HeapRelease DeleteArray (da_kind d)],
                 da_buf_size := new_buf_size, da_buffer := filled, da_kind := NewArray\<rparr>))))"

definition DArray_PushBack :: "darray \<Rightarrow> double \<Rightarrow> cpp_error + darray" where
  "DArray_PushBack d value =
     bindE (if da_actual_size d = da_buf_size d then DArray_Reallocate d else Inr d) (\<lambda>d1.
       bindE (DArray_set d1 (da_actual_size d1) value) (\<lambda>d2.
         Inr (d2\<lparr>da_actual_size := da_actual_size d2 + 1\<rparr>)))"

definition DArray_PopBack :: "darray \<Rightarrow> cpp_error + double \<times> darray" where
  "DArray_PopBack d =
     (if da_actual_size d = 0 then Inl (Throw ''DArray is empty'')
      else let d1 = d\<lparr>da_actual_size := da_actual_size d - 1\<rparr> in
        bindE (DArray_get d1 (da_actual_size d1)) (\<lambda>v. Inr (v, d1)))"

text \<open>\<open>Display\<close>: a \<open>size_t\<close> index counted up to \<open>actual_size_\<close>.\<close>

function DArray_Display_loop :: "darray \<Rightarrow> nat \<Rightarrow> cout list \<Rightarrow> cpp_error + cout list" where
  "DArray_Display_loop d i out =
     (if i < unat (da_actual_size d) then
        bindE (DArray_get d (of_nat i)) (\<lambda>v.
          DArray_Display_loop d (Suc i) (out @ [CDbl v, CStr tab]))
      else Inr (out @ [CEndl]))"
  by pat_completeness auto
termination
  by (relation "measure (\<lambda>(d, i, out). unat (da_actual_size d) - i)") auto

declare DArray_Display_loop.simps [simp del]

definition DArray_Display :: "darray \<Rightarrow> cpp_error + cout list" where
  "DArray_Display d = DArray_Display_loop d 0 []"

section \<open>Well-formed arrays and their contents\<close>

definition darray_ok :: "darray \<Rightarrow> bool" where
  "darray_ok d \<longleftrightarrow> \<not> da_null d \<and> length (da_buffer d) = unat (da_buf_size d) \<and>
     length (da_buffer d) * 8 \<le> PTRDIFF_MAX \<and> da_actual_size d \<le> da_buf_size d \<and>
     list_all (\<lambda>c. c \<noteq> None) (take (unat (da_actual_size d)) (da_buffer d))"

definition darray_list :: "darray \<Rightarrow> double list" where
  "darray_list d = map the (take (unat (da_actual_size d)) (da_buffer d))"

text \<open>\<open>growable\<close>: the array is not full, or it can be doubled.\<close>

definition growable :: "darray \<Rightarrow> bool" where
  "growable d \<longleftrightarrow> da_actual_size d \<noteq> da_buf_size d \<or>
     (da_buf_size d \<noteq> 0 \<and> unat (da_buf_size d) * 16 \<le> PTRDIFF_MAX)"

lemma ok_size_le: "darray_ok d \<Longrightarrow> unat (da_actual_size d) \<le> length (da_buffer d)"
  by (simp add: darray_ok_def word_le_nat_alt)

lemma length_darray_list [simp]:
  "darray_ok d \<Longrightarrow> length (darray_list d) = unat (DArray_Size d)"
  using ok_size_le [of d] by (simp add: darray_list_def DArray_Size_def)

lemma ok_cell:
  assumes "darray_ok d" "i < unat (da_actual_size d)"
  shows "da_buffer d ! i = Some (darray_list d ! i)"
proof -
  have "i < length (da_buffer d)" using assms ok_size_le [of d] by simp
  moreover have "da_buffer d ! i \<noteq> None"
    using assms ok_size_le [of d] by (auto simp: darray_ok_def list_all_length)
  ultimately show ?thesis using assms by (auto simp: darray_list_def)
qed

lemma DArray_get_ok:
  "darray_ok d \<Longrightarrow> i < DArray_Size d \<Longrightarrow> DArray_get d i = Inr (darray_list d ! unat i)"
  using ok_size_le [of d] ok_cell [of d "unat i"]
  by (simp add: DArray_get_def DArray_Size_def word_less_nat_alt darray_ok_def cell_value_def)

lemma ok_write:
  assumes ok: "darray_ok d" and i: "i < length (da_buffer d)"
  shows "darray_ok (d\<lparr>da_buffer := (da_buffer d)[i := Some v]\<rparr>)"
    and "darray_list (d\<lparr>da_buffer := (da_buffer d)[i := Some v]\<rparr>) = (darray_list d)[i := v]"
proof -
  show "darray_ok (d\<lparr>da_buffer := (da_buffer d)[i := Some v]\<rparr>)"
    using ok set_update_subset_insert [of "take (unat (da_actual_size d)) (da_buffer d)" i "Some v"]
    by (auto simp: darray_ok_def list_all_iff take_update_swap)
  show "darray_list (d\<lparr>da_buffer := (da_buffer d)[i := Some v]\<rparr>) = (darray_list d)[i := v]"
    by (simp add: darray_list_def take_update_swap map_update)
qed

lemma DArray_set_ok:
  assumes "darray_ok d" "i < DArray_Size d"
  shows "\<exists>d'. DArray_set d i v = Inr d' \<and> darray_ok d' \<and>
    darray_list d' = (darray_list d)[unat i := v] \<and> DArray_Size d' = DArray_Size d"
proof -
  have "unat i < length (da_buffer d)"
    using assms ok_size_le [of d] by (simp add: DArray_Size_def word_less_nat_alt)
  with assms ok_write [OF assms(1) this, of v] show ?thesis
    by (simp add: DArray_set_def DArray_Size_def darray_ok_def)
qed

section \<open>Growth\<close>

lemma DArray_Reallocate_ok:
  assumes ok: "darray_ok d" and nz: "da_buf_size d \<noteq> 0"
    and room: "unat (da_buf_size d) * 16 \<le> PTRDIFF_MAX"
  shows "\<exists>d'. DArray_Reallocate d = Inr d' \<and> darray_ok d' \<and> darray_list d' = darray_list d \<and>
    unat (da_buf_size d') = 2 * unat (da_buf_size d) \<and> da_actual_size d' = da_actual_size d \<and>
    da_kind d' = NewArray \<and>
    da_released d' = da_released d @ [HeapRelease DeleteArray (da_kind d)]"
proof -
  let ?n = "unat (da_buf_size d)"
  have n2: "unat (da_buf_size d * 2) = ?n * 2" and n8: "unat (da_buf_size d * 8) = ?n * 8"
    using room by (subst unat_mult_lem [THEN iffD1]; simp)+
  have len: "length (da_buffer d) = ?n" and act: "unat (da_actual_size d) \<le> ?n"
    using ok by (simp_all add: darray_ok_def word_le_nat_alt)
  define b where "b = da_buffer d @ replicate ?n None"
  let ?d = "d\<lparr>da_released := da_released d @ [HeapRelease DeleteArray (da_kind d)],
              da_buf_size := da_buf_size d * 2, da_buffer := b, da_kind := NewArray\<rparr>"
  have "DArray_Reallocate d = Inr ?d"
    using room len by (simp add: DArray_Reallocate_def new_array_def memcpy_cells_def n2 n8 Let_def b_def)
  moreover have "darray_ok ?d" "darray_list ?d = darray_list d"
    using ok room act len
    by (simp_all add: darray_ok_def darray_list_def b_def n2 word_le_nat_alt)
  ultimately show ?thesis by (simp add: n2)
qed

lemma DArray_PushBack_ok:
  assumes ok: "darray_ok d" and grow: "growable d"
  shows "\<exists>d'. DArray_PushBack d v = Inr d' \<and> darray_ok d' \<and> darray_list d' = darray_list d @ [v] \<and>
    unat (DArray_Capacity d') =
      (if DArray_Size d = DArray_Capacity d then 2 else 1) * unat (DArray_Capacity d)"
proof -
  obtain d1 where d1: "(if da_actual_size d = da_buf_size d then DArray_Reallocate d else Inr d) = Inr d1"
    "darray_ok d1" "darray_list d1 = darray_list d" "da_actual_size d1 = da_actual_size d"
    "unat (da_buf_size d1) =
      (if da_actual_size d = da_buf_size d then 2 else 1) * unat (da_buf_size d)"
    "unat (da_actual_size d1) < unat (da_buf_size d1)"
  proof (cases "da_actual_size d = da_buf_size d")
    case True
    with grow DArray_Reallocate_ok [OF ok] that show ?thesis
      by (auto simp: growable_def unat_gt_0)
  next
    case False
    with ok that [of d] show ?thesis
      by (simp add: darray_ok_def word_le_nat_alt le_neq_implies_less word_unat_eq_iff)
  qed
  let ?i = "unat (da_actual_size d1)"
  let ?d2 = "d1\<lparr>da_buffer := (da_buffer d1)[?i := Some v], da_actual_size := da_actual_size d1 + 1\<rparr>"
  have len: "length (da_buffer d1) = unat (da_buf_size d1)" using d1(2) by (simp add: darray_ok_def)
  have suc: "unat (da_actual_size d1 + 1) = Suc ?i"
    using d1(6) by (intro unat_plus1_size_t unat_less_not_minus1)
  have "DArray_PushBack d v = Inr ?d2"
    using d1 len by (simp add: DArray_PushBack_def DArray_set_def darray_ok_def)
  moreover have "darray_list ?d2 = darray_list d @ [v]"
    using d1(3,6) len by (simp add: darray_list_def suc take_Suc_list_update)
  moreover have "darray_ok ?d2"
    using d1(2,6) len by (simp add: darray_ok_def suc take_Suc_list_update word_le_nat_alt)
  ultimately show ?thesis using d1(4,5) by (simp add: DArray_Size_def DArray_Capacity_def)
qed

lemma DArray_PopBack_ok:
  assumes ok: "darray_ok d" and ne: "da_actual_size d \<noteq> 0"
  shows "\<exists>d'. DArray_PopBack d = Inr (last (darray_list d), d') \<and> darray_ok d' \<and>
    darray_list d' = butlast (darray_list d) \<and> da_buf_size d' = da_buf_size d \<and>
    da_buffer d' = da_buffer d"
proof -
  let ?n = "unat (da_actual_size d)"
  let ?d = "d\<lparr>da_actual_size := da_actual_size d - 1\<rparr>"
  have n: "unat (da_actual_size d - 1) = ?n - 1" "0 < ?n"
    using ne by (simp_all add: unat_minus1_pred_size_t unat_gt_0)
  have le: "?n \<le> length (da_buffer d)" using ok by (rule ok_size_le)
  have "last (darray_list d) = darray_list d ! (?n - 1)"
    using ok n by (subst last_conv_nth) (auto simp: DArray_Size_def simp flip: length_greater_0_conv)
  then have "DArray_PopBack d = Inr (last (darray_list d), ?d)"
    using ok ne n le ok_cell [OF ok, of "?n - 1"]
    by (simp add: DArray_PopBack_def Let_def DArray_get_def darray_ok_def cell_value_def)
  moreover have "darray_list ?d = butlast (darray_list d)"
    using le by (simp add: darray_list_def n(1) butlast_conv_take map_butlast min_def flip: take_map)
  moreover have "darray_ok ?d"
    using ok n by (auto simp: darray_ok_def word_le_nat_alt list_all_length)
  ultimately show ?thesis by simp
qed

section \<open>The array interface\<close>

text \<open>
  What a client of the array (the heap) relies on: checked element access that behaves as a
  list, and the two ends.
\<close>

locale array_interface =
  fixes get :: "'d \<Rightarrow> size_t \<Rightarrow> cpp_error + 'v"
    and set_at :: "'d \<Rightarrow> size_t \<Rightarrow> 'v \<Rightarrow> cpp_error + 'd"
    and arr_size :: "'d \<Rightarrow> size_t"
    and contents :: "'d \<Rightarrow> 'v list"
    and ok :: "'d \<Rightarrow> bool"
  assumes get_in: "ok d \<Longrightarrow> i < arr_size d \<Longrightarrow> get d i = Inr (contents d ! unat i)"
    and set_in: "ok d \<Longrightarrow> i < arr_size d \<Longrightarrow>
      \<exists>d'. set_at d i v = Inr d' \<and> ok d' \<and> contents d' = (contents d)[unat i := v] \<and>
        arr_size d' = arr_size d"
    and size_contents: "ok d \<Longrightarrow> length (contents d) = unat (arr_size d)"
begin

lemma swap_in:
  assumes "ok d" "i < arr_size d" "j < arr_size d"
  shows "\<exists>d'. bindE (get d i) (\<lambda>x. bindE (get d j) (\<lambda>y.
      bindE (set_at d i y) (\<lambda>d1. set_at d1 j x))) = Inr d' \<and> ok d' \<and>
    contents d' = (contents d)[unat i := contents d ! unat j, unat j := contents d ! unat i] \<and>
    arr_size d' = arr_size d"
proof -
  from set_in [OF assms(1,2), of "contents d ! unat j"] obtain d1 where
    d1: "set_at d i (contents d ! unat j) = Inr d1" "ok d1"
      "contents d1 = (contents d)[unat i := contents d ! unat j]" "arr_size d1 = arr_size d"
    by auto
  with set_in [of d1 j "contents d ! unat i"] assms show ?thesis
    by (auto simp: get_in)
qed

end

interpretation darray_array: array_interface DArray_get DArray_set DArray_Size darray_list darray_ok
  by unfold_locales (simp_all add: DArray_get_ok DArray_set_ok)

lemma DArray_ctor_ok:
  assumes "unat n * 8 \<le> PTRDIFF_MAX"
  shows "darray_ok (DArray_ctor n)" "darray_list (DArray_ctor n) = []"
    "da_buf_size (DArray_ctor n) = n" "da_actual_size (DArray_ctor n) = 0"
proof -
  have "unat (n * 8) = unat n * 8"
    using assms by (subst unat_mult_lem [THEN iffD1]) simp_all
  with assms show "darray_ok (DArray_ctor n)" "darray_list (DArray_ctor n) = []"
      "da_buf_size (DArray_ctor n) = n" "da_actual_size (DArray_ctor n) = 0"
    by (simp_all add: darray_ok_def DArray_ctor_def darray_list_def)
qed

lemma DArray_Display_loop_ok:
  assumes "darray_ok d" "i \<le> unat (da_actual_size d)"
  shows "DArray_Display_loop d i out =
    Inr (out @ concat (map (\<lambda>v. [CDbl v, CStr tab]) (drop i (darray_list d))) @ [CEndl])"
  using assms(2)
proof (induction "unat (da_actual_size d) - i" arbitrary: i out)
  case 0
  with assms(1) show ?case
    by (subst DArray_Display_loop.simps) (simp add: DArray_Size_def)
next
  case (Suc n)
  then have i: "i < unat (da_actual_size d)" by simp
  then have u: "unat (of_nat i :: size_t) = i"
    using unat_size_t_lt [of "da_actual_size d"] by (intro unat_of_nat_size_t) simp
  then have "DArray_get d (of_nat i) = Inr (darray_list d ! i)"
    using i assms(1) by (subst DArray_get_ok) (simp_all add: DArray_Size_def word_less_nat_alt)
  moreover have "drop i (darray_list d) = darray_list d ! i # drop (Suc i) (darray_list d)"
    using i assms(1) by (intro Cons_nth_drop_Suc [symmetric]) (simp add: DArray_Size_def)
  moreover have "DArray_Display_loop d (Suc i) (out @ [CDbl (darray_list d ! i), CStr tab]) =
      Inr ((out @ [CDbl (darray_list d ! i), CStr tab]) @
        concat (map (\<lambda>v. [CDbl v, CStr tab]) (drop (Suc i) (darray_list d))) @ [CEndl])"
    by (intro Suc.hyps(1)) (use Suc.hyps(2) in simp_all)
  ultimately show ?case using i by (subst DArray_Display_loop.simps) simp
qed

section \<open>Properties\<close>

text \<open>
  \<open>PushBack\<close> on a well-formed array that is not full, or that is full with a non-zero
  capacity that can be doubled, appends the value, keeps all others and the invariant; the
  capacity doubles exactly when the array was full.
\<close>

theorem DArray_PushBack_appends:
  assumes "darray_ok d" and "growable d"
  shows "\<exists>d'. DArray_PushBack d v = Inr d' \<and> darray_ok d' \<and> darray_list d' = darray_list d @ [v] \<and>
    unat (DArray_Capacity d') =
      (if DArray_Size d = DArray_Capacity d then 2 else 1) * unat (DArray_Capacity d)"
  using assms by (rule DArray_PushBack_ok)

theorem DArray_PushBack_appends_witness:
  "\<exists>d'. DArray_PushBack \<lparr>da_null = False, da_buffer = [Some (Fin 5)], da_kind = Malloc,
      da_buf_size = 1, da_actual_size = 1, da_released = []\<rparr> (Fin 7) = Inr d' \<and>
    darray_list d' = [Fin 5, Fin 7] \<and> unat (DArray_Capacity d') = 2"
proof -
  let ?d = "\<lparr>da_null = False, da_buffer = [Some (Fin 5)], da_kind = Malloc,
      da_buf_size = 1, da_actual_size = 1, da_released = []\<rparr>"
  have "darray_ok ?d" "growable ?d" by (simp_all add: darray_ok_def growable_def)
  from DArray_PushBack_appends [OF this, of "Fin 7"] show ?thesis
    by (auto simp: darray_list_def DArray_Capacity_def DArray_Size_def)
qed

text \<open>
  \<open>At\<close> on a non-empty array returns the element for an index in range and throws for
  every other \<open>int\<close>, negative ones included. On an empty array \<open>actual_size_ - 1\<close> wraps
  around, so the check passes: an index inside the capacity reads the raw cell.
\<close>

theorem DArray_At_range:
  assumes "darray_ok d" and "in_int_range index"
  shows "DArray_At d index =
    (if darray_list d \<noteq> [] then
       (if 0 \<le> index \<and> nat index < length (darray_list d) then Inr (darray_list d ! nat index)
        else Inl (Throw ''out of range''))
     else bindE (read_int_index (da_buffer d) index) cell_value)"
proof -
  let ?n = "unat (da_actual_size d)"
  have len: "length (darray_list d) = ?n" using assms(1) by (simp add: DArray_Size_def)
  show ?thesis
  proof (cases "da_actual_size d = 0")
    case True
    with len assms(1) show ?thesis
      by (simp add: DArray_At_def darray_ok_def word_order.extremum_strict)
  next
    case False
    then have n: "unat (da_actual_size d - 1) = ?n - 1" "0 < ?n"
      by (simp_all add: unat_minus1_pred_size_t unat_gt_0)
    have n64: "?n * 8 \<le> PTRDIFF_MAX"
      using ok_size_le [OF assms(1)] assms(1) by (simp add: darray_ok_def)
    have gt: "size_t_of_int index > da_actual_size d - 1 \<longleftrightarrow> \<not> (0 \<le> index \<and> nat index < ?n)"
    proof (cases "0 \<le> index")
      case True
      then have "unat (size_t_of_int index) = nat index"
        using assms(2) by (intro unat_size_t_of_int) (simp_all add: in_int_range_def)
      with True n show ?thesis by (auto simp: word_less_nat_alt)
    next
      case False
      then have "unat (size_t_of_int index) = nat (index + 2 ^ 64)"
        using assms(2) by (intro unat_size_t_of_int_neg) (simp_all add: in_int_range_def)
      with False n n64 assms(2) show ?thesis by (simp add: word_less_nat_alt in_int_range_def)
    qed
    show ?thesis
      using gt len n(2) assms(1) ok_size_le [OF assms(1)] ok_cell [OF assms(1), of "nat index"]
      by (auto simp: DArray_At_def darray_ok_def read_int_index_def cell_value_def
          simp flip: length_greater_0_conv)
  qed
qed

theorem DArray_At_range_witness:
  "DArray_At \<lparr>da_null = False, da_buffer = [Some (Fin 12), Some (Fin 8)], da_kind = Malloc,
      da_buf_size = 2, da_actual_size = 2, da_released = []\<rparr> (- 1) = Inl (Throw ''out of range'') \<and>
    DArray_At (DArray_ctor 64) 0 = Inr (Fin 0)"
proof -
  let ?d = "\<lparr>da_null = False, da_buffer = [Some (Fin 12), Some (Fin 8)], da_kind = Malloc,
      da_buf_size = 2, da_actual_size = 2, da_released = []\<rparr>"
  have "darray_ok ?d" by (simp add: darray_ok_def)
  moreover have "darray_ok (DArray_ctor 64)" "darray_list (DArray_ctor 64) = []"
    by (simp_all add: DArray_ctor_ok)
  ultimately show ?thesis
    using DArray_At_range [of ?d "- 1"] DArray_At_range [of "DArray_ctor 64" 0]
    by (simp add: in_int_range_def darray_list_def read_int_index_def DArray_ctor_def cell_value_def)
qed

text \<open>
  an array that grew once releases its blocks with the wrong functions: \<open>Reallocate\<close>
  gives the block of \<open>malloc\<close> to \<open>delete[]\<close>, and the destructor gives the block of \<open>new[]\<close>
  to \<open>free\<close>; an array that never grew is released correctly.
\<close>

theorem DArray_release_kinds:
  assumes "darray_ok d" and "growable d" and "da_kind d = Malloc" and "da_released d = []"
    and "DArray_PushBack d v = Inr d'"
  shows "da_released (DArray_dtor d') =
    (if DArray_Size d = DArray_Capacity d
     then [HeapRelease DeleteArray Malloc, HeapRelease Free NewArray]
     else [HeapRelease Free Malloc])"
proof (cases "da_actual_size d = da_buf_size d")
  case True
  with assms(2) have "da_buf_size d \<noteq> 0" "unat (da_buf_size d) * 16 \<le> PTRDIFF_MAX"
    by (auto simp: growable_def)
  from DArray_Reallocate_ok [OF assms(1) this] obtain d1 where
    "DArray_Reallocate d = Inr d1" "da_kind d1 = NewArray"
    "da_released d1 = [HeapRelease DeleteArray Malloc]"
    using assms(3,4) by auto
  with True assms(5) show ?thesis
    by (auto simp: DArray_PushBack_def DArray_set_def bindE_eq_Inr_iff DArray_dtor_def
        DArray_DtorHelper_def DArray_Size_def DArray_Capacity_def split: if_splits)
next
  case False
  with assms(3-5) show ?thesis
    by (auto simp: DArray_PushBack_def DArray_set_def bindE_eq_Inr_iff DArray_dtor_def
        DArray_DtorHelper_def DArray_Size_def DArray_Capacity_def split: if_splits)
qed

theorem DArray_release_kinds_witness:
  "\<exists>d'. DArray_PushBack \<lparr>da_null = False, da_buffer = [Some (Fin 5)], da_kind = Malloc,
      da_buf_size = 1, da_actual_size = 1, da_released = []\<rparr> (Fin 7) = Inr d' \<and>
    \<not> list_all release_matches (da_released (DArray_dtor d'))"
proof -
  let ?d = "\<lparr>da_null = False, da_buffer = [Some (Fin 5)], da_kind = Malloc,
      da_buf_size = 1, da_actual_size = 1, da_released = []\<rparr>"
  have ok: "darray_ok ?d" "growable ?d" by (simp_all add: darray_ok_def growable_def)
  from DArray_PushBack_ok [OF this, of "Fin 7"] obtain d' where
    d': "DArray_PushBack ?d (Fin 7) = Inr d'" by auto
  from DArray_release_kinds [OF ok _ _ d'] d' show ?thesis
    by (simp add: DArray_Size_def DArray_Capacity_def)
qed

text \<open>
  a zero capacity stays zero when doubled, so the first \<open>PushBack\<close> on \<open>DArray(0)\<close>
  writes outside the block.
\<close>

theorem DArray_zero_capacity_PushBack:
  "DArray_PushBack (DArray_ctor 0) v = Inl (Undefined OutOfBoundsWrite)"
  by (simp add: DArray_PushBack_def DArray_ctor_def DArray_Reallocate_def new_array_def
      memcpy_cells_def DArray_set_def Let_def)

text \<open>\<open>Display\<close> of a well-formed array prints its elements in order, tab separated.\<close>

theorem DArray_Display_prints:
  assumes "darray_ok d"
  shows "DArray_Display d =
    Inr (concat (map (\<lambda>v. [CDbl v, CStr tab]) (darray_list d)) @ [CEndl])"
  using DArray_Display_loop_ok [OF assms, of 0] by (simp add: DArray_Display_def)

theorem DArray_Display_prints_witness:
  "DArray_Display \<lparr>da_null = False, da_buffer = [Some (Fin 12), Some (Fin 8)], da_kind = Malloc,
      da_buf_size = 2, da_actual_size = 1, da_released = []\<rparr> = Inr [CDbl (Fin 12), CStr tab, CEndl]"
proof -
  let ?d = "\<lparr>da_null = False, da_buffer = [Some (Fin 12), Some (Fin 8)], da_kind = Malloc,
      da_buf_size = 2, da_actual_size = 1, da_released = []\<rparr>"
  have "darray_ok ?d" by (simp add: darray_ok_def)
  from DArray_Display_prints [OF this] show ?thesis by (simp add: darray_list_def)
qed

end
