(* ===== verification/Heap_List.thy ===== *)
theory Heap_List
  imports Cpp_Prelude
begin

text \<open>
  The reference algorithms of \<open>heap::SiftDown\<close>, \<open>SiftUp\<close> and \<open>MakeHeap\<close> on a list with
  natural-number indices and a linear order, and their correctness. The theory \<open>Heap\<close> shows
  that the C++ functions on a \<open>DArray\<close> with \<open>size_t\<close> indices compute these.
\<close>

section \<open>Indices and the heap property\<close>

definition parent :: "nat \<Rightarrow> nat" where
  "parent c = (c - 1) div 2"

lemma parent_less: "0 < c \<Longrightarrow> parent c < c"
  by (simp add: parent_def)

lemma parent_child [simp]: "parent (2 * i + 1) = i" "parent (2 * i + 2) = i"
  by (simp_all add: parent_def)

lemma parent_eq_iff: "0 < c \<Longrightarrow> parent c = i \<longleftrightarrow> c = 2 * i + 1 \<or> c = 2 * i + 2"
  by (auto simp: parent_def)

text \<open>\<open>heap_from k xs\<close>: every position with its parent at \<open>k\<close> or later is below its parent.\<close>

definition heap_from :: "nat \<Rightarrow> 'a :: linorder list \<Rightarrow> bool" where
  "heap_from k xs \<longleftrightarrow>
     (\<forall>c. 0 < c \<longrightarrow> c < length xs \<longrightarrow> k \<le> parent c \<longrightarrow> xs ! c \<le> xs ! parent c)"

abbreviation is_heap :: "'a :: linorder list \<Rightarrow> bool" where
  "is_heap \<equiv> heap_from 0"

lemma is_heap_max:
  assumes "is_heap xs" "i < length xs"
  shows "xs ! i \<le> xs ! 0"
  using assms(2)
proof (induction i rule: less_induct)
  case (less i)
  show ?case
  proof (cases "i = 0")
    case False
    then have "parent i < i" by (simp add: parent_less)
    with less have "xs ! parent i \<le> xs ! 0" by simp
    moreover have "xs ! i \<le> xs ! parent i" using assms(1) less.prems False by (simp add: heap_from_def)
    ultimately show ?thesis by simp
  qed simp
qed

lemma is_heap_hd_Max: "is_heap xs \<Longrightarrow> x \<in> set xs \<Longrightarrow> x \<le> xs ! 0"
  by (metis in_set_conv_nth is_heap_max)

lemma heap_from_half: "heap_from (length xs div 2) xs"
  by (auto simp: heap_from_def parent_def)

lemma is_heap_butlast: "is_heap xs \<Longrightarrow> is_heap (butlast xs)"
  by (auto simp: heap_from_def nth_butlast parent_def)

section \<open>Swapping\<close>

definition exch :: "'a list \<Rightarrow> nat \<Rightarrow> nat \<Rightarrow> 'a list" where
  "exch xs i j = xs[i := xs ! j, j := xs ! i]"

lemma length_swap [simp]: "length (exch xs i j) = length xs"
  by (simp add: exch_def)

lemma mset_swap_list: "i < length xs \<Longrightarrow> j < length xs \<Longrightarrow> mset (exch xs i j) = mset xs"
  by (simp add: exch_def mset_swap)

lemma nth_swap:
  "i < length xs \<Longrightarrow> j < length xs \<Longrightarrow> k < length xs \<Longrightarrow>
    exch xs i j ! k = (if k = i then xs ! j else if k = j then xs ! i else xs ! k)"
  by (auto simp: exch_def nth_list_update)

section \<open>Sifting down\<close>

definition largest_child :: "'a :: linorder list \<Rightarrow> nat \<Rightarrow> nat" where
  "largest_child xs i =
     (let l = (if 2 * i + 1 < length xs \<and> xs ! (2 * i + 1) > xs ! i then 2 * i + 1 else i)
      in if 2 * i + 2 < length xs \<and> xs ! (2 * i + 2) > xs ! l then 2 * i + 2 else l)"

lemma largest_child_cases:
  assumes "largest_child xs i \<noteq> i"
  shows "i < largest_child xs i" "largest_child xs i < length xs"
    "parent (largest_child xs i) = i" "xs ! i < xs ! largest_child xs i"
  using assms by (auto simp: largest_child_def Let_def parent_def split: if_splits)

lemma largest_child_max:
  assumes "0 < c" "c < length xs" "parent c = i"
  shows "xs ! c \<le> xs ! largest_child xs i"
  using assms by (auto simp: parent_eq_iff largest_child_def Let_def not_less)

function sift_down :: "'a :: linorder list \<Rightarrow> nat \<Rightarrow> 'a list" where
  "sift_down xs i =
     (let m = largest_child xs i in if m \<noteq> i then sift_down (exch xs i m) m else xs)"
  by pat_completeness auto
termination
  by (relation "measure (\<lambda>(xs, i). length xs - i)")
    (auto intro!: diff_less_mono2 dest: largest_child_cases less_trans)

declare sift_down.simps [simp del]

text \<open>
  The invariant of the descent: the heap property holds from \<open>k\<close> except below \<open>i\<close>, and the
  children of \<open>i\<close> are below the parent of \<open>i\<close>.
\<close>

definition heap_except :: "nat \<Rightarrow> nat \<Rightarrow> 'a :: linorder list \<Rightarrow> bool" where
  "heap_except k i xs \<longleftrightarrow>
     (\<forall>c. 0 < c \<longrightarrow> c < length xs \<longrightarrow> k \<le> parent c \<longrightarrow> parent c \<noteq> i \<longrightarrow> xs ! c \<le> xs ! parent c) \<and>
     (\<forall>c. 0 < c \<longrightarrow> c < length xs \<longrightarrow> parent c = i \<longrightarrow> 0 < i \<longrightarrow> k \<le> parent i \<longrightarrow>
        xs ! c \<le> xs ! parent i)"

lemma heap_except_swap:
  assumes ex: "heap_except k i xs" and ki: "k \<le> i" and m: "m = largest_child xs i" "m \<noteq> i"
  shows "heap_except k m (exch xs i m)"
proof -
  have lc: "i < m" "m < length xs" "parent m = i" "xs ! i < xs ! m"
    using m largest_child_cases [of xs i] by auto
  have sw: "exch xs i m ! c = (if c = i then xs ! m else if c = m then xs ! i else xs ! c)"
    if "c < length xs" for c using that lc by (simp add: nth_swap)
  have 1: "exch xs i m ! c \<le> exch xs i m ! parent c"
    if c: "0 < c" "c < length xs" "k \<le> parent c" "parent c \<noteq> m" for c
  proof -
    have pc: "parent c < length xs" using c(1,2) parent_less [of c] by simp
    consider "c = i" | "c = m" | "c \<noteq> i" "c \<noteq> m" "parent c = i" | "c \<noteq> i" "c \<noteq> m" "parent c \<noteq> i"
      by blast
    then show ?thesis
    proof cases
      case 1
      with c lc have "xs ! m \<le> xs ! parent i" using ex by (auto simp: heap_except_def)
      with 1 c pc lc show ?thesis using parent_less [of c] by (simp add: sw)
    next
      case 2
      with c lc pc show ?thesis by (simp add: sw)
    next
      case 3
      have "xs ! c \<le> xs ! m" unfolding m(1) using c 3 by (intro largest_child_max)
      with 3 c lc pc show ?thesis by (simp add: sw)
    next
      case 4
      with c pc ex show ?thesis by (simp add: sw heap_except_def)
    qed
  qed
  have 2: "exch xs i m ! c \<le> exch xs i m ! parent m"
    if c: "0 < c" "c < length xs" "parent c = m" for c
  proof -
    have "c \<noteq> i" "c \<noteq> m" using c parent_less [of c] lc by auto
    moreover have "xs ! c \<le> xs ! m" using ex c lc ki by (auto simp: heap_except_def)
    ultimately show ?thesis using c lc by (simp add: sw)
  qed
  show ?thesis using 1 2 by (simp add: heap_except_def)
qed

lemma heap_except_done:
  assumes "heap_except k i xs" "largest_child xs i = i"
  shows "heap_from k xs"
  using assms largest_child_max [of _ xs i] by (auto simp: heap_except_def heap_from_def)

lemma sift_down_heap: "heap_except k i xs \<Longrightarrow> k \<le> i \<Longrightarrow> heap_from k (sift_down xs i)"
proof (induction xs i rule: sift_down.induct)
  case (1 xs i)
  define m where "m = largest_child xs i"
  show ?case
  proof (cases "m = i")
    case True
    with "1.prems" show ?thesis
      by (simp add: sift_down.simps [of xs i] Let_def heap_except_done flip: m_def)
  next
    case False
    have "heap_except k m (exch xs i m)" using "1.prems" False m_def by (intro heap_except_swap)
    moreover have "k \<le> m" using False m_def largest_child_cases(1) [of xs i] "1.prems"(2) by simp
    ultimately have "heap_from k (sift_down (exch xs i m) m)"
      using "1.IH" [OF m_def] False by simp
    with False show ?thesis by (simp add: sift_down.simps [of xs i] Let_def flip: m_def)
  qed
qed

lemma sift_down_mset [simp]: "mset (sift_down xs i) = mset xs"
proof (induction xs i rule: sift_down.induct)
  case (1 xs i)
  show ?case
  proof (cases "largest_child xs i = i")
    case False
    with largest_child_cases [of xs i] have "mset (exch xs i (largest_child xs i)) = mset xs"
      by (intro mset_swap_list) auto
    with 1 False show ?thesis by (simp add: sift_down.simps [of xs i] Let_def)
  qed (simp add: sift_down.simps [of xs i] Let_def)
qed

lemma sift_down_length [simp]: "length (sift_down xs i) = length xs"
  by (metis sift_down_mset size_mset)

section \<open>Sifting up\<close>

function sift_up :: "'a :: linorder list \<Rightarrow> nat \<Rightarrow> 'a list" where
  "sift_up xs i =
     (if 0 < i then (if xs ! i \<le> xs ! parent i then xs else sift_up (exch xs i (parent i)) (parent i))
      else xs)"
  by pat_completeness auto
termination
  by (relation "measure snd") (auto simp: parent_less)

declare sift_up.simps [simp del]

definition heap_above :: "nat \<Rightarrow> 'a :: linorder list \<Rightarrow> bool" where
  "heap_above i xs \<longleftrightarrow>
     (\<forall>c. 0 < c \<longrightarrow> c < length xs \<longrightarrow> c \<noteq> i \<longrightarrow> xs ! c \<le> xs ! parent c) \<and>
     (\<forall>c. 0 < c \<longrightarrow> c < length xs \<longrightarrow> parent c = i \<longrightarrow> 0 < i \<longrightarrow> xs ! c \<le> xs ! parent i)"

lemma heap_above_swap:
  assumes ab: "heap_above i xs" and i: "0 < i" "i < length xs" and gt: "\<not> xs ! i \<le> xs ! parent i"
  shows "heap_above (parent i) (exch xs i (parent i))"
proof -
  define p where "p = parent i"
  have p: "p < i" "parent i = p" "\<not> xs ! i \<le> xs ! p" using i parent_less gt p_def by simp_all
  have sw: "exch xs i p ! c = (if c = i then xs ! p else if c = p then xs ! i else xs ! c)"
    if "c < length xs" for c using that i p by (simp add: nth_swap)
  have up: "xs ! c \<le> xs ! parent c" if "0 < c" "c < length xs" "c \<noteq> i" for c
    using ab that by (simp add: heap_above_def)
  have ch: "xs ! c \<le> xs ! p" if "0 < c" "c < length xs" "parent c = i" for c
    using ab that i by (simp add: heap_above_def p_def)
  have 1: "exch xs i p ! c \<le> exch xs i p ! parent c" if c: "0 < c" "c < length xs" "c \<noteq> p" for c
  proof -
    have pc: "parent c < c" using c(1) by (rule parent_less)
    consider "c = i" | "c \<noteq> i" "parent c = i" | "c \<noteq> i" "parent c = p" | "c \<noteq> i" "parent c \<noteq> i" "parent c \<noteq> p"
      by blast
    then show ?thesis
      using c pc p i up [of c] ch [of c] by cases (auto simp: sw)
  qed
  have 2: "exch xs i p ! c \<le> exch xs i p ! parent p"
    if c: "0 < c" "c < length xs" "parent c = p" "0 < p" for c
  proof -
    have "parent p < p" using c(4) by (rule parent_less)
    moreover have "xs ! p \<le> xs ! parent p" using up [of p] c p i by simp
    moreover have "c \<noteq> p" using c parent_less [of c] by auto
    moreover have "c \<noteq> i \<Longrightarrow> xs ! c \<le> xs ! p" using up [of c] c by simp
    ultimately show ?thesis using c p i by (auto simp: sw)
  qed
  show ?thesis using 1 2 by (simp add: heap_above_def p_def)
qed

lemma sift_up_heap: "heap_above i xs \<Longrightarrow> i < length xs \<Longrightarrow> is_heap (sift_up xs i)"
proof (induction xs i rule: sift_up.induct)
  case (1 xs i)
  show ?case
  proof (cases "0 < i \<and> \<not> xs ! i \<le> xs ! parent i")
    case True
    with heap_above_swap [of i xs] "1.prems" "1.IH" parent_less [of i] show ?thesis
      by (simp add: sift_up.simps [of xs i])
  next
    case False
    with "1.prems" show ?thesis
      by (auto simp: sift_up.simps [of xs i] heap_above_def heap_from_def)
  qed
qed

lemma sift_up_mset [simp]: "i < length xs \<Longrightarrow> mset (sift_up xs i) = mset xs"
proof (induction xs i rule: sift_up.induct)
  case (1 xs i)
  with parent_less [of i] show ?case
    by (auto simp: sift_up.simps [of xs i] mset_swap_list)
qed

section \<open>Building a heap\<close>

fun make_heap_from :: "'a :: linorder list \<Rightarrow> nat \<Rightarrow> 'a list" where
  "make_heap_from xs 0 = xs"
| "make_heap_from xs (Suc i) = make_heap_from (sift_down xs i) i"

lemma heap_from_Suc_except: "heap_from (Suc i) xs \<Longrightarrow> heap_except i i xs"
  using parent_less [of i] by (fastforce simp: heap_from_def heap_except_def)

lemma make_heap_from_heap: "heap_from k xs \<Longrightarrow> is_heap (make_heap_from xs k)"
  by (induction k arbitrary: xs) (simp_all add: heap_from_Suc_except sift_down_heap)

lemma make_heap_from_mset [simp]: "mset (make_heap_from xs k) = mset xs"
  by (induction k arbitrary: xs) simp_all

text \<open>Appending a value, and moving the last value to the root, give the two start states.\<close>

lemma heap_above_snoc: "is_heap xs \<Longrightarrow> heap_above (length xs) (xs @ [v])"
  by (auto simp: heap_above_def heap_from_def nth_append parent_def)

lemma heap_except_root: "is_heap xs \<Longrightarrow> heap_except 0 0 (xs[0 := v])"
  by (auto simp: heap_except_def heap_from_def nth_list_update)

section \<open>The priority queue interface\<close>

text \<open>\<open>n\<close> calls of an extraction, the values in the order they came out.\<close>

fun drain :: "('q \<Rightarrow> (cpp_error + 'v \<times> 'q) option) \<Rightarrow> nat \<Rightarrow> 'q \<Rightarrow> 'v list option" where
  "drain take_max 0 q = Some []"
| "drain take_max (Suc n) q =
     (case take_max q of
        Some (Inr (v, q')) \<Rightarrow> map_option (Cons v) (drain take_max n q')
      | _ \<Rightarrow> None)"

text \<open>
  What a client of a max-priority queue relies on: insertion adds to the bag of values, and
  extraction returns (in particular, terminates with) a greatest value and removes it.
\<close>

locale max_queue =
  fixes insert :: "'q \<Rightarrow> 'v :: linorder \<Rightarrow> cpp_error + 'q"
    and take_max :: "'q \<Rightarrow> (cpp_error + 'v \<times> 'q) option"
    and bag :: "'q \<Rightarrow> 'v multiset"
    and ok :: "'q \<Rightarrow> bool"
    and accepts :: "'q \<Rightarrow> 'v \<Rightarrow> bool"
    and hollow :: cpp_error
  assumes insert_bag: "ok q \<Longrightarrow> accepts q v \<Longrightarrow>
      \<exists>q'. insert q v = Inr q' \<and> ok q' \<and> bag q' = add_mset v (bag q)"
    and extract_some: "ok q \<Longrightarrow> bag q \<noteq> {#} \<Longrightarrow>
      \<exists>q'. take_max q = Some (Inr (Max_mset (bag q), q')) \<and> ok q' \<and>
        bag q' = bag q - {#Max_mset (bag q)#}"
    and extract_none: "ok q \<Longrightarrow> bag q = {#} \<Longrightarrow> take_max q = Some (Inl hollow)"
begin

lemma extracted_is_greatest:
  assumes "ok q" "take_max q = Some (Inr (v, q'))"
  shows "v \<in># bag q \<and> (\<forall>w. w \<in># bag q \<longrightarrow> w \<le> v)"
proof -
  have "bag q \<noteq> {#}" using extract_none [OF assms(1)] assms(2) by auto
  with extract_some [OF assms(1)] assms(2) show ?thesis by auto
qed

lemma drain_sorted:
  assumes "ok q"
  shows "\<exists>ys. drain take_max (size (bag q)) q = Some ys \<and> mset ys = bag q \<and> sorted (rev ys)"
  using assms
proof (induction "size (bag q)" arbitrary: q)
  case 0
  then have "bag q = {#}" by (metis size_eq_0_iff_empty)
  then show ?case by simp
next
  case (Suc n)
  then have ne: "bag q \<noteq> {#}" by auto
  let ?m = "Max_mset (bag q)"
  from extract_some [OF Suc.prems ne] obtain q' where
    q': "take_max q = Some (Inr (?m, q'))" "ok q'" "bag q' = bag q - {#?m#}" by auto
  have m: "?m \<in># bag q" using ne by simp
  then have "n = size (bag q')" using Suc.hyps(2) q'(3) by (simp add: size_Diff_singleton)
  from Suc.hyps(1) [OF this q'(2)] obtain ys where
    ys: "drain take_max (size (bag q')) q' = Some ys" "mset ys = bag q'" "sorted (rev ys)" by auto
  have "y \<le> ?m" if "y \<in> set ys" for y
    using that ys(2) q'(3) by (metis Max_ge finite_set_mset in_diffD set_mset_mset)
  with ys m q' \<open>n = size (bag q')\<close> show ?case
    by (auto simp: sorted_append simp flip: Suc.hyps(2))
qed

end

end
