(* ===== verification/Heap.thy ===== *)
theory Heap
  imports DArray Heap_List
begin

text \<open>
  The namespace \<open>heap\<close> of \<open>cmake_make_gtest_cppunit/Heap.h\<close> and \<open>Heap.cpp\<close>: a binary max-heap
  kept in a \<open>DArray\<close>. The functions below use the array's operations with \<open>size_t\<close> indices
  that wrap, and the C++ comparisons of \<open>double\<close>. \<open>SiftDown\<close> recurses on an index computed
  modulo \<open>2^64\<close>, so its termination is a theorem: the model is a partial function into
  \<open>option\<close>, where \<open>None\<close> would be "does not return". For arrays of numbers the operations
  refine the list algorithms of \<open>Heap_List\<close>.
\<close>

section \<open>Operations\<close>

text \<open>\<open>if (cand < arr.Size() && arr[cand] > arr[best]) best = cand;\<close>\<close>

definition heap_pick :: "darray \<Rightarrow> size_t \<Rightarrow> size_t \<Rightarrow> cpp_error + size_t" where
  "heap_pick arr cand best =
     (if cand < DArray_Size arr then
        bindE (DArray_get arr cand) (\<lambda>x. bindE (DArray_get arr best) (\<lambda>y.
          Inr (if dbl_gt x y then cand else best)))
      else Inr best)"

text \<open>\<open>std::swap(arr[i], arr[j])\<close>\<close>

definition heap_swap :: "darray \<Rightarrow> size_t \<Rightarrow> size_t \<Rightarrow> cpp_error + darray" where
  "heap_swap arr i j =
     bindE (DArray_get arr i) (\<lambda>x. bindE (DArray_get arr j) (\<lambda>y.
       bindE (DArray_set arr i y) (\<lambda>d1. DArray_set d1 j x)))"

partial_function (option) Heap_SiftDown :: "darray \<Rightarrow> size_t \<Rightarrow> (cpp_error + darray) option" where
  "Heap_SiftDown arr i =
     (case bindE (heap_pick arr (2 * i + 1) i) (\<lambda>l. heap_pick arr (2 * i + 2) l) of
        Inl e \<Rightarrow> Some (Inl e)
      | Inr largest \<Rightarrow>
          (if largest \<noteq> i then
             (case heap_swap arr i largest of
                Inl e \<Rightarrow> Some (Inl e)
              | Inr arr' \<Rightarrow> Heap_SiftDown arr' largest)
           else Some (Inr arr)))"

function Heap_SiftUp :: "darray \<Rightarrow> size_t \<Rightarrow> cpp_error + darray" where
  "Heap_SiftUp arr i =
     (if 0 < i then
        let parent = (i - 1) div 2 in
        bindE (DArray_get arr i) (\<lambda>x. bindE (DArray_get arr parent) (\<lambda>y.
          if dbl_le x y then Inr arr
          else bindE (heap_swap arr i parent) (\<lambda>arr'. Heap_SiftUp arr' parent)))
      else Inr arr)"
  by pat_completeness auto

lemma size_t_parent_less: "0 < (i :: size_t) \<Longrightarrow> unat ((i - 1) div 2) < unat i"
proof -
  assume i: "0 < i"
  then have "unat (i - 1) = unat i - 1" "0 < unat i"
    by (simp_all add: unat_minus1_pred_size_t word_gt_0 unat_gt_0)
  then show ?thesis by (simp add: unat_div_distrib)
qed

termination Heap_SiftUp
  by (relation "measure (\<lambda>(arr, i). unat i)") (auto intro: size_t_parent_less)

declare Heap_SiftUp.simps [simp del]

text \<open>\<open>int i = arr.Size() / 2 - 1\<close>: the \<open>size_t\<close> result is converted to a 32-bit \<open>int\<close>.\<close>

definition int_of_size_t :: "size_t \<Rightarrow> int" where
  "int_of_size_t w = signed_take_bit 31 (uint w)"

function Heap_MakeHeap_loop :: "darray \<Rightarrow> int \<Rightarrow> (cpp_error + darray) option" where
  "Heap_MakeHeap_loop arr i =
     (if 0 \<le> i then
        (case Heap_SiftDown arr (size_t_of_int i) of
           None \<Rightarrow> None
         | Some (Inl e) \<Rightarrow> Some (Inl e)
         | Some (Inr arr') \<Rightarrow> Heap_MakeHeap_loop arr' (i - 1))
      else Some (Inr arr))"
  by pat_completeness auto
termination
  by (relation "measure (\<lambda>(arr, i). nat (i + 1))") auto

declare Heap_MakeHeap_loop.simps [simp del]

definition Heap_MakeHeap :: "darray \<Rightarrow> (cpp_error + darray) option" where
  "Heap_MakeHeap arr = Heap_MakeHeap_loop arr (int_of_size_t (DArray_Size arr div 2 - 1))"

definition Heap_Add :: "darray \<Rightarrow> double \<Rightarrow> cpp_error + darray" where
  "Heap_Add arr element =
     bindE (DArray_PushBack arr element) (\<lambda>arr1. Heap_SiftUp arr1 (DArray_Size arr1 - 1))"

definition Heap_ExtractMax :: "darray \<Rightarrow> (cpp_error + double \<times> darray) option" where
  "Heap_ExtractMax arr =
     (if DArray_IsEmpty arr then Some (Inl (Throw ''head is empty''))
      else case bindE (DArray_get arr 0) (\<lambda>res.
             bindE (DArray_PopBack arr) (\<lambda>(last, arr1).
               bindE (DArray_set arr1 0 last) (\<lambda>arr2. Inr (res, arr2)))) of
          Inl e \<Rightarrow> Some (Inl e)
        | Inr (res, arr2) \<Rightarrow>
            (if \<not> DArray_IsEmpty arr2 then
               map_option (\<lambda>r. bindE r (\<lambda>arr3. Inr (res, arr3))) (Heap_SiftDown arr2 0)
             else Some (Inr (res, arr2))))"

definition Heap_HeapMaximum :: "darray \<Rightarrow> cpp_error + double" where
  "Heap_HeapMaximum arr =
     (if DArray_IsEmpty arr then Inl (Throw ''head is empty'') else DArray_get arr 0)"

section \<open>Refinement of the list algorithms\<close>

definition no_nan :: "double list \<Rightarrow> bool" where
  "no_nan xs \<longleftrightarrow> NaN \<notin> set xs"

lemma no_nan_nth: "no_nan xs \<Longrightarrow> i < length xs \<Longrightarrow> xs ! i \<noteq> NaN"
  unfolding no_nan_def by (metis nth_mem)

lemma no_nan_mset: "mset xs = mset ys \<Longrightarrow> no_nan xs = no_nan ys"
  unfolding no_nan_def by (metis set_mset_mset)

text \<open>\<open>num_array d xs\<close>: a well-formed array that holds the numbers \<open>xs\<close>.\<close>

definition num_array :: "darray \<Rightarrow> double list \<Rightarrow> bool" where
  "num_array d xs \<longleftrightarrow> darray_ok d \<and> darray_list d = xs \<and> no_nan xs"

lemma num_array_length: "num_array d xs \<Longrightarrow> length xs = unat (DArray_Size d)"
  by (auto simp: num_array_def)

lemma num_array_small: "num_array d xs \<Longrightarrow> length xs < 2 ^ 61"
  using ok_size_le [of d] by (auto simp: num_array_def darray_ok_def DArray_Size_def)

lemma child_index:
  assumes "unat (i :: size_t) < 2 ^ 61"
  shows "unat (2 * i + 1) = 2 * unat i + 1" "unat (2 * i + 2) = 2 * unat i + 2"
proof -
  have m: "unat (2 * i) = 2 * unat i"
    using assms by (subst unat_mult_lem [THEN iffD1]) simp_all
  show "unat (2 * i + 1) = 2 * unat i + 1" "unat (2 * i + 2) = 2 * unat i + 2"
    using assms by (subst unat_add_lem [THEN iffD1]; simp add: m)+
qed

lemma heap_pick_num:
  assumes d: "num_array d xs" and b: "unat best < length xs"
  shows "heap_pick d cand best =
    Inr (if unat cand < length xs \<and> xs ! unat cand > xs ! unat best then cand else best)"
proof (cases "unat cand < length xs")
  case True
  have "DArray_get d cand = Inr (xs ! unat cand)" "DArray_get d best = Inr (xs ! unat best)"
    using d b True num_array_length [OF d]
    by (auto simp: num_array_def DArray_get_ok word_less_nat_alt)
  moreover have "dbl_gt (xs ! unat cand) (xs ! unat best) \<longleftrightarrow> xs ! unat best < xs ! unat cand"
    using d b True by (intro dbl_gt_number no_nan_nth) (auto simp: num_array_def)
  ultimately show ?thesis
    using True num_array_length [OF d] by (simp add: heap_pick_def word_less_nat_alt)
next
  case False
  then show ?thesis using num_array_length [OF d] by (simp add: heap_pick_def word_less_nat_alt)
qed

lemma heap_swap_num:
  assumes d: "num_array d xs" and i: "unat i < length xs" and j: "unat j < length xs"
  shows "\<exists>d'. heap_swap d i j = Inr d' \<and> num_array d' (exch xs (unat i) (unat j))"
proof -
  have "i < DArray_Size d" "j < DArray_Size d"
    using i j num_array_length [OF d] by (simp_all add: word_less_nat_alt)
  moreover have "darray_ok d" "darray_list d = xs" using d by (simp_all add: num_array_def)
  ultimately obtain d' where
    "heap_swap d i j = Inr d'" "darray_ok d'" "darray_list d' = exch xs (unat i) (unat j)"
    using darray_array.swap_in [of d i j] unfolding heap_swap_def exch_def by metis
  moreover have "no_nan (exch xs (unat i) (unat j))"
    using no_nan_mset [OF mset_swap_list [OF i j]] d by (simp add: num_array_def)
  ultimately show ?thesis by (auto simp: num_array_def)
qed

lemma heap_largest_num:
  assumes d: "num_array d xs" and i: "unat i < length xs"
  shows "\<exists>m. bindE (heap_pick d (2 * i + 1) i) (\<lambda>l. heap_pick d (2 * i + 2) l) = Inr m \<and>
    unat m = largest_child xs (unat i)"
proof -
  have "unat i < 2 ^ 61" using i num_array_small [OF d] by simp
  note c = child_index [OF this]
  define l where "l = (if 2 * unat i + 1 < length xs \<and> xs ! (2 * unat i + 1) > xs ! unat i
    then 2 * i + 1 else i)"
  have "heap_pick d (2 * i + 1) i = Inr l" using heap_pick_num [OF d i] by (simp add: c l_def)
  moreover have "unat l < length xs" using i by (simp add: l_def c)
  ultimately show ?thesis
    using heap_pick_num [OF d, of l "2 * i + 2"]
    by (auto simp: c largest_child_def Let_def l_def split: if_splits)
qed

lemma Heap_SiftDown_num:
  assumes "num_array d xs" and "unat i < length xs"
  shows "\<exists>d'. Heap_SiftDown d i = Some (Inr d') \<and> num_array d' (sift_down xs (unat i))"
  using assms
proof (induction xs "unat i" arbitrary: d i rule: sift_down.induct)
  case (1 xs)
  obtain m where m: "bindE (heap_pick d (2 * i + 1) i) (\<lambda>l. heap_pick d (2 * i + 2) l) = Inr m"
    "unat m = largest_child xs (unat i)"
    using heap_largest_num [OF 1(2,3)] by auto
  show ?case
  proof (cases "m = i")
    case True
    with m 1(2) show ?thesis
      by (auto simp: Heap_SiftDown.simps [of d i] sift_down.simps [of xs "unat i"] Let_def)
  next
    case False
    then have ne: "largest_child xs (unat i) \<noteq> unat i" using m(2) by (simp add: word_unat_eq_iff)
    then have ml: "unat m < length xs" using m(2) largest_child_cases(2) by metis
    then obtain d1 where d1: "heap_swap d i m = Inr d1"
      "num_array d1 (exch xs (unat i) (unat m))"
      using heap_swap_num [OF 1(2,3), of m] by auto
    have "\<exists>d'. Heap_SiftDown d1 m = Some (Inr d') \<and>
        num_array d' (sift_down (exch xs (unat i) (unat m)) (unat m))"
      using 1(1) [OF m(2) _ d1(2)] ne ml m(2) by simp
    with False m d1 ne show ?thesis
      by (auto simp: Heap_SiftDown.simps [of d i] sift_down.simps [of xs "unat i"] Let_def)
  qed
qed

lemma Heap_SiftUp_num:
  assumes "num_array d xs" and "unat i < length xs"
  shows "\<exists>d'. Heap_SiftUp d i = Inr d' \<and> num_array d' (sift_up xs (unat i))"
  using assms
proof (induction xs "unat i" arbitrary: d i rule: sift_up.induct)
  case (1 xs)
  show ?case
  proof (cases "0 < i")
    case False
    then have "i = 0" by (simp add: word_gt_0)
    with 1(2) show ?thesis
      by (auto simp: Heap_SiftUp.simps [of d 0] sift_up.simps [of xs 0])
  next
    case True
    define p where "p = (i - 1) div 2"
    have ui: "0 < unat i" using True by (simp add: word_less_nat_alt)
    have p: "unat p = parent (unat i)"
      using True by (simp add: p_def parent_def unat_div_distrib unat_minus1_pred_size_t word_gt_0)
    then have pl: "unat p < length xs" using parent_less [OF ui] 1(3) by simp
    have g: "DArray_get d i = Inr (xs ! unat i)" "DArray_get d p = Inr (xs ! unat p)"
      using 1(2,3) pl num_array_length [OF 1(2)]
      by (auto simp: num_array_def DArray_get_ok word_less_nat_alt)
    have le: "dbl_le (xs ! unat i) (xs ! unat p) \<longleftrightarrow> xs ! unat i \<le> xs ! unat p"
      using 1(2,3) pl by (intro dbl_le_number no_nan_nth) (auto simp: num_array_def)
    obtain d1 where d1: "heap_swap d i p = Inr d1" "num_array d1 (exch xs (unat i) (unat p))"
      using heap_swap_num [OF 1(2,3) pl] by auto
    show ?thesis
    proof (cases "xs ! unat i \<le> xs ! unat p")
      case le': True
      with True 1(2) g le ui p show ?thesis
        by (auto simp: Heap_SiftUp.simps [of d i] sift_up.simps [of xs "unat i"] Let_def simp flip: p_def)
    next
      case nle: False
      then have "\<exists>d'. Heap_SiftUp d1 p = Inr d' \<and>
          num_array d' (sift_up (exch xs (unat i) (unat p)) (unat p))"
        using 1(1) [OF ui _ p [symmetric], of d1] d1(2) pl p by simp
      with nle True g le d1 ui p show ?thesis
        by (auto simp: Heap_SiftUp.simps [of d i] sift_up.simps [of xs "unat i"] Let_def simp flip: p_def)
    qed
  qed
qed

lemma num_array_perm: "num_array d xs \<Longrightarrow> darray_ok d \<and> darray_list d = xs"
  by (simp add: num_array_def)

lemma Heap_MakeHeap_loop_num:
  assumes "num_array d xs" "k \<le> length xs" "k \<le> nat INT_MAX"
  shows "\<exists>d'. Heap_MakeHeap_loop d (int k - 1) = Some (Inr d') \<and> num_array d' (make_heap_from xs k)"
  using assms
proof (induction k arbitrary: d xs)
  case 0
  then show ?case by (auto simp: Heap_MakeHeap_loop.simps [of d "- 1"])
next
  case (Suc k)
  have u: "unat (size_t_of_int (int k)) = k"
    using Suc.prems(3) by (intro unat_size_t_of_nat) simp
  then obtain d1 where d1: "Heap_SiftDown d (size_t_of_int (int k)) = Some (Inr d1)"
    "num_array d1 (sift_down xs k)"
    using Heap_SiftDown_num [OF Suc.prems(1), of "size_t_of_int (int k)"] Suc.prems(2) by auto
  with Suc.IH [OF d1(2)] Suc.prems show ?case
    by (simp add: Heap_MakeHeap_loop.simps [of d "int k"])
qed

lemma int_of_size_t_small: "unat w \<le> nat INT_MAX \<Longrightarrow> int_of_size_t w = int (unat w)"
  unfolding int_of_size_t_def by (subst signed_take_bit_int_eq_self) (simp_all add: uint_nat del: of_nat_unat)

lemma int_of_size_t_minus1: "int_of_size_t (- 1) = - 1"
  by (rule bit_eqI)
    (simp add: int_of_size_t_def bit_signed_take_bit_iff bit_uint_iff min_def bit_minus_1_iff)

section \<open>The operations on heaps\<close>

definition heap_ok :: "darray \<Rightarrow> bool" where
  "heap_ok d \<longleftrightarrow> num_array d (darray_list d) \<and> is_heap (darray_list d)"

definition heap_bag :: "darray \<Rightarrow> double multiset" where
  "heap_bag d = mset (darray_list d)"

definition heap_accepts :: "darray \<Rightarrow> double \<Rightarrow> bool" where
  "heap_accepts d v \<longleftrightarrow> growable d \<and> v \<noteq> NaN"

lemma heap_okI: "num_array d xs \<Longrightarrow> is_heap xs \<Longrightarrow> heap_ok d"
  by (auto simp: heap_ok_def num_array_def)

lemma IsEmpty_iff: "darray_ok d \<Longrightarrow> DArray_IsEmpty d \<longleftrightarrow> darray_list d = []"
  using length_darray_list [of d]
  by (metis DArray_IsEmpty_def DArray_Size_def length_0_conv unat_eq_zero)

lemma Heap_MakeHeap_ok:
  assumes d: "num_array d xs" and small: "length xs div 2 \<le> nat INT_MAX"
  shows "\<exists>d'. Heap_MakeHeap d = Some (Inr d') \<and> num_array d' (make_heap_from xs (length xs div 2))"
proof -
  let ?k = "length xs div 2"
  have k: "unat (DArray_Size d div 2) = ?k"
    using num_array_length [OF d] by (simp add: unat_div_distrib)
  have "int_of_size_t (DArray_Size d div 2 - 1) = int ?k - 1"
  proof (cases "?k = 0")
    case True
    with k have "DArray_Size d div 2 = 0" by (metis unat_eq_zero)
    with True show ?thesis by (simp add: int_of_size_t_minus1)
  next
    case False
    with k have "DArray_Size d div 2 \<noteq> 0" by auto
    then have "unat (DArray_Size d div 2 - 1) = ?k - 1" by (metis unat_minus1_pred_size_t k)
    with False small show ?thesis by (simp add: int_of_size_t_small of_nat_diff)
  qed
  with Heap_MakeHeap_loop_num [OF d _ small] show ?thesis by (simp add: Heap_MakeHeap_def)
qed

lemma Heap_Add_ok:
  assumes h: "heap_ok d" and a: "heap_accepts d v"
  shows "\<exists>d'. Heap_Add d v = Inr d' \<and> heap_ok d' \<and> heap_bag d' = add_mset v (heap_bag d)"
proof -
  let ?xs = "darray_list d"
  have ok: "darray_ok d" "no_nan ?xs" "is_heap ?xs" using h by (auto simp: heap_ok_def num_array_def)
  then obtain d1 where d1: "DArray_PushBack d v = Inr d1" "darray_ok d1" "darray_list d1 = ?xs @ [v]"
    using DArray_PushBack_ok [of d v] a by (auto simp: heap_accepts_def)
  then have n1: "num_array d1 (?xs @ [v])"
    using ok(2) a by (auto simp: num_array_def no_nan_def heap_accepts_def)
  have l: "unat (DArray_Size d1) = Suc (length ?xs)" using num_array_length [OF n1] by simp
  then have "DArray_Size d1 \<noteq> 0" by auto
  then have i: "unat (DArray_Size d1 - 1) = length ?xs"
    using l by (simp add: unat_minus1_pred_size_t)
  from Heap_SiftUp_num [OF n1, of "DArray_Size d1 - 1"] obtain d2 where
    d2: "Heap_SiftUp d1 (DArray_Size d1 - 1) = Inr d2" "num_array d2 (sift_up (?xs @ [v]) (length ?xs))"
    using i by auto
  moreover have "is_heap (sift_up (?xs @ [v]) (length ?xs))"
    using ok(3) by (intro sift_up_heap heap_above_snoc) simp_all
  ultimately show ?thesis
    using d1(1) heap_okI [OF d2(2)] num_array_perm [OF d2(2)]
    by (auto simp: Heap_Add_def heap_bag_def)
qed

text \<open>The state in which \<open>ExtractMax\<close> calls \<open>SiftDown\<close>.\<close>

lemma extract_prefix:
  assumes h: "heap_ok d" and ne: "darray_list d \<noteq> []"
  shows "\<exists>d2. bindE (DArray_get d 0) (\<lambda>res. bindE (DArray_PopBack d) (\<lambda>(last, arr1).
      bindE (DArray_set arr1 0 last) (\<lambda>arr2. Inr (res, arr2)))) = Inr (darray_list d ! 0, d2) \<and>
    num_array d2 ((butlast (darray_list d))[0 := last (darray_list d)])"
proof -
  let ?xs = "darray_list d"
  have ok: "darray_ok d" "no_nan ?xs" using h by (auto simp: heap_ok_def num_array_def)
  have sz: "DArray_Size d \<noteq> 0" using ok(1) ne IsEmpty_iff by (simp add: DArray_IsEmpty_def DArray_Size_def)
  then have g: "DArray_get d 0 = Inr (?xs ! 0)"
    using ok(1) by (simp add: DArray_get_ok word_neq_0_conv)
  obtain d1 where d1: "DArray_PopBack d = Inr (last ?xs, d1)" "darray_ok d1"
    "darray_list d1 = butlast ?xs" "da_buffer d1 = da_buffer d"
    using DArray_PopBack_ok [OF ok(1)] sz by (auto simp: DArray_Size_def)
  have len: "0 < length (da_buffer d1)"
    using ok_size_le [OF ok(1)] sz d1(4) by (metis DArray_Size_def le_zero_eq neq0_conv unat_eq_zero)
  let ?d2 = "d1\<lparr>da_buffer := (da_buffer d1)[0 := Some (last ?xs)]\<rparr>"
  have "DArray_set d1 0 (last ?xs) = Inr ?d2"
    using d1(2) len by (simp add: DArray_set_def darray_ok_def)
  moreover have "set ((butlast ?xs)[0 := last ?xs]) \<subseteq> set ?xs"
    using set_update_subset_insert [of "butlast ?xs" 0 "last ?xs"] ne
    by (auto dest: in_set_butlastD)
  then have "num_array ?d2 ((butlast ?xs)[0 := last ?xs])"
    using ok_write [OF d1(2) len, of "last ?xs"] d1(3) ok(2) by (auto simp: num_array_def no_nan_def)
  ultimately show ?thesis using g d1(1) by auto
qed

lemma mset_move_last:
  assumes "xs \<noteq> []"
  shows "mset ((butlast xs)[0 := last xs]) = mset xs - {#xs ! 0#}"
proof (cases "butlast xs")
  case Nil
  then have "xs = [last xs]" using assms by (metis append_butlast_last_id append_Nil)
  then show ?thesis by (metis Nil add_mset_remove_trivial list_update.simps(1) mset.simps nth_Cons_0)
next
  case (Cons y ys)
  then have "xs = y # ys @ [last xs]" using assms by (metis append_butlast_last_id append_Cons)
  then have "mset xs = add_mset y (add_mset (last xs) (mset ys))" "xs ! 0 = y"
    by (metis add_mset_add_single mset.simps(2) mset_append mset_single_iff mset.simps(1) union_mset_add_mset_right add.right_neutral, metis nth_Cons_0)
  with Cons show ?thesis by simp
qed

lemma Heap_ExtractMax_ok:
  assumes h: "heap_ok d" and ne: "darray_list d \<noteq> []"
  shows "\<exists>d'. Heap_ExtractMax d = Some (Inr (darray_list d ! 0, d')) \<and> heap_ok d' \<and>
    heap_bag d' = heap_bag d - {#darray_list d ! 0#}"
proof -
  let ?xs = "darray_list d" and ?ys = "(butlast (darray_list d))[0 := last (darray_list d)]"
  have ok: "darray_ok d" "is_heap ?xs" using h by (auto simp: heap_ok_def num_array_def)
  from extract_prefix [OF h ne] obtain d2 where
    d2: "bindE (DArray_get d 0) (\<lambda>res. bindE (DArray_PopBack d) (\<lambda>(last, arr1).
      bindE (DArray_set arr1 0 last) (\<lambda>arr2. Inr (res, arr2)))) = Inr (?xs ! 0, d2)"
    "num_array d2 ?ys" by auto
  have ne1: "\<not> DArray_IsEmpty d" using ne ok(1) by (simp add: IsEmpty_iff)
  have bag: "mset ?ys = heap_bag d - {#?xs ! 0#}" using ne by (simp add: mset_move_last heap_bag_def)
  have ex: "heap_except 0 0 ?ys" using ok(2) by (intro heap_except_root is_heap_butlast)
  show ?thesis
  proof (cases "?ys = []")
    case True
    with d2(2) have "DArray_IsEmpty d2" by (simp add: IsEmpty_iff num_array_def)
    moreover have "heap_ok d2" using d2(2) True by (intro heap_okI) (auto simp: heap_from_def)
    ultimately show ?thesis
      using d2 ne1 bag by (auto simp: Heap_ExtractMax_def heap_bag_def num_array_def)
  next
    case False
    with d2(2) have "\<not> DArray_IsEmpty d2" by (simp add: IsEmpty_iff num_array_def)
    moreover from False obtain d3 where
      d3: "Heap_SiftDown d2 0 = Some (Inr d3)" "num_array d3 (sift_down ?ys 0)"
      using Heap_SiftDown_num [OF d2(2), of 0] by (metis length_greater_0_conv unat_0)
    moreover have "is_heap (sift_down ?ys 0)" using ex by (rule sift_down_heap) simp
    ultimately show ?thesis
      using d2(1) ne1 bag heap_okI [OF d3(2)] num_array_perm [OF d3(2)]
      by (auto simp: Heap_ExtractMax_def heap_bag_def)
  qed
qed

lemma heap_root_Max:
  assumes "heap_ok d" "darray_list d \<noteq> []"
  shows "Max_mset (heap_bag d) = darray_list d ! 0"
  using assms by (auto simp: heap_bag_def heap_ok_def is_heap_hd_Max intro!: Max_eqI)

interpretation heap_queue: max_queue Heap_Add Heap_ExtractMax heap_bag heap_ok heap_accepts
  "Throw ''head is empty''"
proof unfold_locales
  fix d v assume "heap_ok d" "heap_accepts d v"
  then show "\<exists>d'. Heap_Add d v = Inr d' \<and> heap_ok d' \<and> heap_bag d' = add_mset v (heap_bag d)"
    by (rule Heap_Add_ok)
next
  fix d assume "heap_ok d" "heap_bag d \<noteq> {#}"
  then show "\<exists>d'. Heap_ExtractMax d = Some (Inr (Max_mset (heap_bag d), d')) \<and> heap_ok d' \<and>
      heap_bag d' = heap_bag d - {#Max_mset (heap_bag d)#}"
    using Heap_ExtractMax_ok [of d] heap_root_Max [of d] by (auto simp: heap_bag_def)
next
  fix d assume "heap_ok d" "heap_bag d = {#}"
  then show "Heap_ExtractMax d = Some (Inl (Throw ''head is empty''))"
    by (simp add: Heap_ExtractMax_def IsEmpty_iff heap_bag_def heap_ok_def num_array_def)
qed

section \<open>Properties\<close>

lemma heap_example:
  "num_array \<lparr>da_null = False,
      da_buffer = [Some (Fin 1), Some (Fin 4), Some (Fin 9), Some (Fin 3), Some (Fin 1), Some (Fin 5), None],
      da_kind = NewArray, da_buf_size = 7, da_actual_size = 6, da_released = []\<rparr>
    [Fin 1, Fin 4, Fin 9, Fin 3, Fin 1, Fin 5]"
  by (simp add: num_array_def darray_ok_def darray_list_def no_nan_def)

text \<open>
  C2: \<open>MakeHeap\<close> terminates on every well-formed array of numbers of at most
  \<open>2 * INT_MAX + 1\<close> elements, rearranges its elements only, and the result is a heap: no
  element exceeds its parent.
\<close>

theorem MakeHeap_builds_heap:
  assumes "darray_ok d" and "NaN \<notin> set (darray_list d)"
    and "length (darray_list d) div 2 \<le> nat INT_MAX"
  shows "\<exists>d'. Heap_MakeHeap d = Some (Inr d') \<and> darray_ok d' \<and>
    mset (darray_list d') = mset (darray_list d) \<and> is_heap (darray_list d')"
proof -
  have "num_array d (darray_list d)" using assms(1,2) by (simp add: num_array_def no_nan_def)
  from Heap_MakeHeap_ok [OF this assms(3)] show ?thesis
    using make_heap_from_heap [OF heap_from_half, of "darray_list d"]
    by (auto simp: num_array_def)
qed

theorem MakeHeap_builds_heap_witness:
  "\<exists>d'. Heap_MakeHeap \<lparr>da_null = False,
      da_buffer = [Some (Fin 1), Some (Fin 4), Some (Fin 9), Some (Fin 3), Some (Fin 1), Some (Fin 5), None],
      da_kind = NewArray, da_buf_size = 7, da_actual_size = 6, da_released = []\<rparr> = Some (Inr d') \<and>
    is_heap (darray_list d')"
proof -
  let ?d = "\<lparr>da_null = False,
      da_buffer = [Some (Fin 1), Some (Fin 4), Some (Fin 9), Some (Fin 3), Some (Fin 1), Some (Fin 5), None],
      da_kind = NewArray, da_buf_size = 7, da_actual_size = 6, da_released = []\<rparr>"
  have "darray_ok ?d" "NaN \<notin> set (darray_list ?d)" "length (darray_list ?d) div 2 \<le> nat INT_MAX"
    using heap_example by (simp_all add: num_array_def no_nan_def)
  from MakeHeap_builds_heap [OF this] show ?thesis by blast
qed

text \<open>
  C3: on a heap of numbers \<open>ExtractMax\<close> terminates, returns an element that no element
  exceeds, removes exactly that occurrence and leaves a heap; on an empty array it throws
  "head is empty".
\<close>

theorem ExtractMax_removes_maximum:
  assumes "heap_ok d"
  shows "(darray_list d = [] \<longrightarrow> Heap_ExtractMax d = Some (Inl (Throw ''head is empty''))) \<and>
    (darray_list d \<noteq> [] \<longrightarrow> (\<exists>m d'. Heap_ExtractMax d = Some (Inr (m, d')) \<and> heap_ok d' \<and>
       m \<in> set (darray_list d) \<and> (\<forall>x \<in> set (darray_list d). dbl_le x m) \<and>
       mset (darray_list d) = add_mset m (mset (darray_list d'))))"
proof (cases "darray_list d = []")
  case True
  with heap_queue.extract_none [OF assms] show ?thesis by (simp add: heap_bag_def)
next
  case False
  define m where "m = Max_mset (heap_bag d)"
  from False heap_queue.extract_some [OF assms] obtain d' where
    d': "Heap_ExtractMax d = Some (Inr (m, d'))" "heap_ok d'" "heap_bag d' = heap_bag d - {#m#}"
    by (auto simp: heap_bag_def m_def)
  have m: "m \<in># heap_bag d" using False by (simp add: heap_bag_def m_def)
  have "NaN \<notin> set (darray_list d)" using assms by (simp add: heap_ok_def num_array_def no_nan_def)
  moreover have "x \<le> m" if "x \<in> set (darray_list d)" for x
    using that by (simp add: m_def heap_bag_def)
  ultimately have "dbl_le x m" if "x \<in> set (darray_list d)" for x
    using that m dbl_le_number [of x m] by (metis heap_bag_def set_mset_mset)
  moreover have "heap_bag d = add_mset m (heap_bag d')"
    unfolding d'(3) using m by (rule insert_DiffM [symmetric])
  moreover have "m \<in> set (darray_list d)" using m by (simp add: heap_bag_def)
  ultimately show ?thesis using False d'(1,2) unfolding heap_bag_def by blast
qed

theorem ExtractMax_removes_maximum_witness:
  "\<exists>m d'. Heap_ExtractMax \<lparr>da_null = False, da_buffer = [Some (Fin 9), Some (Fin 4)],
      da_kind = Malloc, da_buf_size = 2, da_actual_size = 2, da_released = []\<rparr> = Some (Inr (m, d')) \<and>
    dbl_le (Fin 4) m \<and> dbl_le (Fin 9) m"
proof -
  let ?d = "\<lparr>da_null = False, da_buffer = [Some (Fin 9), Some (Fin 4)],
      da_kind = Malloc, da_buf_size = 2, da_actual_size = 2, da_released = []\<rparr>"
  have "heap_from 0 [Fin 9, Fin 4]"
    by (auto simp: heap_from_def parent_def less_Suc_eq less_eq_double_def)
  then have "heap_ok ?d"
    by (intro heap_okI [of _ "[Fin 9, Fin 4]"])
      (simp_all add: num_array_def darray_ok_def darray_list_def no_nan_def)
  from ExtractMax_removes_maximum [OF this] show ?thesis by (auto simp: darray_list_def)
qed

text \<open>
  C4: \<open>Add\<close> of a number to a heap with room (or room to grow) succeeds, adds exactly that
  value and leaves a heap, whose maximum \<open>HeapMaximum\<close> then returns.
\<close>

theorem Add_keeps_heap:
  assumes "heap_ok d" and "growable d" and "v \<noteq> NaN"
  shows "\<exists>d'. Heap_Add d v = Inr d' \<and> heap_ok d' \<and>
    mset (darray_list d') = add_mset v (mset (darray_list d)) \<and>
    Heap_HeapMaximum d' = Inr (Max (insert v (set (darray_list d))))"
proof -
  from heap_queue.insert_bag [OF assms(1), of v] assms(2,3) obtain d' where
    d': "Heap_Add d v = Inr d'" "heap_ok d'" "heap_bag d' = add_mset v (heap_bag d)"
    by (auto simp: heap_accepts_def)
  then have ne: "darray_list d' \<noteq> []" by (auto simp: heap_bag_def)
  have ok: "darray_ok d'" using d'(2) by (simp add: heap_ok_def num_array_def)
  then have "DArray_get d' 0 = Inr (darray_list d' ! 0)"
    using ne by (intro DArray_get_ok [of d' 0, simplified])
      (simp_all add: word_gt_0 flip: IsEmpty_iff, simp add: DArray_IsEmpty_def DArray_Size_def)
  moreover have "\<not> DArray_IsEmpty d'" using ok ne by (simp add: IsEmpty_iff)
  moreover have "darray_list d' ! 0 = Max (insert v (set (darray_list d)))"
    using heap_root_Max [OF d'(2) ne] d'(3)
    by (metis heap_bag_def set_mset_add_mset_insert set_mset_mset)
  ultimately show ?thesis using d' by (simp add: Heap_HeapMaximum_def heap_bag_def)
qed

theorem Add_keeps_heap_witness:
  "\<exists>d'. Heap_Add (DArray_ctor 64) (Fin 20) = Inr d' \<and> darray_list d' = [Fin 20]"
proof -
  have c: "darray_ok (DArray_ctor 64)" "darray_list (DArray_ctor 64) = []"
    by (simp_all add: DArray_ctor_ok)
  then have "heap_ok (DArray_ctor 64)"
    by (simp add: heap_ok_def num_array_def no_nan_def heap_from_def)
  moreover have "growable (DArray_ctor 64)" by (simp add: growable_def DArray_ctor_ok)
  ultimately show ?thesis using Add_keeps_heap [of "DArray_ctor 64" "Fin 20"] c(2) by auto
qed

text \<open>
  C1: heap sort. \<open>MakeHeap\<close> followed by as many calls of \<open>ExtractMax\<close> as there are elements
  returns all elements in descending order.
\<close>

theorem MakeHeap_ExtractMax_sorts:
  assumes "darray_ok d" and "NaN \<notin> set (darray_list d)"
    and "length (darray_list d) div 2 \<le> nat INT_MAX"
  shows "\<exists>d' ys. Heap_MakeHeap d = Some (Inr d') \<and>
    drain Heap_ExtractMax (length (darray_list d)) d' = Some ys \<and>
    mset ys = mset (darray_list d) \<and> sorted (rev ys)"
proof -
  have "num_array d (darray_list d)" using assms(1,2) by (simp add: num_array_def no_nan_def)
  from Heap_MakeHeap_ok [OF this assms(3)] obtain d' where
    d': "Heap_MakeHeap d = Some (Inr d')"
    "num_array d' (make_heap_from (darray_list d) (length (darray_list d) div 2))" by auto
  then have "heap_ok d'"
    using make_heap_from_heap [OF heap_from_half] by (intro heap_okI [OF d'(2)])
  moreover have b: "heap_bag d' = mset (darray_list d)"
    using num_array_perm [OF d'(2)] by (simp add: heap_bag_def)
  ultimately show ?thesis using heap_queue.drain_sorted [of d'] d'(1) by simp
qed

theorem MakeHeap_ExtractMax_sorts_witness:
  "\<exists>d' ys. Heap_MakeHeap \<lparr>da_null = False,
      da_buffer = [Some (Fin 1), Some (Fin 4), Some (Fin 9), Some (Fin 3), Some (Fin 1), Some (Fin 5), None],
      da_kind = NewArray, da_buf_size = 7, da_actual_size = 6, da_released = []\<rparr> = Some (Inr d') \<and>
    drain Heap_ExtractMax 6 d' = Some ys \<and> sorted (rev ys)"
proof -
  let ?d = "\<lparr>da_null = False,
      da_buffer = [Some (Fin 1), Some (Fin 4), Some (Fin 9), Some (Fin 3), Some (Fin 1), Some (Fin 5), None],
      da_kind = NewArray, da_buf_size = 7, da_actual_size = 6, da_released = []\<rparr>"
  have l: "darray_list ?d = [Fin 1, Fin 4, Fin 9, Fin 3, Fin 1, Fin 5]"
    and "darray_ok ?d" "NaN \<notin> set (darray_list ?d)" "length (darray_list ?d) div 2 \<le> nat INT_MAX"
    using heap_example by (simp_all add: num_array_def no_nan_def)
  moreover have "length (darray_list ?d) = 6" by (simp add: l)
  ultimately show ?thesis using MakeHeap_ExtractMax_sorts [of ?d] by metis
qed

end
