(* ===== verification/Shell_Sort.thy ===== *)
theory Shell_Sort
  imports Heap_List
begin

text \<open>
  The file \<open>cmake_make_gtest_cppunit/stack_corr.cpp\<close>: \<open>shell_sort\<close> on a C array of \<open>long\<close> and
  the \<open>main\<close> that fills the array and calls it. Every array access is checked, the \<open>int\<close>
  gap and index are checked for overflow. The loops are one function each; the gap \<open>h\<close> and
  the indices are natural numbers, since they start at 1 and at \<open>h\<close> and only the guarded
  subtraction \<open>j -= h\<close> (with \<open>j >= h\<close>) lowers them.
\<close>

section \<open>The sort\<close>

definition c_div :: "int \<Rightarrow> int \<Rightarrow> int" where
  "c_div a b = sgn a * sgn b * (\<bar>a\<bar> div \<bar>b\<bar>)"

text \<open>\<open>for (h = 1; h <= length / 9; h = 3 * h + 1) ;\<close>\<close>

function shell_gap :: "int \<Rightarrow> nat \<Rightarrow> cpp_error + nat" where
  "shell_gap len h =
     (if int h \<le> c_div len 9 then
        (if 3 * int h + 1 > INT_MAX then Inl (Undefined IntOverflow) else shell_gap len (3 * h + 1))
      else Inr h)"
  by pat_completeness auto
termination
  by (relation "measure (\<lambda>(len, h). nat INT_MAX - h)") auto

text \<open>
  \<open>while (j >= h && tmp < my_array[j - h]) { my_array[j] = my_array[j - h]; j -= h; }\<close>.
  The test \<open>0 < h\<close> is the condition of the enclosing \<open>for\<close> loop.
\<close>

function shell_inner :: "int list \<Rightarrow> int \<Rightarrow> nat \<Rightarrow> nat \<Rightarrow> cpp_error + int list \<times> nat" where
  "shell_inner a tmp h j =
     (if 0 < h \<and> h \<le> j then
        bindE (buf_read a (j - h)) (\<lambda>x.
          if tmp < x then bindE (buf_write a j x) (\<lambda>a'. shell_inner a' tmp h (j - h))
          else Inr (a, j))
      else Inr (a, j))"
  by pat_completeness auto
termination
  by (relation "measure (\<lambda>(a, tmp, h, j). j)") auto

text \<open>\<open>for (int i = h; i < length; ++i) { ... }\<close>\<close>

function shell_pass :: "int list \<Rightarrow> int \<Rightarrow> nat \<Rightarrow> nat \<Rightarrow> cpp_error + int list" where
  "shell_pass a len h i =
     (if int i < len then
        bindE (buf_read a i) (\<lambda>tmp.
          bindE (shell_inner a tmp h i) (\<lambda>(a', j).
            bindE (buf_write a' j tmp) (\<lambda>a''.
              if int i = INT_MAX then Inl (Undefined IntOverflow)
              else shell_pass a'' len h (Suc i))))
      else Inr a)"
  by pat_completeness auto
termination
  by (relation "measure (\<lambda>(a, len, h, i). nat (len - int i))") auto

text \<open>\<open>for (; h > 0; h /= 3) { ... }\<close>\<close>

function shell_gaps :: "int list \<Rightarrow> int \<Rightarrow> nat \<Rightarrow> cpp_error + int list" where
  "shell_gaps a len h =
     (if 0 < h then bindE (shell_pass a len h h) (\<lambda>a'. shell_gaps a' len (h div 3)) else Inr a)"
  by pat_completeness auto
termination
  by (relation "measure (\<lambda>(a, len, h). h)") auto

declare shell_gap.simps [simp del] shell_inner.simps [simp del] shell_pass.simps [simp del]
  shell_gaps.simps [simp del]

definition shell_sort :: "int list \<Rightarrow> int \<Rightarrow> cpp_error + int list" where
  "shell_sort my_array len = bindE (shell_gap len 1) (\<lambda>h. shell_gaps my_array len h)"

text \<open>
  The filling loop of \<open>main\<close>: \<open>for (; i < rand() % sizeof arr; ++i) arr[i] = rand();\<close> with
  \<open>long arr[32]\<close>, so \<open>sizeof arr\<close> is 256. The results of \<open>rand()\<close> are the environment's:
  each round takes one for the condition and one for the value; \<open>None\<close> when they run out
  inside the loop.
\<close>

fun fill_array :: "int list \<Rightarrow> nat \<Rightarrow> (nat \<times> int) list \<Rightarrow> (cpp_error + int list) option" where
  "fill_array arr i [] = None"
| "fill_array arr i ((r, v) # rs) =
     (if i < r mod 256 then
        (case buf_write arr i v of
           Inl e \<Rightarrow> Some (Inl e)
         | Inr arr' \<Rightarrow> fill_array arr' (Suc i) rs)
      else Some (Inr arr))"

text \<open>The part of \<open>main\<close> that computes: fill, then sort 32 elements. \<open>junk\<close> is what the
  uninitialised array holds.\<close>

definition stack_corr_main :: "int list \<Rightarrow> (nat \<times> int) list \<Rightarrow> (cpp_error + int list) option" where
  "stack_corr_main junk rands =
     map_option (\<lambda>r. bindE r (\<lambda>arr. shell_sort arr 32)) (fill_array (take 32 junk) 0 rands)"

section \<open>The gap sequence\<close>

inductive gap :: "nat \<Rightarrow> bool" where
  gap_one: "gap 1"
| gap_step: "gap h \<Longrightarrow> gap (3 * h + 1)"

inductive_cases gap_cases: "gap h"

lemma gap_pos: "gap h \<Longrightarrow> 0 < h"
  by (induction rule: gap.induct) simp_all

lemma shell_gap_ok:
  assumes "gap h" "0 \<le> len" "len \<le> INT_MAX"
  shows "\<exists>h'. shell_gap len h = Inr h' \<and> gap h'"
  using assms
proof (induction len h rule: shell_gap.induct)
  case (1 len h)
  show ?case
  proof (cases "int h \<le> c_div len 9")
    case True
    then have "3 * int h + 1 \<le> INT_MAX" using "1.prems" by (simp add: c_div_def sgn_if split: if_splits)
    with True 1 gap_step [OF "1.prems"(1)] show ?thesis by (simp add: shell_gap.simps [of len h])
  next
    case False
    with "1.prems" show ?thesis by (simp add: shell_gap.simps [of len h])
  qed
qed

section \<open>The insertion step\<close>

lemma hole_move:
  assumes "j < length a" "k < length a"
  shows "mset (a[j := a ! k, k := tmp]) = mset (a[j := tmp])"
proof -
  have "a[j := a ! k, k := tmp] = exch (a[j := tmp]) j k"
    using assms by (cases "j = k") (simp_all add: exch_def list_update_swap)
  then show ?thesis using mset_swap_list [of j "a[j := tmp]" k] assms by simp
qed

text \<open>
  The invariant of the insertion for gap 1: with the value \<open>tmp\<close> in the hole \<open>j\<close>, the prefix
  up to \<open>i\<close> is sorted outside the hole, and everything after the hole is above \<open>tmp\<close>.
\<close>

definition hole_inv :: "int list \<Rightarrow> int \<Rightarrow> nat \<Rightarrow> nat \<Rightarrow> bool" where
  "hole_inv a tmp i j \<longleftrightarrow>
     (\<forall>p q. p < q \<longrightarrow> q \<le> i \<longrightarrow> p \<noteq> j \<longrightarrow> q \<noteq> j \<longrightarrow> a ! p \<le> a ! q) \<and>
     (\<forall>q. j < q \<longrightarrow> q \<le> i \<longrightarrow> tmp \<le> a ! q)"

lemma hole_inv_step:
  assumes "hole_inv a tmp i j" "0 < j" "j \<le> i" "i < length a" "tmp < a ! (j - 1)"
  shows "hole_inv (a[j := a ! (j - 1)]) tmp i (j - 1)"
proof -
  have 1: "a ! p \<le> a ! q" if "p < q" "q \<le> i" "p \<noteq> j" "q \<noteq> j" for p q
    using assms(1) that by (simp add: hole_inv_def)
  have 2: "tmp \<le> a ! q" if "j < q" "q \<le> i" for q using assms(1) that by (simp add: hole_inv_def)
  have "a[j := a ! (j - 1)] ! p \<le> a[j := a ! (j - 1)] ! q"
    if "p < q" "q \<le> i" "p \<noteq> j - 1" "q \<noteq> j - 1" for p q
    using that assms(2-4) 1 [of p q] 1 [of p "j - 1"] 1 [of "j - 1" q]
    by (cases "p = j"; cases "q = j") (auto simp: nth_list_update)
  moreover have "tmp \<le> a[j := a ! (j - 1)] ! q" if "j - 1 < q" "q \<le> i" for q
    using that assms 2 [of q] by (cases "q = j") auto
  ultimately show ?thesis by (simp add: hole_inv_def)
qed

lemma hole_inv_close:
  assumes "hole_inv a tmp i j" "j \<le> i" "i < length a" "j = 0 \<or> a ! (j - 1) \<le> tmp"
  shows "sorted (take (Suc i) (a[j := tmp]))"
proof -
  have "a[j := tmp] ! p \<le> a[j := tmp] ! q" if "p < q" "q \<le> i" for p q
  proof (cases "q = j")
    case True
    then have "a ! p \<le> a ! (j - 1)"
      using that assms(1) by (cases "p = j - 1") (auto simp: hole_inv_def)
    with True that assms show ?thesis by auto
  next
    case False
    with that assms show ?thesis by (cases "p = j") (auto simp: hole_inv_def)
  qed
  then show ?thesis using assms(3) by (auto simp: sorted_iff_nth_mono_less)
qed

lemma shell_inner_ok:
  assumes "0 < h" "j < length a"
  shows "\<exists>a' j'. shell_inner a tmp h j = Inr (a', j') \<and> length a' = length a \<and> j' \<le> j \<and>
    mset (a'[j' := tmp]) = mset (a[j := tmp]) \<and>
    (h = 1 \<longrightarrow> i < length a \<longrightarrow> j \<le> i \<longrightarrow> hole_inv a tmp i j \<longrightarrow>
       hole_inv a' tmp i j' \<and> (j' = 0 \<or> a' ! (j' - 1) \<le> tmp))"
  using assms
proof (induction a tmp h j rule: shell_inner.induct)
  case (1 a tmp h j)
  show ?case
  proof (cases "h \<le> j \<and> tmp < a ! (j - h)")
    case True
    let ?a = "a[j := a ! (j - h)]"
    have r: "shell_inner a tmp h j = shell_inner ?a tmp h (j - h)"
      using True "1.prems" by (simp add: shell_inner.simps [of a tmp h j])
    have "\<exists>a' j'. shell_inner ?a tmp h (j - h) = Inr (a', j') \<and> length a' = length ?a \<and> j' \<le> j - h \<and>
        mset (a'[j' := tmp]) = mset (?a[j - h := tmp]) \<and>
        (h = 1 \<longrightarrow> i < length ?a \<longrightarrow> j - h \<le> i \<longrightarrow> hole_inv ?a tmp i (j - h) \<longrightarrow>
           hole_inv a' tmp i j' \<and> (j' = 0 \<or> a' ! (j' - 1) \<le> tmp))"
      using True "1.prems" by (intro "1.IH") (simp_all)
    moreover have "mset (?a[j - h := tmp]) = mset (a[j := tmp])"
      using "1.prems" by (intro hole_move) simp_all
    moreover have "hole_inv ?a tmp i (j - h)" if "h = 1" "i < length a" "j \<le> i" "hole_inv a tmp i j"
      using True that hole_inv_step [of a tmp i j] by simp
    ultimately show ?thesis unfolding r by fastforce
  next
    case False
    then have "shell_inner a tmp h j = Inr (a, j)"
      using "1.prems" by (simp add: shell_inner.simps [of a tmp h j])
    with False show ?thesis by (auto simp: not_le not_less less_Suc_eq_le)
  qed
qed

section \<open>A pass and the whole sort\<close>

lemma sorted_hole_inv: "sorted (take i a) \<Longrightarrow> i < length a \<Longrightarrow> hole_inv a tmp i i"
  by (auto simp: hole_inv_def sorted_iff_nth_mono_less)

lemma shell_pass_ok:
  assumes "0 < h" "int (length a) = len" "len \<le> INT_MAX" "h = 1 \<longrightarrow> sorted (take i a)"
  shows "\<exists>a'. shell_pass a len h i = Inr a' \<and> mset a' = mset a \<and>
    (h = 1 \<longrightarrow> i \<le> length a \<longrightarrow> sorted a')"
  using assms
proof (induction a len h i rule: shell_pass.induct)
  case (1 a len h i)
  show ?case
  proof (cases "i < length a")
    case False
    with "1.prems" show ?thesis by (auto simp: shell_pass.simps [of a len h i])
  next
    case True
    let ?tmp = "a ! i"
    from shell_inner_ok [OF "1.prems"(1) True, of ?tmp i] obtain a' j where
      s: "shell_inner a ?tmp h i = Inr (a', j)" "length a' = length a" "j \<le> i"
      "mset (a'[j := ?tmp]) = mset a"
      "h = 1 \<longrightarrow> hole_inv a ?tmp i i \<longrightarrow> hole_inv a' ?tmp i j \<and> (j = 0 \<or> a' ! (j - 1) \<le> ?tmp)"
      using True by auto
    let ?b = "a'[j := ?tmp]"
    have srt: "h = 1 \<longrightarrow> sorted (take (Suc i) ?b)"
      using s "1.prems"(4) True sorted_hole_inv [of i a ?tmp] hole_inv_close [of a' ?tmp i j] by auto
    have "shell_pass a len h i = shell_pass ?b len h (Suc i)"
      using True s "1.prems"(2,3) by (auto simp: shell_pass.simps [of a len h i])
    moreover have "\<exists>c. shell_pass ?b len h (Suc i) = Inr c \<and> mset c = mset ?b \<and>
        (h = 1 \<longrightarrow> Suc i \<le> length ?b \<longrightarrow> sorted c)"
      using True s "1.prems" srt by (intro "1.IH" [of ?tmp "(a', j)" a' j ?b]) auto
    ultimately show ?thesis using s True by auto
  qed
qed

lemma shell_gaps_ok:
  assumes "gap h" "int (length a) = len" "len \<le> INT_MAX"
  shows "\<exists>a'. shell_gaps a len h = Inr a' \<and> mset a' = mset a \<and> sorted a'"
  using assms
proof (induction h arbitrary: a rule: gap.induct)
  case gap_one
  have "sorted (take 1 a)" by (cases a) simp_all
  with gap_one shell_pass_ok [of 1 a len 1] obtain a' where
    a': "shell_pass a len 1 1 = Inr a'" "mset a' = mset a" "1 \<le> length a \<longrightarrow> sorted a'" by auto
  moreover have "sorted a'" using a'(2,3) by (cases "length a") auto
  ultimately show ?case
    by (simp add: shell_gaps.simps [of a len "Suc 0"] shell_gaps.simps [of a' len 0])
next
  case (gap_step h)
  have div_three: "Suc (3 * h) div 3 = h" by simp
  have "3 * h + 1 \<noteq> 1" using gap_pos [OF gap_step.hyps] by simp
  with gap_step.prems shell_pass_ok [of "3 * h + 1" a len "3 * h + 1"] obtain a' where
    a': "shell_pass a len (3 * h + 1) (3 * h + 1) = Inr a'" "mset a' = mset a" by auto
  then have "int (length a') = len" using gap_step.prems by (metis size_mset)
  with a' gap_step.IH [of a'] gap_step.prems show ?case
    by (simp add: shell_gaps.simps [of a len "Suc (3 * h)"] div_three)
qed

section \<open>Properties\<close>

text \<open>
  C17: \<open>shell_sort\<close> called with the true length of an array of at most \<open>INT_MAX\<close> elements
  terminates without leaving the array or overflowing, and sorts it: the result is in
  ascending order and a permutation of the input.
\<close>

theorem shell_sort_sorts:
  assumes "len = int (length a)" and "len \<le> INT_MAX"
  shows "\<exists>a'. shell_sort a len = Inr a' \<and> sorted a' \<and> mset a' = mset a"
proof -
  from shell_gap_ok [OF gap_one, of len] assms obtain h where
    "shell_gap len 1 = Inr h" "gap h" by auto
  with shell_gaps_ok [of h a len] assms show ?thesis by (auto simp: shell_sort_def)
qed

theorem shell_sort_sorts_witness:
  "\<exists>a'. shell_sort [5, 2, 9, - 1, 2] 5 = Inr a' \<and> sorted a' \<and> mset a' = {#5, 2, 9, - 1, 2#}"
  using shell_sort_sorts [of 5 "[5, 2, 9, - 1, 2]"] by simp

text \<open>
  the filling loop of \<open>main\<close> is bounded by \<open>rand() % sizeof arr\<close>, up to 255, where the
  array has 32 elements: as soon as 33 conditions in a row hold, it writes past the array.
\<close>

theorem fill_array_overruns:
  assumes "length rs = 33" and "\<forall>k < 33. k < fst (rs ! k) mod 256" and "length arr = 32"
  shows "fill_array arr 0 rs = Some (Inl (Undefined OutOfBoundsWrite))"
proof -
  have "fill_array arr i rs = Some (Inl (Undefined OutOfBoundsWrite))"
    if "i \<le> 32" "length rs = 33 - i" "length arr = 32"
      "\<forall>k < length rs. i + k < fst (rs ! k) mod 256" for i arr and rs :: "(nat \<times> int) list"
    using that
  proof (induction rs arbitrary: arr i)
    case Nil
    then show ?case by simp
  next
    case (Cons x rs)
    obtain r v where x: "x = (r, v)" by (cases x)
    have c: "i < r mod 256" using Cons.prems(4) x by fastforce
    show ?case
    proof (cases "i = 32")
      case True
      with c x Cons.prems(3) show ?thesis by simp
    next
      case False
      moreover have "\<forall>k < length rs. Suc i + k < fst (rs ! k) mod 256"
        using Cons.prems(4) by (metis Suc_less_eq add_Suc_shift length_Cons nth_Cons_Suc)
      ultimately show ?thesis
        using Cons.IH [of "Suc i" "arr[i := v]"] Cons.prems c x by simp
    qed
  qed
  from this [of 0 rs arr] assms show ?thesis by simp
qed

theorem fill_array_overruns_witness:
  "fill_array (replicate 32 0) 0 (replicate 33 (255, 7)) = Some (Inl (Undefined OutOfBoundsWrite))"
  by (rule fill_array_overruns) (simp_all del: replicate_numeral)

end
