(* ===== verification/LinkedList.thy ===== *)
theory LinkedList
  imports Cpp_Prelude
begin

text \<open>
  The doubly linked list of \<open>cmake_make_gtest_cppunit/LinkedList.h\<close> and \<open>LinkedList.cpp\<close>.
  Nodes live in an explicit store: a list of cells, the address of a node is its position,
  \<open>new Node()\<close> adds a cell, and a released node is an empty cell, so that following a null
  or a dangling pointer is an outcome of the model. A pointer is \<open>nat option\<close>, \<open>None\<close> for
  \<open>nullptr\<close>. The nodes of a list are described by the list of their addresses
  (\<open>chain\<close>), along which every \<open>next\<close> and \<open>prev\<close> pointer is fixed.
\<close>

section \<open>Nodes and the store\<close>

type_synonym ptr = "nat option"

record node =
  nd_data :: int
  nd_next :: ptr
  nd_prev :: ptr

type_synonym store = "node option list"

text \<open>The constructor \<open>Node()\<close>.\<close>

definition Node_ctor :: node where
  "Node_ctor = \<lparr>nd_data = 0, nd_next = None, nd_prev = None\<rparr>"

definition new_Node :: "store \<Rightarrow> store \<times> nat" where
  "new_Node h = (h @ [Some Node_ctor], length h)"

definition cell :: "store \<Rightarrow> nat \<Rightarrow> node option" where
  "cell h a = (if a < length h then h ! a else None)"

text \<open>\<open>p->...\<close> read and written, and \<open>delete [] p\<close>.\<close>

fun load :: "store \<Rightarrow> ptr \<Rightarrow> cpp_error + node" where
  "load h None = Inl (Undefined NullDeref)"
| "load h (Some a) =
     (case cell h a of None \<Rightarrow> Inl (Undefined UseAfterFree) | Some n \<Rightarrow> Inr n)"

fun modify :: "store \<Rightarrow> ptr \<Rightarrow> (node \<Rightarrow> node) \<Rightarrow> cpp_error + store" where
  "modify h None f = Inl (Undefined NullDeref)"
| "modify h (Some a) f =
     (case cell h a of None \<Rightarrow> Inl (Undefined UseAfterFree) | Some n \<Rightarrow> Inr (h[a := Some (f n)]))"

definition release :: "store \<Rightarrow> nat \<Rightarrow> cpp_error + store" where
  "release h a =
     (case cell h a of None \<Rightarrow> Inl (Undefined DoubleFree) | Some n \<Rightarrow> Inr (h[a := None]))"

section \<open>The list\<close>

record linked_list =
  ll_head :: ptr
  ll_tail :: ptr

definition LinkedList_ctor :: linked_list where
  "LinkedList_ctor = \<lparr>ll_head = None, ll_tail = None\<rparr>"

definition live :: "store \<Rightarrow> nat" where
  "live h = length (filter (\<lambda>c. c \<noteq> None) h)"

lemma live_release: "release h a = Inr h' \<Longrightarrow> live h' < live h"
proof -
  assume r: "release h a = Inr h'"
  then obtain n where a: "a < length h" "h ! a = Some n" and h': "h' = h[a := None]"
    by (auto simp: release_def cell_def split: option.splits if_splits)
  have "h = take a h @ h ! a # drop (Suc a) h" using a(1) by (rule id_take_nth_drop)
  moreover have "h' = take a h @ None # drop (Suc a) h" using h' a(1) by (simp add: upd_conv_take_nth_drop)
  ultimately show "live h' < live h" using a(2)
    by (metis (mono_tags, lifting) filter.simps(2) filter_append length_Cons length_append
        live_def nat_add_left_cancel_less lessI option.distinct(1))
qed

text \<open>
  The loop of \<open>~LinkedList\<close>. Every node was obtained with \<open>new Node()\<close>, and \<open>delete []\<close> of such an
  object is undefined behaviour (\<open>release_with\<close>). The loop ends on every store, since each round releases one live
  node or fails.
\<close>

definition release_with :: "dealloc \<Rightarrow> alloc_kind \<Rightarrow> store \<Rightarrow> nat \<Rightarrow> cpp_error + store" where
  "release_with f kind h a =
     bindE (release h a) (\<lambda>h'. if release_matches (HeapRelease f kind) then Inr h' else Inl (Undefined InvalidFree))"

function LinkedList_dtor_loop :: "store \<Rightarrow> ptr \<Rightarrow> cpp_error + store" where
  "LinkedList_dtor_loop h None = Inr h"
| "LinkedList_dtor_loop h (Some a) =
     bindE (load h (Some a)) (\<lambda>n.
       bindE (release_with DeleteArray NewObject h a) (\<lambda>h'. LinkedList_dtor_loop h' (nd_next n)))"
  by pat_completeness auto
termination
  by (relation "measure (\<lambda>(h, p). live h)") (auto simp: release_with_def bindE_eq_Inr_iff dest: live_release)

definition LinkedList_dtor :: "store \<Rightarrow> linked_list \<Rightarrow> cpp_error + store" where
  "LinkedList_dtor h l = LinkedList_dtor_loop h (ll_head l)"

definition LinkedList_PushBack :: "store \<Rightarrow> linked_list \<Rightarrow> int \<Rightarrow> cpp_error + store \<times> linked_list"
where
  "LinkedList_PushBack h l val =
     (let (h, a) = new_Node h; temp = Some a in
      bindE (modify h temp (nd_data_update (\<lambda>_. val))) (\<lambda>h.
      bindE (modify h temp (nd_next_update (\<lambda>_. None))) (\<lambda>h.
      bindE (modify h temp (nd_prev_update (\<lambda>_. None))) (\<lambda>h.
      if ll_head l = None then Inr (h, l\<lparr>ll_head := temp, ll_tail := temp\<rparr>)
      else
        bindE (modify h (ll_tail l) (nd_next_update (\<lambda>_. temp))) (\<lambda>h.
        bindE (modify h temp (nd_prev_update (\<lambda>_. ll_tail l))) (\<lambda>h.
        Inr (h, l\<lparr>ll_tail := temp\<rparr>)))))))"

definition LinkedList_Front :: "linked_list \<Rightarrow> ptr" where
  "LinkedList_Front l = ll_head l"

definition LinkedList_Back :: "linked_list \<Rightarrow> ptr" where
  "LinkedList_Back l = ll_tail l"

text \<open>
  The loops of \<open>Display\<close> and \<open>Search\<close> do not end when the \<open>next\<close> pointers form a cycle:
  they are partial functions, and \<open>None\<close> is a loop that does not return.
\<close>

partial_function (option) LinkedList_Display_loop ::
  "store \<Rightarrow> ptr \<Rightarrow> (cpp_error + cout list) option" where
  "LinkedList_Display_loop h p =
     (case p of
        None \<Rightarrow> Some (Inr [])
      | Some a \<Rightarrow>
          (case load h p of
             Inl e \<Rightarrow> Some (Inl e)
           | Inr n \<Rightarrow>
               Option.bind (LinkedList_Display_loop h (nd_next n))
                 (\<lambda>r. Some (bindE r (\<lambda>out. Inr ([CInt (nd_data n), CStr tab] @ out))))))"

definition LinkedList_Display :: "store \<Rightarrow> linked_list \<Rightarrow> (cpp_error + cout list) option" where
  "LinkedList_Display h l =
     map_option (\<lambda>r. bindE r (\<lambda>out. Inr (out @ [CEndl]))) (LinkedList_Display_loop h (ll_head l))"

partial_function (option) LinkedList_Search_loop ::
  "store \<Rightarrow> ptr \<Rightarrow> int \<Rightarrow> (cpp_error + ptr) option" where
  "LinkedList_Search_loop h p val =
     (case p of
        None \<Rightarrow> Some (Inr None)
      | Some a \<Rightarrow>
          (case load h p of
             Inl e \<Rightarrow> Some (Inl e)
           | Inr n \<Rightarrow>
               if nd_data n = val then Some (Inr p) else LinkedList_Search_loop h (nd_next n) val))"

definition LinkedList_Search :: "store \<Rightarrow> linked_list \<Rightarrow> int \<Rightarrow> (cpp_error + ptr) option" where
  "LinkedList_Search h l val = LinkedList_Search_loop h (ll_head l) val"

text \<open>\<open>InsertAfter\<close> and \<open>DeteleAt\<close> work on nodes only; neither touches \<open>head_\<close> or \<open>tail_\<close>.\<close>

definition LinkedList_InsertAfter :: "store \<Rightarrow> ptr \<Rightarrow> int \<Rightarrow> cpp_error + ptr \<times> store" where
  "LinkedList_InsertAfter h node data =
     (if node = None then Inr (None, h)
      else
        let (h, a) = new_Node h; new_node = Some a in
        bindE (modify h new_node (nd_data_update (\<lambda>_. data))) (\<lambda>h.
        bindE (modify h new_node (nd_prev_update (\<lambda>_. node))) (\<lambda>h.
        bindE (load h node) (\<lambda>n.
        bindE (modify h new_node (nd_next_update (\<lambda>_. nd_next n))) (\<lambda>h.
        bindE (if nd_next n \<noteq> None then modify h (nd_next n) (nd_prev_update (\<lambda>_. new_node))
               else Inr h) (\<lambda>h.
        bindE (modify h node (nd_next_update (\<lambda>_. new_node))) (\<lambda>h.
        Inr (new_node, h))))))))"

definition LinkedList_DeteleAt :: "store \<Rightarrow> ptr \<Rightarrow> cpp_error + bool \<times> store" where
  "LinkedList_DeteleAt h node =
     (if node = None then Inr (False, h)
      else
        bindE (load h node) (\<lambda>n.
        bindE (if nd_next n \<noteq> None
               then modify h (nd_next n) (nd_prev_update (\<lambda>_. nd_prev n)) else Inr h) (\<lambda>h.
        bindE (load h node) (\<lambda>n.
        bindE (if nd_prev n \<noteq> None
               then modify h (nd_prev n) (nd_next_update (\<lambda>_. nd_next n)) else Inr h) (\<lambda>h.
        Inr (True, h))))))"

text \<open>The static \<open>Union\<close>; its arguments are pointers to lists.\<close>

fun LinkedList_Union ::
  "store \<Rightarrow> linked_list option \<Rightarrow> linked_list option \<Rightarrow> cpp_error + store" where
  "LinkedList_Union h (Some list1) (Some list2) =
     (let tail1 = LinkedList_Back list1; head2 = LinkedList_Front list2 in
      bindE (modify h tail1 (nd_next_update (\<lambda>_. head2))) (\<lambda>h.
      modify h head2 (nd_prev_update (\<lambda>_. tail1))))"
| "LinkedList_Union h _ _ = Inr h"

declare LinkedList_Display_loop.simps [code] LinkedList_Search_loop.simps [code]

section \<open>Chains of nodes\<close>

text \<open>
  \<open>chain h pv p as q\<close>: from \<open>p\<close> on, the nodes are those at the addresses \<open>as\<close>; the first
  one's \<open>prev\<close> is \<open>pv\<close>, the last one's \<open>next\<close> is \<open>q\<close>.
\<close>

fun chain :: "store \<Rightarrow> ptr \<Rightarrow> ptr \<Rightarrow> nat list \<Rightarrow> ptr \<Rightarrow> bool" where
  "chain h pv p [] q \<longleftrightarrow> p = q"
| "chain h pv p (a # as) q \<longleftrightarrow>
     p = Some a \<and>
     (case cell h a of
        None \<Rightarrow> False
      | Some n \<Rightarrow> nd_prev n = pv \<and> chain h (Some a) (nd_next n) as q)"

definition vals :: "store \<Rightarrow> nat list \<Rightarrow> int list" where
  "vals h as = map (\<lambda>a. nd_data (the (cell h a))) as"

definition last_ptr :: "nat list \<Rightarrow> ptr" where
  "last_ptr as = (if as = [] then None else Some (last as))"

definition list_ok :: "store \<Rightarrow> linked_list \<Rightarrow> nat list \<Rightarrow> bool" where
  "list_ok h l as \<longleftrightarrow>
     chain h None (ll_head l) as None \<and> distinct as \<and> ll_tail l = last_ptr as"

lemma cell_update [simp]: "cell (h[a := c]) b = (if a = b \<and> a < length h then c else cell h b)"
  by (simp add: cell_def)

lemma cell_append1 [simp]:
  "cell (h @ [c]) b = (if b = length h then c else cell h b)"
  by (auto simp: cell_def nth_append)

lemma cell_Some_less: "cell h a = Some n \<Longrightarrow> a < length h"
  by (simp add: cell_def split: if_splits)

lemma chain_live: "chain h pv p as q \<Longrightarrow> a \<in> set as \<Longrightarrow> a < length h \<and> cell h a \<noteq> None"
  by (induction as arbitrary: pv p) (auto split: option.splits dest: cell_Some_less)

lemma chain_frame:
  assumes "\<And>a. a \<in> set as \<Longrightarrow> cell h' a = cell h a"
  shows "chain h' pv p as q = chain h pv p as q"
  using assms by (induction as arbitrary: pv p) (auto split: option.splits)

lemma vals_frame:
  assumes "\<And>a. a \<in> set as \<Longrightarrow> cell h' a = cell h a"
  shows "vals h' as = vals h as"
  using assms by (simp add: vals_def)

lemma vals_append [simp]: "vals h (as @ bs) = vals h as @ vals h bs"
  by (simp add: vals_def)

lemma vals_Cons [simp]: "vals h (a # as) = nd_data (the (cell h a)) # vals h as"
  by (simp add: vals_def)

lemma vals_Nil [simp]: "vals h [] = []"
  by (simp add: vals_def)

lemma chain_append:
  "chain h pv p (as @ bs) q \<longleftrightarrow>
     (\<exists>r. chain h pv p as r \<and> chain h (if as = [] then pv else Some (last as)) r bs q)"
  by (induction as arbitrary: pv p) (auto split: option.splits)

lemma chain_end_unique: "chain h pv p as q \<Longrightarrow> chain h pv p as r \<Longrightarrow> as \<noteq> [] \<Longrightarrow> q = r"
  by (induction as arbitrary: pv p) (auto split: option.splits, metis chain.simps(1))

lemma chain_mid:
  "chain h pv p (as @ a # bs) q \<longleftrightarrow>
     (\<exists>n. cell h a = Some n \<and> chain h pv p as (Some a) \<and>
          nd_prev n = (if as = [] then pv else Some (last as)) \<and> chain h (Some a) (nd_next n) bs q)"
  by (auto simp: chain_append split: option.splits)

lemma chain_head: "chain h pv p as q \<Longrightarrow> p = (if as = [] then q else Some (hd as))"
  by (cases as) auto

text \<open>Redirecting the last \<open>next\<close> and the first \<open>prev\<close> of a chain.\<close>

lemma chain_set_next:
  assumes "chain h pv p (as @ [a]) q" and "a \<notin> set as" and "cell h a = Some n"
  shows "chain (h[a := Some (n\<lparr>nd_next := r\<rparr>)]) pv p (as @ [a]) r"
proof -
  have "chain (h[a := Some (n\<lparr>nd_next := r\<rparr>)]) pv p as (Some a) = chain h pv p as (Some a)"
    using assms(2) by (intro chain_frame) auto
  with assms(1,3) cell_Some_less [OF assms(3)] show ?thesis by (simp add: chain_mid)
qed

lemma chain_set_prev:
  assumes "chain h pv p (b # bs) q" and "b \<notin> set bs" and "cell h b = Some n"
  shows "chain (h[b := Some (n\<lparr>nd_prev := r\<rparr>)]) r p (b # bs) q"
proof -
  have "chain (h[b := Some (n\<lparr>nd_prev := r\<rparr>)]) (Some b) (nd_next n) bs q =
        chain h (Some b) (nd_next n) bs q"
    using assms(2) by (intro chain_frame) auto
  with assms(1,3) cell_Some_less [OF assms(3)] show ?thesis by simp
qed

text \<open>The first node of a chain with a given value, the specification of \<open>Search\<close>.\<close>

fun first_with :: "store \<Rightarrow> int \<Rightarrow> nat list \<Rightarrow> ptr" where
  "first_with h val [] = None"
| "first_with h val (a # as) =
     (if nd_data (the (cell h a)) = val then Some a else first_with h val as)"

text \<open>\<open>Display\<close> follows \<open>next\<close> only: what the \<open>prev\<close> pointers hold does not matter to it.\<close>

lemma Display_loop_next:
  assumes "chain h pv p as None"
    and "\<And>a n. a \<in> set as \<Longrightarrow> cell h a = Some n \<Longrightarrow>
           \<exists>n'. cell h' a = Some n' \<and> nd_next n' = nd_next n \<and> nd_data n' = nd_data n"
  shows "LinkedList_Display_loop h' p = Some (Inr (concat (map (\<lambda>v. [CInt v, CStr tab]) (vals h as))))"
  using assms
proof (induction as arbitrary: pv p)
  case Nil
  then show ?case by (simp add: LinkedList_Display_loop.simps [of _ None])
next
  case (Cons a as)
  then obtain n where n: "p = Some a" "cell h a = Some n" "chain h (Some a) (nd_next n) as None"
    by (auto split: option.splits)
  from Cons.prems(2) [OF _ n(2)] obtain n' where
    "cell h' a = Some n'" "nd_next n' = nd_next n" "nd_data n' = nd_data n" by auto
  with Cons.IH [OF n(3)] Cons.prems(2) n show ?case
    by (simp add: LinkedList_Display_loop.simps [of h' "Some a"])
qed

definition shown :: "int list \<Rightarrow> (cpp_error + cout list) option" where
  "shown vs = Some (Inr (concat (map (\<lambda>v. [CInt v, CStr tab]) vs) @ [CEndl]))"

lemma Display_chain:
  "chain h None (ll_head l) as None \<Longrightarrow> LinkedList_Display h l = shown (vals h as)"
  using Display_loop_next [of h None "ll_head l" as h] by (simp add: LinkedList_Display_def shown_def)

lemma Search_loop_chain:
  "chain h pv p as None \<Longrightarrow> LinkedList_Search_loop h p val = Some (Inr (first_with h val as))"
proof (induction as arbitrary: pv p)
  case Nil
  then show ?case by (simp add: LinkedList_Search_loop.simps [of h None])
next
  case (Cons a as)
  then obtain n where "p = Some a" "cell h a = Some n" "chain h (Some a) (nd_next n) as None"
    by (auto split: option.splits)
  with Cons.IH [of "Some a" "nd_next n"] show ?case
    by (simp add: LinkedList_Search_loop.simps [of h "Some a"])
qed

text \<open>The first node that holds a value, by its place in the list of addresses.\<close>

lemma first_with_cases:
  "case first_with h val as of
     None \<Rightarrow> val \<notin> set (vals h as)
   | Some a \<Rightarrow> \<exists>i < length as. a = as ! i \<and> vals h as ! i = val \<and> (\<forall>j < i. vals h as ! j \<noteq> val)"
proof (induction as)
  case (Cons a as)
  show ?case
  proof (cases "nd_data (the (cell h a)) = val")
    case False
    show ?thesis
    proof (cases "first_with h val as")
      case None
      with Cons False show ?thesis by (auto simp: vals_def)
    next
      case (Some b)
      with Cons obtain i where "i < length as" "b = as ! i" "vals h as ! i = val" "\<forall>j < i. vals h as ! j \<noteq> val" by auto
      with Some False show ?thesis
        by (auto simp: vals_def nth_Cons' intro!: exI [of _ "Suc i"])
    qed
  qed (auto simp: vals_def)
qed (simp add: vals_def)

lemma dtor_chain:
  "chain h pv p as None \<Longrightarrow> LinkedList_dtor_loop h p = (if as = [] then Inr h else Inl (Undefined InvalidFree))"
  by (cases as) (auto simp: release_with_def release_def split: option.splits dest: cell_Some_less)

lemma list_ok_cong:
  assumes "\<And>a. a \<in> set as \<Longrightarrow> cell h' a = cell h a"
  shows "list_ok h' l as = list_ok h l as"
  using chain_frame [OF assms] by (simp add: list_ok_def)

section \<open>PushBack\<close>

lemma PushBack_empty:
  assumes "ll_head l = None"
  shows "LinkedList_PushBack h l v =
    Inr (h @ [Some \<lparr>nd_data = v, nd_next = None, nd_prev = None\<rparr>],
         l\<lparr>ll_head := Some (length h), ll_tail := Some (length h)\<rparr>)"
  using assms by (simp add: LinkedList_PushBack_def new_Node_def Node_ctor_def Let_def)

lemma PushBack_nonempty:
  assumes "ll_head l \<noteq> None" and "ll_tail l = Some t" and "cell h t = Some n"
  shows "LinkedList_PushBack h l v =
    Inr (h[t := Some (n\<lparr>nd_next := Some (length h)\<rparr>)] @
           [Some \<lparr>nd_data = v, nd_next = None, nd_prev = Some t\<rparr>],
         l\<lparr>ll_tail := Some (length h)\<rparr>)"
  using assms cell_Some_less [OF assms(3)]
  by (auto simp: LinkedList_PushBack_def new_Node_def Node_ctor_def list_update_append Let_def)

lemma PushBack_ok:
  assumes "list_ok h l as"
  shows "\<exists>h' l'. LinkedList_PushBack h l v = Inr (h', l') \<and>
           list_ok h' l' (as @ [length h]) \<and> vals h' (as @ [length h]) = vals h as @ [v] \<and>
           ll_head l' = (if as = [] then Some (length h) else ll_head l) \<and>
           (\<forall>a. a < length h \<longrightarrow> a \<notin> set as \<longrightarrow> cell h' a = cell h a)"
proof (cases as rule: rev_cases)
  case Nil
  with assms show ?thesis by (auto simp: list_ok_def last_ptr_def PushBack_empty)
next
  case (snoc bs t)
  from assms snoc obtain n where c: "chain h None (ll_head l) (bs @ [t]) None" "cell h t = Some n"
    and d: "t \<notin> set bs" "distinct bs" "ll_tail l = Some t"
    by (auto simp: list_ok_def last_ptr_def chain_mid)
  have hd: "ll_head l \<noteq> None" using chain_head [OF c(1)] by auto
  have fresh: "\<And>a. a \<in> set (bs @ [t]) \<Longrightarrow> a < length h" using chain_live [OF c(1)] by blast
  define g where "g = h[t := Some (n\<lparr>nd_next := Some (length h)\<rparr>)]"
  define h' where "h' = g @ [Some \<lparr>nd_data = v, nd_next = None, nd_prev = Some t\<rparr>]"
  have lg [simp]: "length g = length h" by (simp add: g_def)
  have "chain g None (ll_head l) (bs @ [t]) (Some (length h))"
    unfolding g_def by (rule chain_set_next [OF c(1) d(1) c(2)])
  then have "chain h' None (ll_head l) (bs @ [t]) (Some (length h))"
    using fresh by (subst chain_frame [of _ _ g]) (auto simp: h'_def)
  then have "chain h' None (ll_head l) (as @ [length h]) None"
    unfolding chain_append [of h' _ _ as] using snoc by (auto simp: h'_def)
  moreover have "vals h' as = vals h as"
    unfolding vals_def snoc using fresh c(2) d by (auto simp: h'_def g_def)
  moreover have "LinkedList_PushBack h l v = Inr (h', l\<lparr>ll_tail := Some (length h)\<rparr>)"
    unfolding h'_def g_def by (rule PushBack_nonempty [OF hd d(3) c(2)])
  ultimately show ?thesis using d fresh snoc
    by (auto simp: list_ok_def last_ptr_def h'_def g_def)
qed

section \<open>InsertAfter, DeteleAt and Union\<close>

lemma InsertAfter_tail:
  assumes "cell h a = Some n" and "nd_next n = None"
  shows "LinkedList_InsertAfter h (Some a) v =
    Inr (Some (length h),
         h[a := Some (n\<lparr>nd_next := Some (length h)\<rparr>)] @
           [Some \<lparr>nd_data = v, nd_next = None, nd_prev = Some a\<rparr>])"
  using assms cell_Some_less [OF assms(1)]
  by (auto simp: LinkedList_InsertAfter_def new_Node_def Node_ctor_def list_update_append Let_def)

lemma InsertAfter_inner:
  assumes "cell h a = Some n" and "nd_next n = Some b" and "cell h b = Some k" and "a \<noteq> b"
  shows "LinkedList_InsertAfter h (Some a) v =
    Inr (Some (length h),
         h[b := Some (k\<lparr>nd_prev := Some (length h)\<rparr>), a := Some (n\<lparr>nd_next := Some (length h)\<rparr>)] @
           [Some \<lparr>nd_data = v, nd_next = Some b, nd_prev = Some a\<rparr>])"
  using assms cell_Some_less [OF assms(1)] cell_Some_less [OF assms(3)]
  by (auto simp: LinkedList_InsertAfter_def new_Node_def Node_ctor_def list_update_append Let_def)

lemma InsertAfter_chain:
  assumes c: "chain h pv p (as @ a # bs) None" and d: "distinct (as @ a # bs)"
  shows "\<exists>h'. LinkedList_InsertAfter h (Some a) v = Inr (Some (length h), h') \<and>
           chain h' pv p (as @ a # length h # bs) None \<and>
           vals h' (as @ a # length h # bs) = vals h (as @ [a]) @ v # vals h bs"
proof -
  from c obtain n where n: "cell h a = Some n" "chain h pv p (as @ [a]) (nd_next n)"
    "chain h (Some a) (nd_next n) bs None" by (auto simp: chain_mid)
  have fresh: "\<And>x. x \<in> set (as @ a # bs) \<Longrightarrow> x < length h" using chain_live [OF c] by blast
  have pre: "chain (h[a := Some (n\<lparr>nd_next := Some (length h)\<rparr>)]) pv p (as @ [a]) (Some (length h))"
    using chain_set_next [OF n(2) _ n(1)] d by auto
  show ?thesis
  proof (cases bs)
    case Nil
    then have "nd_next n = None" using n(3) by simp
    define h' where "h' = h[a := Some (n\<lparr>nd_next := Some (length h)\<rparr>)] @
           [Some \<lparr>nd_data = v, nd_next = None, nd_prev = Some a\<rparr>]"
    have "chain h' pv p (as @ [a]) (Some (length h))"
      using pre fresh unfolding h'_def by (subst chain_frame) auto
    then have "chain h' pv p ((as @ [a]) @ [length h]) None"
      unfolding chain_append [of h' _ _ "as @ [a]"] by (auto simp: h'_def)
    moreover have "vals h' (as @ [a]) = vals h (as @ [a])"
      using fresh n(1) d by (auto simp: vals_def h'_def)
    moreover have "vals h' [length h] = [v]" by (simp add: h'_def)
    ultimately show ?thesis
      using InsertAfter_tail [OF n(1) \<open>nd_next n = None\<close>, of v] Nil unfolding h'_def [symmetric]
      by simp
  next
    case (Cons b cs)
    then obtain k where b: "nd_next n = Some b" "cell h b = Some k" "a \<noteq> b" "b \<notin> set cs"
      using n(3) d by (auto split: option.splits)
    define g where "g = h[b := Some (k\<lparr>nd_prev := Some (length h)\<rparr>)]"
    define h' where "h' = g[a := Some (n\<lparr>nd_next := Some (length h)\<rparr>)] @
           [Some \<lparr>nd_data = v, nd_next = Some b, nd_prev = Some a\<rparr>]"
    have "chain h (Some a) (Some b) (b # cs) None" using n(3) Cons b(1) by simp
    then have "chain g (Some (length h)) (Some b) (b # cs) None"
      unfolding g_def by (rule chain_set_prev [OF _ b(4,2)])
    then have post: "chain h' (Some (length h)) (Some b) (b # cs) None"
      using fresh d Cons by (subst chain_frame [of _ _ g]) (auto simp: h'_def g_def)
    have "chain h' pv p (as @ [a]) (Some (length h))"
      using pre fresh d Cons by (subst chain_frame [of _ _ "h[a := Some (n\<lparr>nd_next := Some (length h)\<rparr>)]"])
        (auto simp: h'_def g_def)
    with post have "chain h' pv p ((as @ [a]) @ length h # b # cs) None"
      unfolding chain_append [of h' _ _ "as @ [a]"] by (auto simp: h'_def g_def)
    moreover have "vals h' (as @ [a]) = vals h (as @ [a])" "vals h' bs = vals h bs"
      using fresh n(1) b d by (auto simp: vals_def h'_def g_def)
    moreover have "vals h' [length h] = [v]" by (simp add: h'_def g_def)
    ultimately show ?thesis
      using InsertAfter_inner [OF n(1) b(1,2,3), of v] Cons
      unfolding h'_def [symmetric] g_def [symmetric] by simp
  qed
qed

lemma DeteleAt_eq:
  assumes "cell h a = Some n"
    and "\<And>b. nd_next n = Some b \<Longrightarrow> b \<noteq> a \<and> cell h b = Some (nx b)"
    and "\<And>b. nd_prev n = Some b \<Longrightarrow> b \<noteq> a \<and> cell h b = Some (pr b) \<and> nd_next n \<noteq> Some b"
  shows "LinkedList_DeteleAt h (Some a) =
    Inr (True,
      let g = (case nd_next n of None \<Rightarrow> h | Some b \<Rightarrow> h[b := Some ((nx b)\<lparr>nd_prev := nd_prev n\<rparr>)])
      in case nd_prev n of None \<Rightarrow> g | Some b \<Rightarrow> g[b := Some ((pr b)\<lparr>nd_next := nd_next n\<rparr>)])"
  using assms by (auto simp: LinkedList_DeteleAt_def Let_def split: option.splits)

text \<open>Unlinking a node that has a predecessor.\<close>

lemma DeteleAt_chain:
  assumes c: "chain h pv p (as @ [x] @ a # bs) None" and d: "distinct (as @ [x] @ a # bs)"
  shows "\<exists>h'. LinkedList_DeteleAt h (Some a) = Inr (True, h') \<and>
           chain h' pv p (as @ [x] @ bs) None \<and> vals h' (as @ [x] @ bs) = vals h (as @ [x] @ bs) \<and>
           cell h' a = cell h a \<and> length h' = length h"
proof -
  from c have c': "chain h pv p ((as @ [x]) @ a # bs) None" by simp
  then obtain n where n: "cell h a = Some n" "nd_prev n = Some x"
    "chain h pv p (as @ [x]) (Some a)" "chain h (Some a) (nd_next n) bs None"
    unfolding chain_mid by auto
  then obtain k where k: "cell h x = Some k" by (auto simp: chain_mid)
  have pre: "chain (h[x := Some (k\<lparr>nd_next := nd_next n\<rparr>)]) pv p (as @ [x]) (nd_next n)"
    using chain_set_next [OF n(3) _ k] d by auto
  show ?thesis
  proof (cases bs)
    case Nil
    with n(4) have "nd_next n = None" by simp
    moreover have "vals (h[x := Some (k\<lparr>nd_next := nd_next n\<rparr>)]) (as @ [x]) = vals h (as @ [x])"
      using d k by (auto simp: vals_def)
    ultimately show ?thesis
      using DeteleAt_eq [of h a n undefined "\<lambda>_. k"] n k d pre Nil by auto
  next
    case (Cons b cs)
    then obtain j where j: "nd_next n = Some b" "cell h b = Some j" "b \<notin> set cs"
      using n(4) d by (auto split: option.splits)
    define g where "g = h[b := Some (j\<lparr>nd_prev := Some x\<rparr>)]"
    define h' where "h' = g[x := Some (k\<lparr>nd_next := Some b\<rparr>)]"
    have "chain h (Some a) (Some b) (b # cs) None" using n(4) Cons j(1) by simp
    then have "chain g (Some x) (Some b) (b # cs) None"
      unfolding g_def by (rule chain_set_prev [OF _ j(3,2)])
    then have "chain h' (Some x) (Some b) (b # cs) None"
      using d Cons by (subst chain_frame [of _ _ g]) (auto simp: h'_def)
    moreover have "chain h' pv p (as @ [x]) (Some b)"
      using pre j(1) d Cons
      by (subst chain_frame [of _ _ "h[x := Some (k\<lparr>nd_next := nd_next n\<rparr>)]"]) (auto simp: h'_def g_def)
    ultimately have "chain h' pv p ((as @ [x]) @ bs) None"
      unfolding chain_append [of h' _ _ "as @ [x]"] Cons by (auto simp del: chain.simps)
    moreover have "vals h' (as @ [x] @ bs) = vals h (as @ [x] @ bs)"
      using d k j by (auto simp: vals_def h'_def g_def)
    moreover have "LinkedList_DeteleAt h (Some a) = Inr (True, h')"
      using DeteleAt_eq [of h a n "\<lambda>_. j" "\<lambda>_. k"] n k j d Cons by (auto simp: h'_def g_def)
    ultimately show ?thesis using d Cons by (auto simp: h'_def g_def)
  qed
qed

text \<open>Joining two chains, as \<open>Union\<close> does.\<close>

lemma Union_chain:
  assumes l1: "list_ok h l1 (as @ [a])" and l2: "list_ok h l2 (b # bs)"
    and dis: "set (as @ [a]) \<inter> set (b # bs) = {}"
  shows "\<exists>h'. LinkedList_Union h (Some l1) (Some l2) = Inr h' \<and>
           chain h' None (ll_head l1) (as @ [a] @ b # bs) None \<and>
           vals h' (as @ [a] @ b # bs) = vals h (as @ [a]) @ vals h (b # bs) \<and>
           chain h' (Some a) (ll_head l2) (b # bs) None"
proof -
  from l1 obtain n where a: "chain h None (ll_head l1) (as @ [a]) None" "a \<notin> set as"
    "cell h a = Some n" "ll_tail l1 = Some a" by (auto simp: list_ok_def last_ptr_def chain_mid)
  from l2 obtain k where b: "chain h None (Some b) (b # bs) None" "b \<notin> set bs"
    "cell h b = Some k" "ll_head l2 = Some b" by (auto simp: list_ok_def split: option.splits)
  define g where "g = h[a := Some (n\<lparr>nd_next := Some b\<rparr>)]"
  define h' where "h' = g[b := Some (k\<lparr>nd_prev := Some a\<rparr>)]"
  have "chain g None (ll_head l1) (as @ [a]) (Some b)"
    unfolding g_def by (rule chain_set_next [OF a(1-3)])
  then have pre: "chain h' None (ll_head l1) (as @ [a]) (Some b)"
    using dis by (subst chain_frame [of _ _ g]) (auto simp: h'_def)
  have "chain g None (Some b) (b # bs) None"
    using b(1) dis by (subst chain_frame [of _ _ h]) (auto simp: g_def)
  moreover have gb: "cell g b = Some k" using b(3) dis by (auto simp: g_def)
  ultimately have post: "chain h' (Some a) (Some b) (b # bs) None"
    unfolding h'_def using b(2) by (intro chain_set_prev)
  with pre have "chain h' None (ll_head l1) ((as @ [a]) @ b # bs) None"
    unfolding chain_append [of h' _ _ "as @ [a]"] by (auto simp del: chain.simps)
  moreover have "vals h' (as @ [a]) = vals h (as @ [a])" "vals h' (b # bs) = vals h (b # bs)"
    using a b dis by (auto simp: vals_def h'_def g_def)
  moreover have "LinkedList_Union h (Some l1) (Some l2) = Inr h'"
    using a b gb cell_Some_less [OF a(3)]
    by (simp add: LinkedList_Back_def LinkedList_Front_def h'_def g_def)
  ultimately show ?thesis using post b(4) by auto
qed

section \<open>The list as an appendable sequence\<close>

text \<open>
  \<open>list_rep h0 (h, l) vs\<close>: on top of the store \<open>h0\<close> a list \<open>l\<close> with the values \<open>vs\<close> has
  been built; its nodes are exactly the cells added to \<open>h0\<close>, the others are untouched.
\<close>

definition list_rep :: "store \<Rightarrow> store \<times> linked_list \<Rightarrow> int list \<Rightarrow> bool" where
  "list_rep h0 s vs \<longleftrightarrow>
     (\<exists>as. list_ok (fst s) (snd s) as \<and> vals (fst s) as = vs \<and> length h0 \<le> length (fst s) \<and>
        set as = {length h0..<length (fst s)} \<and> (\<forall>a < length h0. cell (fst s) a = cell h0 a))"

lemma list_rep_ctor: "list_rep h (h, LinkedList_ctor) []"
  by (auto simp: list_rep_def list_ok_def last_ptr_def LinkedList_ctor_def)

lemma PushBack_length:
  assumes "LinkedList_PushBack h l v = Inr (h', l')" and "list_ok h l as"
  shows "length h' = Suc (length h)"
proof (cases as rule: rev_cases)
  case Nil
  with assms show ?thesis by (auto simp: list_ok_def PushBack_empty)
next
  case (snoc bs t)
  with assms(2) obtain n where "cell h t = Some n" "ll_tail l = Some t" "ll_head l \<noteq> None"
    using chain_head [of h None "ll_head l" as None]
    by (auto simp: list_ok_def last_ptr_def chain_mid)
  with assms(1) PushBack_nonempty [of l t h n v] show ?thesis by auto
qed

interpretation linked_list_seq: appendable "\<lambda>s v. LinkedList_PushBack (fst s) (snd s) v"
    "list_rep h0" for h0
proof (unfold_locales, goal_cases)
  case (1 s vs v)
  then obtain as where as: "list_ok (fst s) (snd s) as" "vals (fst s) as = vs"
    "length h0 \<le> length (fst s)" "set as = {length h0..<length (fst s)}"
    "\<forall>a < length h0. cell (fst s) a = cell h0 a" by (auto simp: list_rep_def)
  from PushBack_ok [OF as(1), of v] obtain h' l' where
    p: "LinkedList_PushBack (fst s) (snd s) v = Inr (h', l')"
    and r: "list_ok h' l' (as @ [length (fst s)])" "vals h' (as @ [length (fst s)]) = vs @ [v]"
    and f: "\<forall>a. a < length (fst s) \<longrightarrow> a \<notin> set as \<longrightarrow> cell h' a = cell (fst s) a"
    using as(2) by auto
  have "list_rep h0 (h', l') (vs @ [v])"
    unfolding list_rep_def using r f as PushBack_length [OF p as(1)]
    by (intro exI [of _ "as @ [length (fst s)]"]) auto
  with p show ?case by simp
qed

section \<open>Properties\<close>

text \<open>
  C22: a list built by any number of \<open>PushBack\<close> calls, in any store, is a well-formed doubly linked chain from \<open>head_\<close> to
  \<open>tail_\<close> with the values in order of insertion; \<open>Display\<close> prints them in this order; \<open>Search\<close> returns
  the first node along the chain that holds the value, or \<open>nullptr\<close> when none does. The destructor has defined behaviour for
  the empty list only: the nodes come from \<open>new Node\<close>, and the first one is given to \<open>delete []\<close>.
\<close>

theorem LinkedList_build_display_destroy:
  "\<exists>h' l as r. foldE (\<lambda>s v. LinkedList_PushBack (fst s) (snd s) v) (h, LinkedList_ctor) vs = Inr (h', l) \<and>
     list_ok h' l as \<and> vals h' as = vs \<and> (\<forall>a < length h. cell h' a = cell h a) \<and>
     LinkedList_Display h' l = shown vs \<and>
     LinkedList_Search h' l val = Some (Inr r) \<and>
     (case r of
        None \<Rightarrow> val \<notin> set vs
      | Some a \<Rightarrow> \<exists>i < length as. a = as ! i \<and> vs ! i = val \<and> (\<forall>j < i. vs ! j \<noteq> val)) \<and>
     LinkedList_dtor h' l = (if vs = [] then Inr h' else Inl (Undefined InvalidFree))"
proof -
  obtain h' l where b: "foldE (\<lambda>s v. LinkedList_PushBack (fst s) (snd s) v) (h, LinkedList_ctor) vs = Inr (h', l)"
    "list_rep h (h', l) vs"
    using linked_list_seq.push_all [OF list_rep_ctor, of h vs] by auto
  then obtain as where as: "list_ok h' l as" "vals h' as = vs" "\<forall>a < length h. cell h' a = cell h a"
    by (auto simp: list_rep_def)
  then have c: "chain h' None (ll_head l) as None" by (auto simp: list_ok_def)
  have "as = [] \<longleftrightarrow> vs = []" using as(2) by (auto simp: vals_def)
  with b(1) as c Display_chain [OF c] Search_loop_chain [OF c, of val] dtor_chain [OF c] first_with_cases [where h = h' and val = val and as = as, unfolded as(2)]
  show ?thesis
    by (intro exI [of _ h'] exI [of _ l] exI [of _ as] exI [of _ "first_with h' val as"])
      (simp add: LinkedList_Search_def LinkedList_dtor_def)
qed

theorem LinkedList_build_display_destroy_witness:
  "\<exists>h' l. foldE (\<lambda>s v. LinkedList_PushBack (fst s) (snd s) v) ([], LinkedList_ctor) [3, 1, 4] = Inr (h', l) \<and>
     LinkedList_Display h' l = shown [3, 1, 4]"
  using LinkedList_build_display_destroy [of "[]" "[3, 1, 4]" 1] by auto

text \<open>
  \<open>InsertAfter\<close> puts the new node right behind the given one, and the list stays well
  formed unless the given node is the last one. \<open>tail_\<close> is not updated then, and the next
  \<open>PushBack\<close> drops the inserted node from the list.
\<close>

theorem LinkedList_InsertAfter_behind:
  assumes "list_ok h l (as @ a # bs)"
  shows "\<exists>h'. LinkedList_InsertAfter h (Some a) v = Inr (Some (length h), h') \<and>
           LinkedList_Display h' l = shown (vals h (as @ [a]) @ v # vals h bs) \<and>
           (bs \<noteq> [] \<longrightarrow> list_ok h' l (as @ a # length h # bs)) \<and>
           (bs = [] \<longrightarrow>
              (\<exists>h'' l'. LinkedList_PushBack h' l w = Inr (h'', l') \<and>
                 LinkedList_Display h'' l' = shown (vals h (as @ [a]) @ [w])))"
proof -
  from assms have c: "chain h None (ll_head l) (as @ a # bs) None" "distinct (as @ a # bs)"
    "ll_tail l = last_ptr (as @ a # bs)" by (auto simp: list_ok_def)
  from InsertAfter_chain [OF c(1,2), of v] obtain h' where
    h': "LinkedList_InsertAfter h (Some a) v = Inr (Some (length h), h')"
    "chain h' None (ll_head l) (as @ a # length h # bs) None"
    "vals h' (as @ a # length h # bs) = vals h (as @ [a]) @ v # vals h bs" by blast
  have fresh: "length h \<notin> set (as @ a # bs)" using chain_live [OF c(1)] by blast
  have "\<exists>h'' l'. LinkedList_PushBack h' l w = Inr (h'', l') \<and>
          LinkedList_Display h'' l' = shown (vals h (as @ [a]) @ [w])" if "bs = []"
  proof -
    from h'(2) that obtain n where n: "cell h' a = Some n" "chain h' None (ll_head l) (as @ [a]) (nd_next n)"
      by (auto simp: chain_mid)
    have hd: "ll_head l \<noteq> None" using chain_head [OF h'(2)] by auto
    define g where "g = h'[a := Some (n\<lparr>nd_next := Some (length h')\<rparr>)] @
        [Some \<lparr>nd_data = w, nd_next = None, nd_prev = Some a\<rparr>]"
    have live: "\<And>x. x \<in> set (as @ [a]) \<Longrightarrow> x < length h'" using chain_live [OF h'(2)] by auto
    have "chain (h'[a := Some (n\<lparr>nd_next := Some (length h')\<rparr>)]) None (ll_head l) (as @ [a]) (Some (length h'))"
      using chain_set_next [OF n(2) _ n(1)] c(2) by auto
    then have "chain g None (ll_head l) (as @ [a]) (Some (length h'))"
      using live unfolding g_def by (subst chain_frame) auto
    then have "chain g None (ll_head l) ((as @ [a]) @ [length h']) None"
      unfolding chain_append [of g _ _ "as @ [a]"] by (auto simp: g_def)
    moreover have "vals g (as @ [a]) = vals h' (as @ [a])" "vals g [length h'] = [w]"
      using live n(1) c(2) by (auto simp: vals_def g_def)
    ultimately have "LinkedList_Display g (l\<lparr>ll_tail := Some (length h')\<rparr>) = shown (vals h (as @ [a]) @ [w])"
      using Display_chain [of g "l\<lparr>ll_tail := Some (length h')\<rparr>" "(as @ [a]) @ [length h']"] h'(3) that
      by simp
    with PushBack_nonempty [OF hd _ n(1), of w] c(3) that show ?thesis
      by (auto simp: g_def last_ptr_def)
  qed
  with h' Display_chain [OF h'(2)] c fresh show ?thesis
    by (auto simp: list_ok_def last_ptr_def)
qed

theorem LinkedList_InsertAfter_behind_witness:
  "\<exists>h'. LinkedList_InsertAfter [Some \<lparr>nd_data = 7, nd_next = None, nd_prev = None\<rparr>] (Some 0) 8 =
     Inr (Some 1, h') \<and> LinkedList_Display h' \<lparr>ll_head = Some 0, ll_tail = Some 0\<rparr> = shown [7, 8]"
  using LinkedList_InsertAfter_behind
    [of "[Some \<lparr>nd_data = 7, nd_next = None, nd_prev = None\<rparr>]" "\<lparr>ll_head = Some 0, ll_tail = Some 0\<rparr>"
      "[]" 0 "[]" 8 9]
  by (auto simp: list_ok_def last_ptr_def cell_def)

text \<open>
  C38: \<open>DeteleAt\<close> unlinks a node that has a predecessor and leaves the list well formed when
  the node is not the last one; the node itself is never released. On the first node
  \<open>head_\<close> keeps pointing to it, and the list still displays the deleted value. On the last
  node \<open>tail_\<close> keeps pointing to it, and a value pushed afterwards is not in the list.
\<close>

theorem LinkedList_DeteleAt_unlinks:
  assumes "list_ok h l (as @ a # bs)"
  shows "\<exists>h'. LinkedList_DeteleAt h (Some a) = Inr (True, h') \<and> cell h' a \<noteq> None \<and>
           (as \<noteq> [] \<longrightarrow> LinkedList_Display h' l = shown (vals h (as @ bs))) \<and>
           (as \<noteq> [] \<longrightarrow> bs \<noteq> [] \<longrightarrow> list_ok h' l (as @ bs)) \<and>
           (as = [] \<longrightarrow> LinkedList_Display h' l = LinkedList_Display h l) \<and>
           (as \<noteq> [] \<longrightarrow> bs = [] \<longrightarrow>
              (\<exists>h'' l'. LinkedList_PushBack h' l w = Inr (h'', l') \<and>
                 LinkedList_Display h'' l' = shown (vals h as)))"
proof (cases as rule: rev_cases)
  case Nil
  from assms Nil have c: "chain h None (ll_head l) (a # bs) None" "distinct (a # bs)"
    by (auto simp: list_ok_def)
  then obtain n where n: "cell h a = Some n" "nd_prev n = None" "chain h (Some a) (nd_next n) bs None"
    by (auto split: option.splits)
  define nx where "nx b = the (cell h b)" for b
  define h' where "h' = (case nd_next n of None \<Rightarrow> h | Some b \<Rightarrow> h[b := Some ((nx b)\<lparr>nd_prev := None\<rparr>)])"
  have nx: "b \<noteq> a \<and> cell h b = Some (nx b)" if "nd_next n = Some b" for b
    using n(3) c(2) that by (cases bs) (auto simp: nx_def split: option.splits)
  have "LinkedList_DeteleAt h (Some a) = Inr (True, h')"
    using DeteleAt_eq [of h a n nx undefined] n nx by (simp add: h'_def split: option.splits)
  moreover have "cell h' a = Some n" using n nx by (auto simp: h'_def split: option.splits)
  moreover have "LinkedList_Display_loop h' (ll_head l) = LinkedList_Display_loop h (ll_head l)"
    using Display_loop_next [OF c(1), of h'] Display_loop_next [OF c(1), of h] nx
    by (force simp: h'_def split: option.splits)
  ultimately show ?thesis using Nil by (simp add: LinkedList_Display_def)
next
  case (snoc bs' x)
  then have c: "chain h None (ll_head l) (bs' @ [x] @ a # bs) None" "distinct (bs' @ [x] @ a # bs)"
    and t: "ll_tail l = Some (last (a # bs))" using assms by (auto simp: list_ok_def last_ptr_def)
  from DeteleAt_chain [OF c] obtain h' where h': "LinkedList_DeteleAt h (Some a) = Inr (True, h')"
    "chain h' None (ll_head l) (bs' @ [x] @ bs) None"
    "vals h' (bs' @ [x] @ bs) = vals h (bs' @ [x] @ bs)" "cell h' a = cell h a" "length h' = length h"
    by blast
  have ca: "cell h a \<noteq> None" using chain_live [OF c(1), of a] by simp
  have "\<exists>h'' l'. LinkedList_PushBack h' l w = Inr (h'', l') \<and>
          LinkedList_Display h'' l' = shown (vals h as)" if e: "bs = []"
  proof -
    from ca h'(4) obtain n where n: "cell h' a = Some n" by auto
    have hd: "ll_head l \<noteq> None" using chain_head [OF c(1)] by auto
    define g where "g = h'[a := Some (n\<lparr>nd_next := Some (length h')\<rparr>)] @
        [Some \<lparr>nd_data = w, nd_next = None, nd_prev = Some a\<rparr>]"
    have same: "cell g y = cell h' y" if "y \<in> set (bs' @ [x])" for y
      using that c(2) chain_live [OF h'(2)] e by (auto simp: g_def)
    have "chain g None (ll_head l) (bs' @ [x]) None"
      using h'(2) e same by (subst chain_frame [of _ _ h']) auto
    moreover have "vals g (bs' @ [x]) = vals h (bs' @ [x])"
      using vals_frame [of "bs' @ [x]" g h'] same h'(3) e by auto
    ultimately have "LinkedList_Display g (l\<lparr>ll_tail := Some (length h')\<rparr>) = shown (vals h as)"
      using Display_chain [of g "l\<lparr>ll_tail := Some (length h')\<rparr>" "bs' @ [x]"] snoc by simp
    with PushBack_nonempty [OF hd _ n, of w] t e show ?thesis by (auto simp: g_def)
  qed
  with h' ca c t snoc Display_chain [OF h'(2)] show ?thesis
    by (auto simp: list_ok_def last_ptr_def)
qed

theorem LinkedList_DeteleAt_unlinks_witness:
  "\<exists>h'. LinkedList_DeteleAt
          [Some \<lparr>nd_data = 7, nd_next = Some 1, nd_prev = None\<rparr>,
           Some \<lparr>nd_data = 8, nd_next = None, nd_prev = Some 0\<rparr>] (Some 1) = Inr (True, h') \<and>
        LinkedList_Display h' \<lparr>ll_head = Some 0, ll_tail = Some 1\<rparr> = shown [7]"
  using LinkedList_DeteleAt_unlinks
    [of "[Some \<lparr>nd_data = 7, nd_next = Some 1, nd_prev = None\<rparr>,
          Some \<lparr>nd_data = 8, nd_next = None, nd_prev = Some 0\<rparr>]"
        "\<lparr>ll_head = Some 0, ll_tail = Some 1\<rparr>" "[0]" 1 "[]" 9]
  by (auto simp: list_ok_def last_ptr_def cell_def)

text \<open>
  C39: \<open>Union\<close> of two non-empty lists makes the first one display both; on an empty list it
  follows a null pointer. Afterwards the nodes of the second list belong to both lists: each of them reaches them from its
  \<open>head_\<close>, and would release them. \<open>tail_\<close> of the first list is not updated: \<open>Back\<close> still gives the node in the middle
  of the joined list.
\<close>

theorem LinkedList_Union_joins:
  assumes "list_ok h l1 as" and "list_ok h l2 bs" and "set as \<inter> set bs = {}"
  shows "if as = [] \<or> bs = []
         then LinkedList_Union h (Some l1) (Some l2) = Inl (Undefined NullDeref)
         else \<exists>h'. LinkedList_Union h (Some l1) (Some l2) = Inr h' \<and>
           chain h' None (ll_head l1) (as @ bs) None \<and> chain h' (Some (last as)) (ll_head l2) bs None \<and>
           LinkedList_Display h' l1 = shown (vals h as @ vals h bs) \<and>
           LinkedList_Display h' l2 = shown (vals h bs) \<and> LinkedList_Back l1 = Some (last as)"
proof (cases "as = [] \<or> bs = []")
  case True
  have "as = [] \<Longrightarrow> ll_tail l1 = None" "bs = [] \<Longrightarrow> ll_head l2 = None"
    using assms by (auto simp: list_ok_def last_ptr_def)
  moreover have "\<exists>t n. ll_tail l1 = Some t \<and> cell h t = Some n" if "as \<noteq> []"
    using assms(1) that chain_live [of h None "ll_head l1" as None "last as"]
    by (auto simp: list_ok_def last_ptr_def)
  ultimately show ?thesis using True
    by (cases "as = []") (auto simp: LinkedList_Back_def LinkedList_Front_def)
next
  case False
  then obtain as' a b bs' where e: "as = as' @ [a]" "bs = b # bs'" by (metis neq_Nil_conv rev_exhaust)
  from Union_chain [of h l1 as' a l2 b bs'] assms e obtain h' where
    u: "LinkedList_Union h (Some l1) (Some l2) = Inr h'"
    "chain h' None (ll_head l1) (as @ bs) None" "vals h' (as @ bs) = vals h as @ vals h bs"
    "chain h' (Some a) (ll_head l2) bs None" by auto
  have "vals h' bs = vals h bs" using u(3) by (simp add: vals_def)
  then have "LinkedList_Display h' l2 = shown (vals h bs)"
    using Display_loop_next [OF u(4), of h'] by (simp add: LinkedList_Display_def shown_def)
  moreover have "LinkedList_Back l1 = Some (last as)" using assms(1) e(1) by (simp add: LinkedList_Back_def list_ok_def last_ptr_def)
  ultimately show ?thesis
    using u Display_chain [OF u(2)] False e(1) by auto
qed

theorem LinkedList_Union_joins_witness:
  "\<exists>h'.
     LinkedList_Union
       [Some \<lparr>nd_data = 7, nd_next = None, nd_prev = None\<rparr>,
        Some \<lparr>nd_data = 8, nd_next = None, nd_prev = None\<rparr>]
       (Some \<lparr>ll_head = Some 0, ll_tail = Some 0\<rparr>) (Some \<lparr>ll_head = Some 1, ll_tail = Some 1\<rparr>) = Inr h' \<and>
     LinkedList_Display h' \<lparr>ll_head = Some 0, ll_tail = Some 0\<rparr> = shown [7, 8]"
  using LinkedList_Union_joins
    [of "[Some \<lparr>nd_data = 7, nd_next = None, nd_prev = None\<rparr>,
          Some \<lparr>nd_data = 8, nd_next = None, nd_prev = None\<rparr>]"
        "\<lparr>ll_head = Some 0, ll_tail = Some 0\<rparr>" "[0]" "\<lparr>ll_head = Some 1, ll_tail = Some 1\<rparr>" "[1]"]
  by (auto simp: list_ok_def last_ptr_def cell_def vals_def)

end
