(* ===== verification/Lru_Cache.thy ===== *)
theory Lru_Cache
  imports Cpp_Prelude
begin

text \<open>
  The two caches of \<open>examples/038_bad_lru_cache.cpp\<close> (\<open>LastUsedCache\<close>: a hash table whose
  records carry a generation number) and \<open>examples/039_good_lru_cache.cpp\<close> (\<open>lru_cache\<close>:
  a hash table whose records carry an iterator into a list of keys).

  A hash table is the list of its entries in iteration order; since a rehash may reorder it,
  \<open>LastUsedCache\<close>, the only client that iterates, takes the reordering as a parameter. A
  generation is a 64-bit word. A node of the \<open>std::list\<close> is a pair of its identity
  and its key; an iterator is that identity, so that using one whose node is gone is an
  outcome of the model. Both caches are related to one abstract recency list, through the
  interface \<open>recency_cache\<close>.
\<close>

section \<open>The hash table\<close>

definition umap_insert :: "('k \<times> 'r) list \<Rightarrow> 'k \<Rightarrow> 'r \<Rightarrow> ('k \<times> 'r) list \<times> bool" where
  "umap_insert m k r = (if map_of m k = None then ((k, r) # m, True) else (m, False))"

definition umap_erase :: "('k \<times> 'r) list \<Rightarrow> 'k \<Rightarrow> ('k \<times> 'r) list" where
  "umap_erase m k = filter (\<lambda>p. fst p \<noteq> k) m"

definition umap_set :: "('k \<times> 'r) list \<Rightarrow> 'k \<Rightarrow> 'r \<Rightarrow> ('k \<times> 'r) list" where
  "umap_set m k r = map (\<lambda>p. if fst p = k then (k, r) else p) m"

text \<open>
  The iteration order after an insertion: \<open>order\<close> proposes one; what is not a reordering of
  the entries is ignored.
\<close>

definition umap_rehash :: "(('k \<times> 'r) list \<Rightarrow> ('k \<times> 'r) list) \<Rightarrow> ('k \<times> 'r) list \<Rightarrow> ('k \<times> 'r) list" where
  "umap_rehash order m = (if mset (order m) = mset m then order m else m)"

section \<open>LastUsedCache\<close>

record 'i record_t =
  rec_data :: 'i
  rec_gen :: "64 word"

record ('k, 'i) last_used_cache =
  luc_cache :: "('k \<times> 'i record_t) list"
  luc_max_size :: size_t
  luc_generation :: "64 word"

definition LastUsedCache_ctor :: "size_t \<Rightarrow> ('k, 'i) last_used_cache" where
  "LastUsedCache_ctor nelems = \<lparr>luc_cache = [], luc_max_size = nelems, luc_generation = 0\<rparr>"

text \<open>\<open>find\<close> with the variable that \<open>item\<close> points to, \<open>None\<close> for a null pointer.\<close>

definition LastUsedCache_find ::
  "('k, 'i) last_used_cache \<Rightarrow> 'k \<Rightarrow> 'i option \<Rightarrow> bool \<times> 'i option" where
  "LastUsedCache_find c key item =
     (case map_of (luc_cache c) key of
        None \<Rightarrow> (False, item)
      | Some r \<Rightarrow> (True, if item \<noteq> None then Some (rec_data r) else None))"

text \<open>The two loops over the table: the least generation, and the removal of the first entry with it.\<close>

fun LastUsedCache_min_gen :: "64 word \<Rightarrow> ('k \<times> 'i record_t) list \<Rightarrow> 64 word" where
  "LastUsedCache_min_gen min_gen [] = min_gen"
| "LastUsedCache_min_gen min_gen (val # m) = LastUsedCache_min_gen (min min_gen (rec_gen (snd val))) m"

fun LastUsedCache_erase_gen :: "64 word \<Rightarrow> ('k \<times> 'i record_t) list \<Rightarrow> ('k \<times> 'i record_t) list" where
  "LastUsedCache_erase_gen min_gen [] = []"
| "LastUsedCache_erase_gen min_gen (val # m) =
     (if rec_gen (snd val) = min_gen then m else val # LastUsedCache_erase_gen min_gen m)"

definition LastUsedCache_insert ::
  "(('k \<times> 'i record_t) list \<Rightarrow> ('k \<times> 'i record_t) list) \<Rightarrow> ('k, 'i) last_used_cache \<Rightarrow> 'k \<Rightarrow> 'i
     \<Rightarrow> ('k, 'i) last_used_cache" where
  "LastUsedCache_insert order c key data =
     (if luc_max_size c \<noteq> 0 then
        let gen = luc_generation c + 1;
            rec = \<lparr>rec_data = data, rec_gen = gen\<rparr>;
            (m, inserted) = umap_insert (luc_cache c) key rec;
            c = c\<lparr>luc_generation := gen\<rparr>
        in
        if inserted then
          let m = umap_rehash order m in
          if length m > unat (luc_max_size c) then
            c\<lparr>luc_cache := LastUsedCache_erase_gen (LastUsedCache_min_gen (- 1) m) m\<rparr>
          else c\<lparr>luc_cache := m\<rparr>
        else
          let gen = luc_generation c + 1 in
          c\<lparr>luc_generation := gen,
            luc_cache := map (\<lambda>p. if fst p = key then (key, (snd p)\<lparr>rec_gen := gen\<rparr>) else p) m\<rparr>
      else c)"

definition LastUsedCache_size :: "('k, 'i) last_used_cache \<Rightarrow> nat" where
  "LastUsedCache_size c = length (luc_cache c)"

definition LastUsedCache_empty :: "('k, 'i) last_used_cache \<Rightarrow> bool" where
  "LastUsedCache_empty c \<longleftrightarrow> LastUsedCache_size c = 0"

definition LastUsedCache_clear :: "('k, 'i) last_used_cache \<Rightarrow> ('k, 'i) last_used_cache" where
  "LastUsedCache_clear c = c\<lparr>luc_cache := []\<rparr>"

section \<open>lru_cache\<close>

record 'i lru_record_t =
  lru_data :: 'i
  lru_it :: nat

record ('k, 'i) lru_cache =
  lru_lru :: "(nat \<times> 'k) list"
  lru_table :: "('k \<times> 'i lru_record_t) list"
  lru_max_size :: size_t
  lru_next_node :: nat

definition lru_cache_ctor :: "size_t \<Rightarrow> ('k, 'i) lru_cache" where
  "lru_cache_ctor nelems = \<lparr>lru_lru = [], lru_table = [], lru_max_size = nelems, lru_next_node = 0\<rparr>"

definition lru_cache_find :: "('k, 'i) lru_cache \<Rightarrow> 'k \<Rightarrow> 'i option \<Rightarrow> bool \<times> 'i option" where
  "lru_cache_find c key item =
     (case map_of (lru_table c) key of
        None \<Rightarrow> (False, item)
      | Some r \<Rightarrow> (True, if item \<noteq> None then Some (lru_data r) else None))"

text \<open>\<open>lru_.erase(it)\<close>\<close>

definition node_erase :: "(nat \<times> 'k) list \<Rightarrow> nat \<Rightarrow> cpp_error + (nat \<times> 'k) list" where
  "node_erase ns it =
     (if it \<in> fst ` set ns then Inr (filter (\<lambda>n. fst n \<noteq> it) ns) else Inl (Undefined UseAfterFree))"

definition lru_cache_insert ::
  "('k, 'i) lru_cache \<Rightarrow> 'k \<Rightarrow> 'i \<Rightarrow> cpp_error + ('k, 'i) lru_cache" where
  "lru_cache_insert c key data =
     (if lru_max_size c \<noteq> 0 then
        let node = lru_next_node c;
            lru = (node, key) # lru_lru c;
            rec = \<lparr>lru_data = data, lru_it = node\<rparr>;
            (m, inserted) = umap_insert (lru_table c) key rec;
            c = c\<lparr>lru_next_node := Suc node\<rparr>
        in
        if inserted then
          if length m > unat (lru_max_size c) then
            let older_key = snd (last lru) in
            Inr (c\<lparr>lru_lru := butlast lru, lru_table := umap_erase m older_key\<rparr>)
          else Inr (c\<lparr>lru_lru := lru, lru_table := m\<rparr>)
        else
          bindE (node_erase lru (lru_it (the (map_of m key)))) (\<lambda>lru.
            Inr (c\<lparr>lru_lru := lru, lru_table := umap_set m key rec\<rparr>))
      else Inr c)"

definition lru_cache_size :: "('k, 'i) lru_cache \<Rightarrow> nat" where
  "lru_cache_size c = length (lru_table c)"

definition lru_cache_empty :: "('k, 'i) lru_cache \<Rightarrow> bool" where
  "lru_cache_empty c \<longleftrightarrow> lru_cache_size c = 0"

definition lru_cache_clear :: "('k, 'i) lru_cache \<Rightarrow> ('k, 'i) lru_cache" where
  "lru_cache_clear c = c\<lparr>lru_table := [], lru_lru := []\<rparr>"

section \<open>The abstract recency list\<close>

text \<open>
  Entries, the most recently inserted key first. \<open>keep old new\<close> is the data a key has after
  it is inserted again.
\<close>

definition recency_insert ::
  "nat \<Rightarrow> ('i \<Rightarrow> 'i \<Rightarrow> 'i) \<Rightarrow> ('k \<times> 'i) list \<Rightarrow> 'k \<Rightarrow> 'i \<Rightarrow> ('k \<times> 'i) list" where
  "recency_insert cap keep xs k d =
     (if cap = 0 then xs
      else case map_of xs k of
        Some old \<Rightarrow> (k, keep old d) # filter (\<lambda>p. fst p \<noteq> k) xs
      | None \<Rightarrow> take cap ((k, d) # xs))"

text \<open>Keys in order of last insertion, the most recent first.\<close>

definition recent :: "'k list \<Rightarrow> 'k list" where
  "recent ks = rev (remdups ks)"

lemma recent_snoc: "recent (ks @ [k]) = k # filter (\<lambda>x. x \<noteq> k) (recent ks)"
proof -
  have "remdups (ks @ [k]) = filter (\<lambda>x. x \<noteq> k) (remdups ks) @ [k]"
    by (induction ks) auto
  then show ?thesis by (simp add: recent_def rev_filter)
qed

lemma distinct_recent: "distinct (recent ks)"
  by (simp add: recent_def)

lemma filter_neq_take:
  assumes "distinct xs"
  shows "take (n - 1) (filter (\<lambda>x. x \<noteq> k) xs) =
         (if k \<in> set (take n xs) then filter (\<lambda>x. x \<noteq> k) (take n xs) else take (n - 1) xs)"
  using assms
proof (induction xs arbitrary: n)
  case (Cons x xs)
  have neq: "k \<notin> set xs \<Longrightarrow> filter (\<lambda>x. x \<noteq> k) (take m xs) = take m xs" for m
    by (auto simp: filter_id_conv dest: in_set_takeD)
  have neq': "k \<notin> set xs \<Longrightarrow> filter (\<lambda>x. x \<noteq> k) xs = xs" by (auto simp: filter_id_conv)
  show ?case
  proof (cases n)
    case (Suc m)
    show ?thesis
      using Cons.IH [of m] Cons.prems neq neq' Suc
      by (cases "x = k"; cases m) (auto split: if_splits)
  qed simp
qed simp

lemma map_fst_filter_neq: "map fst (filter (\<lambda>p. fst p \<noteq> k) xs) = filter (\<lambda>x. x \<noteq> k) (map fst xs)"
  by (induction xs) auto

lemma recency_insert_keys:
  assumes "map fst xs = take cap (recent ks)"
  shows "map fst (recency_insert cap keep xs k d) = take cap (recent (ks @ [k]))"
proof (cases "cap = 0")
  case True
  with assms show ?thesis by (simp add: recency_insert_def)
next
  case False
  then obtain c where c: "cap = Suc c" by (cases cap) auto
  have eq: "map_of xs k = None \<longleftrightarrow> k \<notin> set (take cap (recent ks))"
    by (metis assms image_set map_of_eq_None_iff)
  show ?thesis
    using filter_neq_take [OF distinct_recent [of ks], of cap k] assms eq c
    by (auto simp: recency_insert_def recent_snoc map_fst_filter_neq take_map min_def
        simp flip: take_map split: option.splits)
qed

lemma recency_insert_data:
  assumes "\<And>k v. (k, v) \<in> set xs \<Longrightarrow> map_of (rev kds) k = Some v"
    and "(k', v) \<in> set (recency_insert cap (\<lambda>old new. new) xs k d)" and "cap \<noteq> 0"
  shows "map_of (rev (kds @ [(k, d)])) k' = Some v"
  using assms
  by (fastforce simp: recency_insert_def map_of_eq_None_iff image_iff take_Cons'
      dest!: in_set_takeD split: option.splits if_splits)

section \<open>The interface of a recency cache\<close>

text \<open>
  \<open>rep n c xs\<close>: the cache \<open>c\<close> holds the recency list \<open>xs\<close> and can take \<open>n\<close> more insertions.
\<close>

locale recency_cache =
  fixes insert :: "'c \<Rightarrow> 'k \<Rightarrow> 'i \<Rightarrow> cpp_error + 'c"
    and find :: "'c \<Rightarrow> 'k \<Rightarrow> 'i option \<Rightarrow> bool \<times> 'i option"
    and size :: "'c \<Rightarrow> nat"
    and rep :: "nat \<Rightarrow> 'c \<Rightarrow> ('k \<times> 'i) list \<Rightarrow> bool"
    and cap :: nat
    and keep :: "'i \<Rightarrow> 'i \<Rightarrow> 'i"
  assumes insert_rep: "rep (Suc n) c xs \<Longrightarrow>
      \<exists>c'. insert c k d = Inr c' \<and> rep n c' (recency_insert cap keep xs k d)"
    and find_rep: "rep n c xs \<Longrightarrow> find c k item =
      (case map_of xs k of
         None \<Rightarrow> (False, item)
       | Some v \<Rightarrow> (True, if item \<noteq> None then Some v else None))"
    and size_rep: "rep n c xs \<Longrightarrow> size c = length xs"
begin

lemma insert_all:
  assumes "rep (length kds + n) c []"
  shows "\<exists>c' xs. foldE (\<lambda>c (k, d). insert c k d) c kds = Inr c' \<and> rep n c' xs \<and>
           map fst xs = take cap (recent (map fst kds))"
  using assms
proof (induction kds arbitrary: n rule: rev_induct)
  case Nil
  then show ?case by (auto simp: recent_def)
next
  case (snoc kd kds)
  obtain k d where kd: "kd = (k, d)" by (cases kd)
  from snoc.IH [of "Suc n"] snoc.prems obtain c' xs where
    c': "foldE (\<lambda>c (k, d). insert c k d) c kds = Inr c'" "rep (Suc n) c' xs"
    "map fst xs = take cap (recent (map fst kds))" by auto
  from insert_rep [OF c'(2), of k d] obtain c'' where
    "insert c' k d = Inr c''" "rep n c'' (recency_insert cap keep xs k d)" by blast
  with c' recency_insert_keys [OF c'(3), of keep k d] kd show ?case by (auto simp: foldE_append)
qed

lemma found_iff_recent:
  assumes "rep (length kds) c []"
  shows "\<exists>c'. foldE (\<lambda>c (k, d). insert c k d) c kds = Inr c' \<and>
           (\<forall>k item. fst (find c' k item) \<longleftrightarrow> k \<in> set (take cap (recent (map fst kds)))) \<and>
           size c' = min cap (card (set (map fst kds)))"
proof -
  from insert_all [of kds 0 c] assms obtain c' xs where
    c': "foldE (\<lambda>c (k, d). insert c k d) c kds = Inr c'" "rep 0 c' xs"
    "map fst xs = take cap (recent (map fst kds))" by auto
  have "fst (find c' k item) \<longleftrightarrow> k \<in> set (map fst xs)" for k item
    by (auto simp: find_rep [OF c'(2)] map_of_eq_None_iff split: option.splits)
      (metis fst_conv image_eqI map_of_SomeD)
  moreover have "length xs = min cap (card (set (map fst kds)))"
    by (metis c'(3) length_map length_rev length_take length_remdups_card_conv min.commute recent_def)
  ultimately show ?thesis using c' size_rep [OF c'(2)] by auto
qed

end

text \<open>A cache in which inserting a key again replaces its data.\<close>

locale overwriting_cache = recency_cache insert find size rep cap "\<lambda>old new. new"
  for insert :: "'c \<Rightarrow> 'k \<Rightarrow> 'i \<Rightarrow> cpp_error + 'c"
    and find :: "'c \<Rightarrow> 'k \<Rightarrow> 'i option \<Rightarrow> bool \<times> 'i option"
    and size rep cap
begin

lemma insert_all_data:
  assumes "rep (length kds + n) c []"
  shows "\<exists>c' xs. foldE (\<lambda>c (k, d). insert c k d) c kds = Inr c' \<and> rep n c' xs \<and>
           map fst xs = take cap (recent (map fst kds)) \<and>
           (\<forall>k v. (k, v) \<in> set xs \<longrightarrow> map_of (rev kds) k = Some v)"
  using assms
proof (induction kds arbitrary: n rule: rev_induct)
  case Nil
  then show ?case by (auto simp: recent_def)
next
  case (snoc kd kds)
  obtain k d where kd: "kd = (k, d)" by (cases kd)
  from snoc.IH [of "Suc n"] snoc.prems obtain c' xs where
    c': "foldE (\<lambda>c (k, d). insert c k d) c kds = Inr c'" "rep (Suc n) c' xs"
    "map fst xs = take cap (recent (map fst kds))"
    "\<And>k v. (k, v) \<in> set xs \<Longrightarrow> map_of (rev kds) k = Some v" by auto
  let ?ys = "recency_insert cap (\<lambda>old new. new) xs k d"
  from insert_rep [OF c'(2), of k d] obtain c'' where
    c'': "insert c' k d = Inr c''" "rep n c'' ?ys" by blast
  have "map_of (rev (kds @ [(k, d)])) k' = Some v" if "(k', v) \<in> set ?ys" for k' v
  proof (cases "cap = 0")
    case True
    with c'(3) that show ?thesis by (simp add: recency_insert_def)
  next
    case False
    with recency_insert_data [OF c'(4) that] show ?thesis by blast
  qed
  with c' c'' recency_insert_keys [OF c'(3), of _ k d] kd show ?case
    by (intro exI [of _ c''] exI [of _ ?ys]) (simp add: foldE_append)
qed

lemma find_last_data:
  assumes "rep (length kds) c []"
  shows "\<exists>c'. foldE (\<lambda>c (k, d). insert c k d) c kds = Inr c' \<and>
           (\<forall>k v. find c' k (Some v) =
              (if k \<in> set (take cap (recent (map fst kds))) then (True, map_of (rev kds) k)
               else (False, Some v))) \<and>
           size c' = min cap (card (set (map fst kds)))"
proof -
  from insert_all_data [of kds 0 c] assms obtain c' xs where
    c': "foldE (\<lambda>c (k, d). insert c k d) c kds = Inr c'" "rep 0 c' xs"
    "map fst xs = take cap (recent (map fst kds))"
    "\<forall>k v. (k, v) \<in> set xs \<longrightarrow> map_of (rev kds) k = Some v" by auto
  have "find c' k (Some v) =
     (if k \<in> set (map fst xs) then (True, map_of (rev kds) k) else (False, Some v))" for k v
  proof (cases "map_of xs k")
    case None
    then have "k \<notin> set (map fst xs)" by (simp add: map_of_eq_None_iff)
    with None show ?thesis by (simp add: find_rep [OF c'(2)])
  next
    case (Some w)
    then have "(k, w) \<in> set xs" by (rule map_of_SomeD)
    then have "k \<in> set (map fst xs)" "map_of (rev kds) k = Some w" using c'(4) by force+
    with Some show ?thesis by (simp add: find_rep [OF c'(2)])
  qed
  with c' found_iff_recent [OF assms] show ?thesis by (simp del: set_map)
qed

end

section \<open>Entries in recency order\<close>

text \<open>
  \<open>entries m es\<close>: the table \<open>m\<close> holds the entries \<open>es\<close>, with distinct keys; the order of
  \<open>es\<close> is the order of recency, that of \<open>m\<close> the iteration order.
\<close>

definition entries :: "('k \<times> 'r) list \<Rightarrow> ('k \<times> 'r) list \<Rightarrow> bool" where
  "entries m es \<longleftrightarrow> mset m = mset es \<and> distinct (map fst es)"

lemma entries_map_of: "entries m es \<Longrightarrow> map_of m k = map_of es k"
  by (metis entries_def map_of_eq_Some_iff mset_eq_setD mset_map mset_eq_imp_distinct_iff
      not_Some_eq option.exhaust)

lemma entries_length: "entries m es \<Longrightarrow> length m = length es"
  unfolding entries_def by (metis size_mset)

lemma entries_Cons: "entries m es \<Longrightarrow> map_of es k = None \<Longrightarrow> entries ((k, r) # m) ((k, r) # es)"
  by (auto simp: entries_def map_of_eq_None_iff)

lemma entries_remove:
  "entries m (es @ [e]) \<Longrightarrow> mset m' = mset m - {#e#} \<Longrightarrow> entries m' es"
  by (simp add: entries_def)

lemma filter_neq_id: "k \<notin> set (map fst m) \<Longrightarrow> filter (\<lambda>p. fst p \<noteq> k) m = m"
  by (auto simp: filter_id_conv)

lemma mset_replace:
  assumes "distinct (map fst m)" and "map_of m k = Some r"
  shows "mset (map (\<lambda>p. if fst p = k then (k, f (snd p)) else p) m) =
         add_mset (k, f r) (filter_mset (\<lambda>p. fst p \<noteq> k) (mset m))"
  using assms
proof (induction m)
  case (Cons p m)
  show ?case
  proof (cases "fst p = k")
    case True
    then have "k \<notin> set (map fst m)" "snd p = r" using Cons.prems by (cases p; auto)+
    moreover from this(1) have "map (\<lambda>p. if fst p = k then (k, f (snd p)) else p) m = m"
      by (intro map_idI) auto
    ultimately show ?thesis using True filter_neq_id [of k m]
      by (simp flip: mset_filter)
  next
    case False
    with Cons show ?thesis by (cases p) auto
  qed
qed simp

lemma entries_distinct: "entries m es \<Longrightarrow> distinct (map fst m)"
  by (metis entries_def mset_eq_imp_distinct_iff mset_map)

lemma entries_replace:
  assumes "entries m es" and "map_of es k = Some r"
  shows "entries (map (\<lambda>p. if fst p = k then (k, f (snd p)) else p) m)
           ((k, f r) # filter (\<lambda>p. fst p \<noteq> k) es)"
  using mset_replace [of m k r f] entries_distinct [OF assms(1)] entries_map_of [OF assms(1), of k] assms
  by (auto simp: entries_def map_fst_filter_neq)

text \<open>The recency list that a list of entries stands for.\<close>

definition view :: "('r \<Rightarrow> 'i) \<Rightarrow> ('k \<times> 'r) list \<Rightarrow> ('k \<times> 'i) list" where
  "view dat es = map (\<lambda>p. (fst p, dat (snd p))) es"

lemma map_of_view: "map_of (view dat es) k = map_option dat (map_of es k)"
  by (induction es) (auto simp: view_def)

lemma length_view [simp]: "length (view dat es) = length es"
  by (simp add: view_def)

lemma view_filter: "view dat (filter (\<lambda>p. fst p \<noteq> k) es) = filter (\<lambda>p. fst p \<noteq> k) (view dat es)"
  by (induction es) (auto simp: view_def)

lemma view_Cons [simp]: "view dat ((k, r) # es) = (k, dat r) # view dat es"
  by (simp add: view_def)

section \<open>LastUsedCache keeps the recency list\<close>

definition newer :: "('k \<times> 'i record_t) list \<Rightarrow> bool" where
  "newer es \<longleftrightarrow> sorted_wrt (\<lambda>p q. rec_gen (snd q) < rec_gen (snd p)) es"

definition luc_rep :: "size_t \<Rightarrow> nat \<Rightarrow> ('k, 'i) last_used_cache \<Rightarrow> ('k \<times> 'i) list \<Rightarrow> bool" where
  "luc_rep nelems n c xs \<longleftrightarrow>
     luc_max_size c = nelems \<and> unat (luc_generation c) + 2 * n < 2 ^ 64 \<and>
     (\<exists>es. entries (luc_cache c) es \<and> newer es \<and> length es \<le> unat nelems \<and> view rec_data es = xs \<and>
        (\<forall>p \<in> set es. rec_gen (snd p) \<le> luc_generation c))"

lemma min_gen_least:
  "LastUsedCache_min_gen g m \<in> insert g ((\<lambda>p. rec_gen (snd p)) ` set m) \<and>
   LastUsedCache_min_gen g m \<le> g \<and> (\<forall>p \<in> set m. LastUsedCache_min_gen g m \<le> rec_gen (snd p))"
proof (induction m arbitrary: g)
  case (Cons a m)
  from Cons.IH [of "min g (rec_gen (snd a))"] show ?case
    by (cases "g \<le> rec_gen (snd a)") (auto simp: min_def)
qed simp

lemma erase_gen_unique:
  assumes "e \<in> set m" and "\<And>p. p \<in> set m \<Longrightarrow> rec_gen (snd p) = rec_gen (snd e) \<Longrightarrow> p = e"
  shows "mset (LastUsedCache_erase_gen (rec_gen (snd e)) m) = mset m - {#e#}"
  using assms
proof (induction m)
  case (Cons p m)
  show ?case
  proof (cases "rec_gen (snd p) = rec_gen (snd e)")
    case True
    with Cons.prems(2) [of p] show ?thesis by simp
  next
    case False
    with Cons show ?thesis by auto
  qed
qed simp

lemma newer_snoc: "newer (es @ [e]) \<longleftrightarrow> newer es \<and> (\<forall>p \<in> set es. rec_gen (snd e) < rec_gen (snd p))"
  by (auto simp: newer_def sorted_wrt_append)

text \<open>The two loops remove the entry with the least generation, the last one.\<close>

lemma evict_oldest:
  assumes "entries m (es @ [e])" and "newer (es @ [e])"
  shows "entries (LastUsedCache_erase_gen (LastUsedCache_min_gen (- 1) m) m) es"
proof -
  have set: "set m = set (es @ [e])" using assms(1) unfolding entries_def by (metis mset_eq_setD)
  let ?g = "LastUsedCache_min_gen (- 1) m"
  have le: "?g \<le> rec_gen (snd p)" if "p \<in> set m" for p using min_gen_least [of "- 1" m] that by blast
  have "?g = rec_gen (snd e)"
  proof (cases "?g = - 1")
    case True
    with le [of e] set show ?thesis by (simp add: word_order.extremum_unique)
  next
    case False
    then obtain p where "p \<in> set m" "?g = rec_gen (snd p)" using min_gen_least [of "- 1" m] by auto
    with le [of e] set assms(2) show ?thesis by (auto simp: newer_snoc)
  qed
  moreover have "mset (LastUsedCache_erase_gen (rec_gen (snd e)) m) = mset m - {#e#}"
    using set assms(2) by (intro erase_gen_unique) (auto simp: newer_snoc)
  ultimately show ?thesis using entries_remove [OF assms(1)] by simp
qed

lemma luc_rep_ctor: "2 * n < 2 ^ 64 \<Longrightarrow> luc_rep nelems n (LastUsedCache_ctor nelems) []"
  by (auto simp: luc_rep_def LastUsedCache_ctor_def entries_def newer_def view_def)

lemma gen_fresh:
  assumes "unat (g :: 64 word) + 1 < 2 ^ 64" and "x \<le> g"
  shows "x < g + 1" "unat (g + 1) = unat g + 1"
proof -
  have "g \<noteq> - 1" using assms(1) by (auto simp: unat_minus1_size_t)
  then show "unat (g + 1) = unat g + 1" using unat_plus1_size_t [of g] by simp
  then show "x < g + 1" using assms(2) by (simp add: word_less_nat_alt word_le_nat_alt)
qed

lemma newer_Cons: "newer (e # es) \<longleftrightarrow> newer es \<and> (\<forall>p \<in> set es. rec_gen (snd p) < rec_gen (snd e))"
  by (auto simp: newer_def)

lemma newer_filter: "newer es \<Longrightarrow> newer (filter P es)"
  by (simp add: newer_def sorted_wrt_filter)

lemma luc_insert_new:
  assumes n: "nelems \<noteq> 0" "luc_max_size c = nelems"
    and es: "entries (luc_cache c) es" "newer es" "length es \<le> unat nelems"
    and g: "unat (luc_generation c) + 1 < 2 ^ 64" "\<forall>p \<in> set es. rec_gen (snd p) \<le> luc_generation c"
    and k: "map_of es k = None"
  shows "\<exists>es'. entries (luc_cache (LastUsedCache_insert order c k d)) es' \<and> newer es' \<and>
      length es' \<le> unat nelems \<and>
      view rec_data es' = take (unat nelems) ((k, d) # view rec_data es) \<and>
      (\<forall>p \<in> set es'. rec_gen (snd p) \<le> luc_generation c + 1) \<and>
      luc_generation (LastUsedCache_insert order c k d) = luc_generation c + 1 \<and>
      luc_max_size (LastUsedCache_insert order c k d) = nelems"
proof -
  define e where "e = (k, \<lparr>rec_data = d, rec_gen = luc_generation c + 1\<rparr>)"
  define m where "m = umap_rehash order (e # luc_cache c)"
  have ent: "entries m (e # es)"
    using entries_Cons [OF es(1) k, of "snd e"] 
    by (simp add: entries_def m_def e_def umap_rehash_def)
  have new: "newer (e # es)" using es(2) g gen_fresh [OF g(1)] by (auto simp: newer_Cons e_def)
  have gle: "\<forall>p \<in> set (e # es). rec_gen (snd p) \<le> luc_generation c + 1"
    using g(2) gen_fresh [OF g(1)] by (auto simp: e_def order.strict_implies_order)
  have len: "length m = Suc (length es)" using entries_length [OF ent] by simp
  have "map_of (luc_cache c) k = None" using k entries_map_of [OF es(1)] by simp
  then have ins: "LastUsedCache_insert order c k d =
      c\<lparr>luc_generation := luc_generation c + 1,
        luc_cache := if length m > unat nelems
          then LastUsedCache_erase_gen (LastUsedCache_min_gen (- 1) m) m else m\<rparr>"
    using n by (simp add: LastUsedCache_insert_def umap_insert_def Let_def m_def e_def)
  show ?thesis
  proof (cases "length m > unat nelems")
    case False
    with ins ent new gle len n(2) show ?thesis by (intro exI [of _ "e # es"]) (simp add: e_def)
  next
    case True
    have view_e: "view rec_data (e # es) = (k, d) # view rec_data es" by (simp add: e_def)
    obtain fs f where f: "e # es = fs @ [f]" by (metis list.distinct(1) rev_exhaust)
    have "length (e # es) = Suc (length fs)" using f by simp
    then have fs: "length fs = unat nelems" using True len es(3) by simp
    then have "take (unat nelems) (view rec_data (e # es)) = view rec_data fs" unfolding f by (simp add: view_def)
    moreover have "length fs \<le> unat nelems" using fs by simp
    ultimately show ?thesis
      using ins True evict_oldest [of m fs f] ent new gle [unfolded f] f n(2) view_e
      by (intro exI [of _ fs]) (auto simp: newer_snoc simp flip: e_def)
  qed
qed

lemma luc_insert_again:
  assumes n: "nelems \<noteq> 0" "luc_max_size c = nelems"
    and es: "entries (luc_cache c) es" "newer es" "length es \<le> unat nelems"
    and g: "unat (luc_generation c) + 2 < 2 ^ 64" "\<forall>p \<in> set es. rec_gen (snd p) \<le> luc_generation c"
    and k: "map_of es k = Some r"
  shows "\<exists>es'. entries (luc_cache (LastUsedCache_insert order c k d)) es' \<and> newer es' \<and>
      length es' \<le> unat nelems \<and>
      view rec_data es' = (k, rec_data r) # filter (\<lambda>p. fst p \<noteq> k) (view rec_data es) \<and>
      (\<forall>p \<in> set es'. rec_gen (snd p) \<le> luc_generation c + 1 + 1) \<and>
      luc_generation (LastUsedCache_insert order c k d) = luc_generation c + 1 + 1 \<and>
      luc_max_size (LastUsedCache_insert order c k d) = nelems"
proof -
  define gen where "gen = luc_generation c + 1 + 1"
  have g1: "unat (luc_generation c + 1) = unat (luc_generation c) + 1"
    using gen_fresh(2) [of "luc_generation c" 0] g(1) by simp
  have fresh: "x \<le> luc_generation c \<Longrightarrow> x < gen" for x
    using gen_fresh(1) [of "luc_generation c + 1" x] gen_fresh(1) [of "luc_generation c" x] g(1) g1
    by (auto simp: gen_def order.strict_implies_order simp del: add.assoc)
  let ?es = "(k, r\<lparr>rec_gen := gen\<rparr>) # filter (\<lambda>p. fst p \<noteq> k) es"
  have "map_of (luc_cache c) k = Some r" using k entries_map_of [OF es(1)] by simp
  then have ins: "LastUsedCache_insert order c k d =
      c\<lparr>luc_generation := gen,
        luc_cache := map (\<lambda>p. if fst p = k then (k, (snd p)\<lparr>rec_gen := gen\<rparr>) else p) (luc_cache c)\<rparr>"
    using n by (simp add: LastUsedCache_insert_def umap_insert_def Let_def gen_def)
  have "entries (luc_cache (LastUsedCache_insert order c k d)) ?es"
    using entries_replace [OF es(1) k, of "\<lambda>r. r\<lparr>rec_gen := gen\<rparr>"] by (simp add: ins)
  moreover have "newer ?es" using fresh g(2) es(2) newer_filter [of es] by (auto simp: newer_Cons)
  moreover have "length ?es \<le> unat nelems"
  proof -
    obtain p where "p \<in> set es" "fst p = k" using map_of_SomeD [OF k] by force
    then have "length (filter (\<lambda>p. fst p \<noteq> k) es) < length es" by (auto intro: length_filter_less)
    then show ?thesis using es(3) by simp
  qed
  moreover have "\<forall>p \<in> set ?es. rec_gen (snd p) \<le> gen" using fresh g(2) by (auto simp: order.strict_implies_order)
  ultimately show ?thesis using ins n(2) unfolding gen_def [symmetric]
    by (intro exI [of _ ?es]) (auto simp: view_filter)
qed

lemma luc_insert_rep:
  assumes "luc_rep nelems (Suc n) c xs"
  shows "luc_rep nelems n (LastUsedCache_insert order c k d)
           (recency_insert (unat nelems) (\<lambda>old new. old) xs k d)"
proof (cases "nelems = 0")
  case True
  with assms show ?thesis
    by (auto simp: luc_rep_def LastUsedCache_insert_def recency_insert_def)
next
  case False
  then have n0: "unat nelems \<noteq> 0" by (simp add: unat_eq_zero)
  from assms obtain es where es: "luc_max_size c = nelems" "entries (luc_cache c) es" "newer es"
    "length es \<le> unat nelems" "view rec_data es = xs"
    "\<forall>p \<in> set es. rec_gen (snd p) \<le> luc_generation c"
    and g: "unat (luc_generation c) + 2 * Suc n < 2 ^ 64" by (auto simp: luc_rep_def)
  have g1: "unat (luc_generation c + 1) = unat (luc_generation c) + 1"
    using gen_fresh(2) [of "luc_generation c" 0] g by simp
  have g2: "unat (luc_generation c + 1 + 1) = unat (luc_generation c) + 2"
    using gen_fresh(2) [of "luc_generation c + 1" 0] g g1 by simp
  show ?thesis
  proof (cases "map_of es k")
    case None
    with luc_insert_new [OF False es(1-4) _ es(6) None, of order d] g g1 n0 es(5) map_of_view [of rec_data es k]
    show ?thesis by (auto simp: luc_rep_def recency_insert_def)
  next
    case (Some r)
    with luc_insert_again [OF False es(1-4) _ es(6) Some, of order d] g n0 es(5) map_of_view [of rec_data es k]
      g2 show ?thesis by (auto simp: luc_rep_def recency_insert_def simp del: add.assoc)
  qed
qed

interpretation last_used: recency_cache
  "\<lambda>c k d. Inr (LastUsedCache_insert order c k d)" LastUsedCache_find LastUsedCache_size
  "luc_rep nelems" "unat nelems" "\<lambda>old new. old" for order nelems
proof (unfold_locales, goal_cases)
  case (1 n c xs k d)
  from luc_insert_rep [OF 1] show ?case by simp
next
  case (2 n c xs k item)
  then obtain es where "entries (luc_cache c) es" "view rec_data es = xs" by (auto simp: luc_rep_def)
  then show ?case using entries_map_of [of "luc_cache c" es k] map_of_view [of rec_data es k]
    by (auto simp: LastUsedCache_find_def split: option.splits)
next
  case (3 n c xs)
  then show ?case by (auto simp: luc_rep_def LastUsedCache_size_def dest: entries_length)
qed

section \<open>lru_cache keeps the recency list\<close>

definition lru_rep :: "size_t \<Rightarrow> nat \<Rightarrow> ('k, 'i) lru_cache \<Rightarrow> ('k \<times> 'i) list \<Rightarrow> bool" where
  "lru_rep nelems n c xs \<longleftrightarrow>
     lru_max_size c = nelems \<and>
     (\<exists>es. entries (lru_table c) es \<and> length es \<le> unat nelems \<and> view lru_data es = xs \<and>
        lru_lru c = map (\<lambda>p. (lru_it (snd p), fst p)) es \<and>
        distinct (map (\<lambda>p. lru_it (snd p)) es) \<and> (\<forall>p \<in> set es. lru_it (snd p) < lru_next_node c))"

lemma lru_repI:
  assumes "lru_max_size c = nelems" "entries (lru_table c) es" "length es \<le> unat nelems"
    "lru_lru c = map (\<lambda>p. (lru_it (snd p), fst p)) es"
    "distinct (map (\<lambda>p. lru_it (snd p)) es)" "\<forall>p \<in> set es. lru_it (snd p) < lru_next_node c"
    "xs = view lru_data es"
  shows "lru_rep nelems n c xs"
  using assms by (auto simp: lru_rep_def)

lemma lru_rep_ctor: "lru_rep nelems n (lru_cache_ctor nelems) []"
  by (auto simp: lru_rep_def lru_cache_ctor_def entries_def view_def)

lemma entries_erase_last:
  assumes "entries m (es @ [e])"
  shows "entries (umap_erase m (fst e)) es"
proof -
  have "filter (\<lambda>p. fst p \<noteq> fst e) (es @ [e]) = es"
    using assms filter_neq_id [of "fst e" es] by (simp add: entries_def)
  then have "filter_mset (\<lambda>p. fst p \<noteq> fst e) (mset m) = mset es"
    using assms unfolding entries_def by (metis mset_filter)
  with assms show ?thesis by (simp add: entries_def umap_erase_def)
qed

lemma nodes_filter:
  assumes "distinct (map (\<lambda>p. lru_it (snd p)) es)" and "distinct (map fst es)" and "map_of es k = Some r"
  shows "filter (\<lambda>n. fst n \<noteq> lru_it r) (map (\<lambda>p. (lru_it (snd p), fst p)) es) =
         map (\<lambda>p. (lru_it (snd p), fst p)) (filter (\<lambda>p. fst p \<noteq> k) es)"
proof -
  have "(k, r) \<in> set es" using assms(3) by (rule map_of_SomeD)
  then have "lru_it (snd p) = lru_it r \<longleftrightarrow> fst p = k" if "p \<in> set es" for p
    using assms(1,2) that by (metis (mono_tags, lifting) distinct_map fst_conv inj_onD snd_conv)
  then have "filter (\<lambda>p. lru_it (snd p) \<noteq> lru_it r) es = filter (\<lambda>p. fst p \<noteq> k) es"
    by (intro filter_cong) auto
  then show ?thesis by (simp add: filter_map comp_def)
qed

lemma lru_insert_new:
  assumes n: "nelems \<noteq> 0" and r: "lru_max_size c = nelems" "entries (lru_table c) es" "length es \<le> unat nelems"
    and l: "lru_lru c = map (\<lambda>p. (lru_it (snd p), fst p)) es"
    "distinct (map (\<lambda>p. lru_it (snd p)) es)" "\<forall>p \<in> set es. lru_it (snd p) < lru_next_node c"
    and k: "map_of es k = None"
  shows "\<exists>c'. lru_cache_insert c k d = Inr c' \<and>
           lru_rep nelems m c' (take (unat nelems) ((k, d) # view lru_data es))"
proof -
  define e where "e = (k, \<lparr>lru_data = d, lru_it = lru_next_node c\<rparr>)"
  have ent: "entries (e # lru_table c) (e # es)" using entries_Cons [OF r(2) k] by (simp add: e_def)
  have len: "length (lru_table c) = length es" using entries_length [OF r(2)] .
  have lru: "(lru_next_node c, k) # lru_lru c = map (\<lambda>p. (lru_it (snd p), fst p)) (e # es)"
    by (simp add: l(1) e_def)
  have its: "distinct (map (\<lambda>p. lru_it (snd p)) (e # es))"
    "\<forall>p \<in> set (e # es). lru_it (snd p) < Suc (lru_next_node c)"
    using l(2,3) by (auto simp: e_def)
  have none: "map_of (lru_table c) k = None" using k entries_map_of [OF r(2)] by simp
  have view_e: "view lru_data (e # es) = (k, d) # view lru_data es" by (simp add: e_def)
  show ?thesis
  proof (cases "length es < unat nelems")
    case True
    then have "lru_cache_insert c k d =
        Inr (c\<lparr>lru_next_node := Suc (lru_next_node c),
               lru_lru := (lru_next_node c, k) # lru_lru c, lru_table := e # lru_table c\<rparr>)"
      using n r(1) none len by (simp add: lru_cache_insert_def umap_insert_def Let_def e_def)
    with True ent its lru view_e r(1) show ?thesis
      by (auto simp: lru_rep_def simp del: list.map set_simps(2) intro!: exI [of _ "e # es"])
  next
    case False
    obtain fs f where f: "e # es = fs @ [f]" by (metis list.distinct(1) rev_exhaust)
    have lfs: "length fs = unat nelems"
      using f False r(3) by (metis diff_Suc_1 le_antisym length_Cons length_append_singleton not_le)
    have "lru_cache_insert c k d =
        Inr (c\<lparr>lru_next_node := Suc (lru_next_node c),
               lru_lru := butlast ((lru_next_node c, k) # lru_lru c),
               lru_table := umap_erase (e # lru_table c) (snd (last ((lru_next_node c, k) # lru_lru c)))\<rparr>)"
      using n r(1) none len False by (simp add: lru_cache_insert_def umap_insert_def Let_def e_def)
    moreover have "take (unat nelems) ((k, d) # view lru_data es) = view lru_data fs"
      unfolding view_e [symmetric] f using lfs by (simp add: view_def)
    ultimately show ?thesis
      using ent its lfs entries_erase_last [of "e # lru_table c" fs f] r(1)
      unfolding lru f by (auto intro!: lru_repI [where es = fs])
  qed
qed

lemma lru_insert_again:
  assumes n: "nelems \<noteq> 0" and r: "lru_max_size c = nelems" "entries (lru_table c) es" "length es \<le> unat nelems"
    and l: "lru_lru c = map (\<lambda>p. (lru_it (snd p), fst p)) es"
    "distinct (map (\<lambda>p. lru_it (snd p)) es)" "\<forall>p \<in> set es. lru_it (snd p) < lru_next_node c"
    and k: "map_of es k = Some q"
  shows "\<exists>c'. lru_cache_insert c k d = Inr c' \<and>
           lru_rep nelems m c' ((k, d) # filter (\<lambda>p. fst p \<noteq> k) (view lru_data es))"
proof -
  define rec where "rec = \<lparr>lru_data = d, lru_it = lru_next_node c\<rparr>"
  let ?es = "(k, rec) # filter (\<lambda>p. fst p \<noteq> k) es"
  have q: "(k, q) \<in> set es" using k by (rule map_of_SomeD)
  have some: "map_of (lru_table c) k = Some q" using k entries_map_of [OF r(2)] by simp
  have old: "lru_it q \<noteq> lru_next_node c" "lru_it q \<in> fst ` set (lru_lru c)"
    using q l(1,3) by force+
  have "filter (\<lambda>n. fst n \<noteq> lru_it q) ((lru_next_node c, k) # lru_lru c) =
        map (\<lambda>p. (lru_it (snd p), fst p)) ?es"
    using nodes_filter [OF l(2) _ k] r(2) old(1) by (simp add: l(1) rec_def entries_def)
  then have ins: "lru_cache_insert c k d =
      Inr (c\<lparr>lru_next_node := Suc (lru_next_node c),
             lru_lru := map (\<lambda>p. (lru_it (snd p), fst p)) ?es,
             lru_table := umap_set (lru_table c) k rec\<rparr>)"
    using n r(1) some old
    by (simp add: lru_cache_insert_def umap_insert_def Let_def node_erase_def rec_def)
  have "entries (umap_set (lru_table c) k rec) ?es"
    using entries_replace [OF r(2) k, of "\<lambda>_. rec"] by (simp add: umap_set_def)
  moreover have "length ?es \<le> unat nelems"
    using q r(3) length_filter_less [of "(k, q)" es "\<lambda>p. fst p \<noteq> k"] by simp
  moreover have "distinct (map (\<lambda>p. lru_it (snd p)) ?es)"
    "\<forall>p \<in> set ?es. lru_it (snd p) < Suc (lru_next_node c)"
    using l(2,3) by (auto simp: rec_def distinct_map_filter)
  moreover have "view lru_data ?es = (k, d) # filter (\<lambda>p. fst p \<noteq> k) (view lru_data es)"
    by (simp add: view_filter rec_def)
  ultimately show ?thesis using ins r(1)
    by (auto intro!: lru_repI [where es = ?es] simp del: list.map set_simps(2))
qed

interpretation lru: overwriting_cache lru_cache_insert lru_cache_find lru_cache_size
  "lru_rep nelems" "unat nelems" for nelems
proof (unfold_locales, goal_cases)
  case (1 n c xs k d)
  then obtain es where r: "lru_max_size c = nelems" "entries (lru_table c) es" "length es \<le> unat nelems"
    "lru_lru c = map (\<lambda>p. (lru_it (snd p), fst p)) es"
    "distinct (map (\<lambda>p. lru_it (snd p)) es)" "\<forall>p \<in> set es. lru_it (snd p) < lru_next_node c"
    and xs: "view lru_data es = xs" by (auto simp: lru_rep_def)
  show ?case
  proof (cases "nelems = 0")
    case True
    with 1 show ?thesis by (auto simp: lru_rep_def lru_cache_insert_def recency_insert_def)
  next
    case False
    then have "unat nelems \<noteq> 0" by (simp add: unat_eq_zero)
    with lru_insert_new [OF False r, of k d n] lru_insert_again [OF False r, of k _ d n]
      xs map_of_view [of lru_data es k] show ?thesis
      by (cases "map_of es k") (auto simp: recency_insert_def)
  qed
next
  case (2 n c xs k item)
  then obtain es where "entries (lru_table c) es" "view lru_data es = xs" by (auto simp: lru_rep_def)
  then show ?case using entries_map_of [of "lru_table c" es k] map_of_view [of lru_data es k]
    by (auto simp: lru_cache_find_def split: option.splits)
next
  case (3 n c xs)
  then show ?case by (auto simp: lru_rep_def lru_cache_size_def dest: entries_length)
qed

section \<open>Properties\<close>

text \<open>
  C19: after any sequence of insertions, \<open>lru_cache(nelems)\<close> holds exactly the \<open>nelems\<close> most
  recently inserted distinct keys (all of them when there are fewer), \<open>find\<close> gives the
  data of the last insertion of the key and leaves \<open>*item\<close> alone when the key is absent; no
  insertion uses an iterator whose node is gone.
\<close>

theorem lru_cache_keeps_most_recent:
  "\<exists>c. foldE (\<lambda>c (k, d). lru_cache_insert c k d) (lru_cache_ctor nelems) kds = Inr c \<and>
     (\<forall>k v. lru_cache_find c k (Some v) =
        (if k \<in> set (take (unat nelems) (recent (map fst kds))) then (True, map_of (rev kds) k)
         else (False, Some v))) \<and>
     lru_cache_size c = min (unat nelems) (card (set (map fst kds)))"
  by (rule lru.find_last_data [OF lru_rep_ctor])

text \<open>
  C23: as long as the 64-bit generation counter has room (two generations an insertion),
  \<open>LastUsedCache(nelems)\<close> too holds exactly the \<open>nelems\<close> most recently inserted distinct
  keys, whatever the iteration order of the hash table.
\<close>

theorem LastUsedCache_keeps_most_recent:
  assumes "2 * length kds < 2 ^ 64"
  shows "\<exists>c. foldE (\<lambda>c (k, d). Inr (LastUsedCache_insert order c k d)) (LastUsedCache_ctor nelems) kds = Inr c \<and>
     (\<forall>k item. fst (LastUsedCache_find c k item) \<longleftrightarrow>
        k \<in> set (take (unat nelems) (recent (map fst kds)))) \<and>
     LastUsedCache_size c = min (unat nelems) (card (set (map fst kds)))"
  by (rule last_used.found_iff_recent [OF luc_rep_ctor [OF assms]])

theorem LastUsedCache_keeps_most_recent_witness:
  "\<exists>c. foldE (\<lambda>c (k, d). Inr (LastUsedCache_insert rev c k d)) (LastUsedCache_ctor 2)
         [(1 :: nat, ''a''), (2, ''b''), (1, ''c''), (3, ''d'')] = Inr c \<and>
     fst (LastUsedCache_find c 1 None) \<and> \<not> fst (LastUsedCache_find c 2 None)"
  using LastUsedCache_keeps_most_recent
    [of "[(1 :: nat, ''a''), (2, ''b''), (1, ''c''), (3, ''d'')]" rev 2]
  by (auto simp: recent_def)

text \<open>
  where the two caches differ: inserting a key that \<open>LastUsedCache\<close> already holds makes
  it the most recent one but keeps the old data; the new data is dropped.
\<close>

theorem LastUsedCache_insert_drops_data:
  assumes "luc_rep nelems (Suc n) c xs" and "map_of xs k = Some old"
  shows "LastUsedCache_find (LastUsedCache_insert order c k new) k (Some v) = (True, Some old) \<and>
         luc_rep nelems n (LastUsedCache_insert order c k new)
           ((k, old) # filter (\<lambda>p. fst p \<noteq> k) xs)"
proof -
  have "unat nelems \<noteq> 0" using assms by (cases "unat nelems") (auto simp: luc_rep_def view_def)
  then have "luc_rep nelems n (LastUsedCache_insert order c k new) ((k, old) # filter (\<lambda>p. fst p \<noteq> k) xs)"
    using luc_insert_rep [OF assms(1), of order k new] assms(2) by (simp add: recency_insert_def)
  with last_used.find_rep [OF this] show ?thesis by simp
qed

theorem LastUsedCache_insert_drops_data_witness:
  "LastUsedCache_find
     (LastUsedCache_insert id (LastUsedCache_insert id (LastUsedCache_ctor 2) (1 :: nat) ''a'') 1 ''b'')
     1 (Some ''z'') = (True, Some ''a'')"
proof -
  have "luc_rep 2 (Suc 0) (LastUsedCache_insert id (LastUsedCache_ctor 2) (1 :: nat) ''a'') [(1, ''a'')]"
    using luc_insert_rep [of 2 "Suc 0" "LastUsedCache_ctor 2" "[]" id "1 :: nat" "''a''"]
      luc_rep_ctor [of "Suc (Suc 0)" 2] by (simp add: recency_insert_def)
  from LastUsedCache_insert_drops_data [OF this, of 1 "''a''"] show ?thesis by simp
qed

end
