(* ===== verification/Cpp_String.thy ===== *)
theory Cpp_String
  imports Cpp_Prelude
begin

text \<open>
  The parts of \<open>std::string\<close> and of the conversion functions that the network code uses:
  \<open>find\<close>, \<open>substr\<close>, \<open>std::stoi\<close>, \<open>std::to_string\<close>, the conversion of a character buffer
  to a string, and the two idioms that strip trailing CR and LF. A string is a list of bytes.
\<close>

section \<open>Searching\<close>

fun find_at :: "string \<Rightarrow> string \<Rightarrow> nat \<Rightarrow> nat option" where
  "find_at pat [] i = (if pat = [] then Some i else None)"
| "find_at pat (c # cs) i =
     (if take (length pat) (c # cs) = pat then Some i else find_at pat cs (Suc i))"

text \<open>\<open>s.find(pat, pos)\<close>; \<open>None\<close> is \<open>npos\<close>.\<close>

definition str_find :: "string \<Rightarrow> string \<Rightarrow> nat \<Rightarrow> nat option" where
  "str_find s pat pos = (if pos \<le> length s then find_at pat (drop pos s) pos else None)"

text \<open>\<open>s.substr(pos, n)\<close>; the count \<open>None\<close> is \<open>npos\<close>.\<close>

definition str_substr :: "string \<Rightarrow> nat \<Rightarrow> nat option \<Rightarrow> cpp_error + string" where
  "str_substr s pos n =
     (if pos \<le> length s then
        Inr (case n of None \<Rightarrow> drop pos s | Some k \<Rightarrow> take k (drop pos s))
      else Inl (Throw ''std::out_of_range''))"

lemma find_at_split:
  assumes "\<And>j. j < length a \<Longrightarrow> take (length pat) (drop j (a @ pat @ b)) \<noteq> pat"
  shows "find_at pat (a @ pat @ b) i = Some (i + length a)"
  using assms
proof (induction a arbitrary: i)
  case Nil
  have "take (length pat) (pat @ b) = pat" by simp
  then show ?case by (cases "pat @ b") (auto simp del: take_append)
next
  case (Cons c cs)
  have "take (length pat) (drop 0 ((c # cs) @ pat @ b)) \<noteq> pat"
    by (rule Cons.prems) simp
  moreover have "find_at pat (cs @ pat @ b) (Suc i) = Some (Suc i + length cs)"
  proof (rule Cons.IH)
    fix j assume "j < length cs"
    with Cons.prems [of "Suc j"] show "take (length pat) (drop j (cs @ pat @ b)) \<noteq> pat" by simp
  qed
  ultimately show ?case by (cases pat) auto
qed

lemma find_at_Some:
  "find_at pat s i = Some k \<Longrightarrow> i \<le> k \<and> k - i \<le> length s \<and> take (length pat) (drop (k - i) s) = pat"
proof (induction s arbitrary: i)
  case Nil
  then show ?case by (auto split: if_splits)
next
  case (Cons c cs)
  show ?case
  proof (cases "take (length pat) (c # cs) = pat")
    case True
    with Cons.prems show ?thesis by simp
  next
    case False
    with Cons.prems Cons.IH [of "Suc i"] have "Suc i \<le> k \<and> k - Suc i \<le> length cs \<and>
      take (length pat) (drop (k - Suc i) cs) = pat" by simp
    moreover from this have "k - i = Suc (k - Suc i)" by linarith
    ultimately show ?thesis by simp
  qed
qed

lemma find_at_char_None: "c \<notin> set s \<Longrightarrow> find_at [c] s i = None"
  by (induction s arbitrary: i) auto

lemma find_at_split_char:
  assumes "hd pat \<notin> set a" "pat \<noteq> []"
  shows "find_at pat (a @ pat @ b) i = Some (i + length a)"
proof (rule find_at_split)
  fix j assume "j < length a"
  then have "drop j (a @ pat @ b) = a ! j # drop (Suc j) a @ pat @ b" by (simp add: Cons_nth_drop_Suc)
  moreover have "a ! j \<noteq> hd pat" using assms(1) nth_mem [OF \<open>j < length a\<close>] by auto
  ultimately show "take (length pat) (drop j (a @ pat @ b)) \<noteq> pat" using assms(2) by (cases pat) auto
qed

section \<open>Numbers\<close>

definition is_digit :: "char \<Rightarrow> bool" where
  "is_digit c \<longleftrightarrow> 48 \<le> (of_char c :: nat) \<and> (of_char c :: nat) \<le> 57"

definition is_space :: "char \<Rightarrow> bool" where
  "is_space c \<longleftrightarrow> c = CHR 0x20 \<or> 9 \<le> (of_char c :: nat) \<and> (of_char c :: nat) \<le> 13"

definition digit_val :: "char \<Rightarrow> int" where
  "digit_val c = of_char c - 48"

definition digits_val :: "string \<Rightarrow> int" where
  "digits_val ds = foldl (\<lambda>a d. 10 * a + digit_val d) 0 ds"

text \<open>\<open>std::stoi(s)\<close>: leading spaces, a sign, digits; what follows them is ignored.\<close>

definition stoi :: "string \<Rightarrow> cpp_error + int" where
  "stoi s =
     (let t = dropWhile is_space s;
          neg = (t \<noteq> [] \<and> hd t = CHR ''-'');
          u = (if t \<noteq> [] \<and> (hd t = CHR ''-'' \<or> hd t = CHR ''+'') then tl t else t);
          ds = takeWhile is_digit u;
          v = (if neg then - digits_val ds else digits_val ds)
      in if ds = [] then Inl (Throw ''std::invalid_argument'')
         else if in_int_range v then Inr v
         else Inl (Throw ''std::out_of_range''))"

fun nat_to_string :: "nat \<Rightarrow> string" where
  "nat_to_string n =
     (if n < 10 then [char_of (48 + n)] else nat_to_string (n div 10) @ [char_of (48 + n mod 10)])"

declare nat_to_string.simps [simp del]

definition to_string :: "int \<Rightarrow> string" where
  "to_string i = (if i < 0 then CHR ''-'' # nat_to_string (nat (- i)) else nat_to_string (nat i))"

lemma of_char_digit: "(n :: nat) < 10 \<Longrightarrow> (of_char (char_of (48 + n) :: char) :: nat) = 48 + n"
  by (simp add: of_char_of)

lemma is_digit_char_of: "(n :: nat) < 10 \<Longrightarrow> is_digit (char_of (48 + n))"
  by (simp add: is_digit_def of_char_digit)

lemma digit_val_char_of: "(n :: nat) < 10 \<Longrightarrow> digit_val (char_of (48 + n)) = int n"
proof -
  assume "n < 10"
  then have "(of_char (char_of (48 + n) :: char) :: nat) = 48 + n" by (rule of_char_digit)
  then have "(of_char (char_of (48 + n) :: char) :: int) = int (48 + n)"
    by (metis of_char_def of_nat_of_char)
  then show ?thesis by (simp add: digit_val_def)
qed

lemma nat_to_string_digits: "list_all is_digit (nat_to_string n)"
  by (induction n rule: nat_to_string.induct) (subst nat_to_string.simps, auto simp: is_digit_char_of)

lemma nat_to_string_nonempty [simp]: "nat_to_string n \<noteq> []"
  by (subst nat_to_string.simps) simp

lemma digits_val_snoc: "digits_val (ds @ [d]) = 10 * digits_val ds + digit_val d"
  by (simp add: digits_val_def)

lemma digits_val_nat_to_string: "digits_val (nat_to_string n) = int n"
proof (induction n rule: nat_to_string.induct)
  case (1 n)
  show ?case
  proof (cases "n < 10")
    case True
    then show ?thesis by (subst nat_to_string.simps) (simp add: digits_val_def digit_val_char_of)
  next
    case False
    have "digits_val (nat_to_string n) = 10 * int (n div 10) + int (n mod 10)"
      using False 1 by (subst nat_to_string.simps)
        (simp add: digits_val_snoc digit_val_char_of)
    then show ?thesis using div_mult_mod_eq [of n 10] by (metis mult.commute of_nat_add of_nat_mult of_nat_numeral)
  qed
qed

lemma is_digit_not_space: "is_digit c \<Longrightarrow> \<not> is_space c \<and> c \<noteq> CHR ''-'' \<and> c \<noteq> CHR ''+''"
  by (auto simp: is_digit_def is_space_def)

lemma stoi_digits:
  assumes "ds \<noteq> []" "list_all is_digit ds" "rest = [] \<or> \<not> is_digit (hd rest)"
  shows "stoi (ds @ rest) =
    (if digits_val ds \<le> INT_MAX then Inr (digits_val ds) else Inl (Throw ''std::out_of_range''))"
proof -
  obtain d ds' where ds: "ds = d # ds'" using assms(1) by (cases ds) auto
  have d: "is_digit d" using assms(2) ds by simp
  have tw: "takeWhile is_digit (ds @ rest) = ds"
    using assms(2,3) by (cases rest) (auto simp: list_all_iff takeWhile_append)
  have pos: "0 \<le> digits_val ds"
    using assms(2)
  proof (induction ds rule: rev_induct)
    case (snoc x xs)
    then show ?case by (auto simp: digits_val_snoc digit_val_def is_digit_def)
      (metis add_increasing2 diff_ge_0_iff_ge mult_nonneg_nonneg of_nat_of_char of_nat_le_iff of_nat_numeral zero_le_numeral)
  qed (simp add: digits_val_def)
  show ?thesis
    using is_digit_not_space [OF d] tw pos ds by (simp add: stoi_def Let_def in_int_range_def)
qed

lemma stoi_to_string:
  assumes "in_int_range i" and "rest = [] \<or> \<not> is_digit (hd rest)"
  shows "stoi (to_string i @ rest) = Inr i"
proof (cases "i < 0")
  case False
  then show ?thesis
    using assms stoi_digits [of "nat_to_string (nat i)" rest] nat_to_string_digits
    by (simp add: to_string_def digits_val_nat_to_string in_int_range_def)
next
  case True
  let ?ds = "nat_to_string (nat (- i))"
  have tw: "takeWhile is_digit (?ds @ rest) = ?ds"
    using nat_to_string_digits [of "nat (- i)"] assms(2)
    by (cases rest) (auto simp: list_all_iff takeWhile_append)
  have "dropWhile is_space (CHR ''-'' # ?ds @ rest) = CHR ''-'' # ?ds @ rest"
    by (simp add: is_space_def)
  with tw True assms(1) show ?thesis
    by (simp add: stoi_def to_string_def Let_def digits_val_nat_to_string)
qed

section \<open>Buffers and trailing line ends\<close>

text \<open>
  \<open>while (s.back() == '\r' || s.back() == '\n') s.pop_back();\<close>, also written with
  \<open>s[s.size() - 1]\<close>. On the empty string both read outside of it, which is undefined;
  \<open>oob = None\<close> is that reading. Under \<open>oob = Some c\<close> the implementation finds the byte \<open>c\<close>
  there and goes on.
\<close>

function strip_crlf :: "char option \<Rightarrow> string \<Rightarrow> cpp_error + string" where
  "strip_crlf oob s =
     (if s = [] then
        (case oob of
           None \<Rightarrow> Inl (Undefined OutOfBoundsRead)
         | Some c \<Rightarrow> if is_crlf c then Inl (Undefined PopBackEmpty) else Inr [])
      else if is_crlf (last s) then strip_crlf oob (butlast s)
      else Inr s)"
  by pat_completeness auto
termination
  by (relation "measure (\<lambda>(oob, s). length s)") auto

declare strip_crlf.simps [simp del]

lemma rstrip_Nil [simp]: "rstrip [] = []"
  by (simp add: rstrip_def)

lemma rstrip_snoc: "rstrip (s @ [c]) = (if is_crlf c then rstrip s else s @ [c])"
  by (simp add: rstrip_def)

lemma strip_crlf_rstrip:
  "strip_crlf oob s = (if rstrip s = [] then strip_crlf oob [] else Inr (rstrip s))"
proof (induction s rule: rev_induct)
  case Nil
  then show ?case by simp
next
  case (snoc c s)
  then show ?case by (subst strip_crlf.simps) (simp add: rstrip_snoc)
qed

lemma strip_crlf_Nil:
  "strip_crlf None [] = Inl (Undefined OutOfBoundsRead)"
  "\<not> is_crlf c \<Longrightarrow> strip_crlf (Some c) [] = Inr []"
  by (simp_all add: strip_crlf.simps)

lemma strip_crlf_plain: "s \<noteq> [] \<Longrightarrow> \<not> is_crlf (last s) \<Longrightarrow> strip_crlf oob s = Inr s"
  by (simp add: strip_crlf.simps)

text \<open>
  \<open>char buf[cap]; r = read(.., buf, sizeof(buf)); buf[r] = '\0'; std::string tmp(buf)\<close>: the
  write of the terminator is outside the buffer when it was filled; the string ends at the
  first zero byte.
\<close>

definition terminated_buf :: "nat \<Rightarrow> string \<Rightarrow> cpp_error + string" where
  "terminated_buf cap bytes =
     (if length bytes < cap then Inr (takeWhile (\<lambda>c. c \<noteq> CHR 0x00) bytes)
      else Inl (Undefined OutOfBoundsWrite))"

section \<open>The host of a URL\<close>

text \<open>The position \<open>npos\<close> is the largest \<open>size_t\<close>, and takes part in the arithmetic.\<close>

definition pos_word :: "nat option \<Rightarrow> size_t" where
  "pos_word p = (case p of None \<Rightarrow> - 1 | Some k \<Rightarrow> of_nat k)"

text \<open>
  The steps by which \<open>make_query\<close> of \<open>http_client.cpp\<close> and \<open>sync_http_full\<close> of \<open>asio/main.cpp\<close> cut the
  host out of a URL.
\<close>

definition url_host :: "string \<Rightarrow> cpp_error + string" where
  "url_host url =
     (case str_find url ''//'' 0 of
        None \<Rightarrow> Inl (Throw ''bad query'')
      | Some pos \<Rightarrow>
          bindE (str_substr url (pos + 2) (Some (unat (pos_word (str_find url ''/'' (pos + 2)) - of_nat pos - 2))))
            (\<lambda>host. if host = [] then Inl (Throw ''bad query'') else Inr host))"

lemma url_host_between:
  assumes "CHR ''/'' \<notin> set scheme" "CHR ''/'' \<notin> set host" "host \<noteq> []" "rest = [] \<or> hd rest = CHR ''/''"
    and "length (scheme @ ''//'' @ host @ rest) < 2 ^ 63"
  shows "url_host (scheme @ ''//'' @ host @ rest) = Inr host"
proof -
  let ?r = "scheme @ ''//'' @ host @ rest" and ?p = "length scheme"
  have f1: "str_find ?r ''//'' 0 = Some ?p"
    using find_at_split_char [of "''//''" scheme "host @ rest" 0] assms(1) by (simp add: str_find_def)
  have d: "drop (?p + 2) ?r = host @ rest" by simp
  have l: "?p + 2 \<le> length ?r" by simp
  define k where "k = unat (pos_word (str_find ?r ''/'' (?p + 2)) - of_nat ?p - 2)"
  have "take k (host @ rest) = host"
  proof (cases rest)
    case Nil
    have "str_find ?r ''/'' (?p + 2) = None"
      using find_at_char_None [of "CHR ''/''" "host @ rest" "?p + 2"] assms(2) Nil d l by (simp add: str_find_def)
    then have k: "k = unat (- 3 - of_nat ?p :: size_t)" by (simp add: k_def pos_word_def)
    have p: "unat (of_nat ?p :: size_t) = ?p" using assms(5) by (intro unat_of_nat_size_t) simp
    have "k = 2 ^ 64 - 3 - ?p" using assms(5) k by (simp add: unat_sub_if' p)
    with assms(5) Nil show ?thesis by simp
  next
    case (Cons c rest')
    then have "str_find ?r ''/'' (?p + 2) = Some (?p + 2 + length host)"
      using find_at_split_char [of "''/''" host rest' "?p + 2"] assms(2,4) d l by (simp add: str_find_def)
    then have "k = unat (of_nat (length host) :: size_t)" by (simp add: k_def pos_word_def)
    then have "k = length host" using assms(5) by (simp add: unat_of_nat_size_t)
    then show ?thesis by simp
  qed
  then have "str_substr ?r (?p + 2) (Some k) = Inr host" using d l by (simp add: str_substr_def)
  with f1 assms(3) show ?thesis by (simp add: url_host_def k_def)
qed

end
