(* ===== verification/Posix.thy ===== *)
theory Posix
  imports Cpp_String
begin

text \<open>
  The system-call layer under the network programs. The kernel is not part of the program: a
  \<open>world\<close> carries the responses that it will give, in order, and the trace of the calls made
  so far with their responses. A call when no response is left is a call that has not
  returned: the outcome is \<open>Blocked\<close>. So every loop around a system call ends on a
  given script, and a statement about all scripts is a statement about all behaviours of
  the kernel.

  A response is first brought into the documented range of its call (\<open>norm_ret\<close>): \<open>recv\<close>
  and \<open>read\<close> give -1, or a count of bytes that is at most the length of the buffer,
  \<open>send\<close> and \<open>write\<close> -1 or a count of at most what was offered. Messages written to
  the error stream are not modelled, nor is the text of \<open>strerror\<close> in exceptions.
\<close>

section \<open>Calls and responses\<close>

record sys_ret =
  rc :: int
  err :: int
  payload :: string
  marks :: "int list"

datatype sys_call =
    SysResolve string
  | SysSocket
  | SysConnect int string nat
  | SysBind int nat
  | SysListen int nat
  | SysAccept int
  | SysClose int
  | SysSetsockopt int string
  | SysFcntl int string int
  | SysSend int string
  | SysRecv int nat
  | SysPeek int nat
  | SysWrite int string
  | SysRead int nat
  | SysSelect "int list" "int list"
  | SysPoll "(int \<times> int) list"
  | SysEpollCreate
  | SysEpollAdd int int
  | SysEpollMod int int int
  | SysEpollWait int
  | SysSleep nat
  | SysFork

definition count_ret :: "nat \<Rightarrow> sys_ret \<Rightarrow> sys_ret" where
  "count_ret len r =
     (if rc r < 0 then r\<lparr>rc := - 1, payload := []\<rparr>
      else r\<lparr>rc := int (length (take len (payload r))), payload := take len (payload r)\<rparr>)"

fun norm_ret :: "sys_call \<Rightarrow> sys_ret \<Rightarrow> sys_ret" where
  "norm_ret (SysRecv fd len) r = count_ret len r"
| "norm_ret (SysPeek fd len) r = count_ret len r"
| "norm_ret (SysRead fd len) r = count_ret len r"
| "norm_ret (SysSend fd s) r = r\<lparr>rc := if rc r < 0 then - 1 else min (rc r) (int (length s))\<rparr>"
| "norm_ret (SysWrite fd s) r = r\<lparr>rc := if rc r < 0 then - 1 else min (rc r) (int (length s))\<rparr>"
| "norm_ret _ r = r\<lparr>rc := max (- 1) (rc r)\<rparr>"

lemma marks_norm_ret [simp]: "marks (norm_ret c r) = marks r"
  by (cases c) (simp_all add: count_ret_def)

section \<open>Computations\<close>

record world =
  script :: "sys_ret list"
  trace :: "(sys_call \<times> sys_ret) list"

datatype 'a outcome = Ok 'a | Fail cpp_error | Blocked

type_synonym 'a io = "world \<Rightarrow> 'a outcome \<times> world"

definition returnIO :: "'a \<Rightarrow> 'a io" where
  "returnIO x = (\<lambda>w. (Ok x, w))"

definition failIO :: "cpp_error \<Rightarrow> 'a io" where
  "failIO e = (\<lambda>w. (Fail e, w))"

definition bindIO :: "'a io \<Rightarrow> ('a \<Rightarrow> 'b io) \<Rightarrow> 'b io" where
  "bindIO m f = (\<lambda>w.
     case m w of
       (Ok x, w') \<Rightarrow> f x w'
     | (Fail e, w') \<Rightarrow> (Fail e, w')
     | (Blocked, w') \<Rightarrow> (Blocked, w'))"

text \<open>\<open>try { m } catch (const std::exception& e) { h }\<close>: only a C++ exception is caught.\<close>

definition catchIO :: "'a io \<Rightarrow> (string \<Rightarrow> 'a io) \<Rightarrow> 'a io" where
  "catchIO m h = (\<lambda>w.
     case m w of
       (Fail (Throw msg), w') \<Rightarrow> h msg w'
     | r \<Rightarrow> r)"

text \<open>Objects that go out of scope: \<open>fin\<close> runs after \<open>m\<close>, and after an exception from it.\<close>

definition finallyIO :: "'a io \<Rightarrow> unit io \<Rightarrow> 'a io" where
  "finallyIO m fin = (\<lambda>w.
     case m w of
       (Ok x, w') \<Rightarrow> bindIO fin (\<lambda>_. returnIO x) w'
     | (Fail (Throw msg), w') \<Rightarrow> bindIO fin (\<lambda>_. failIO (Throw msg)) w'
     | r \<Rightarrow> r)"

definition liftE :: "cpp_error + 'a \<Rightarrow> 'a io" where
  "liftE r = (case r of Inl e \<Rightarrow> failIO e | Inr x \<Rightarrow> returnIO x)"

definition after_call :: "world \<Rightarrow> sys_ret list \<Rightarrow> sys_call \<times> sys_ret \<Rightarrow> world" where
  "after_call w rs e = w\<lparr>script := rs, trace := trace w @ [e]\<rparr>"

lemma after_call_simps [simp]:
  "script (after_call w rs e) = rs"
  "trace (after_call w rs e) = trace w @ [e]"
  "after_call \<lparr>script = qs, trace = tr\<rparr> rs e = \<lparr>script = rs, trace = tr @ [e]\<rparr>"
  by (simp_all add: after_call_def)

definition syscall :: "sys_call \<Rightarrow> sys_ret io" where
  "syscall c = (\<lambda>w.
     case script w of
       [] \<Rightarrow> (Blocked, w)
     | r # rs \<Rightarrow> (Ok (norm_ret c r), after_call w rs (c, norm_ret c r)))"

definition run :: "'a io \<Rightarrow> sys_ret list \<Rightarrow> 'a outcome \<times> world" where
  "run m rs = m \<lparr>script = rs, trace = []\<rparr>"

fun mapIO :: "('a \<Rightarrow> unit io) \<Rightarrow> 'a list \<Rightarrow> unit io" where
  "mapIO f [] = returnIO ()"
| "mapIO f (x # xs) = bindIO (f x) (\<lambda>_. mapIO f xs)"

section \<open>Weakest preconditions\<close>

text \<open>
  \<open>wp m Q E B w\<close>: from \<open>w\<close>, \<open>m\<close> ends in \<open>Q\<close> with its result, in \<open>E\<close> with its error, or in
  \<open>B\<close> waiting for a system call.
\<close>

definition wp ::
  "'a io \<Rightarrow> ('a \<Rightarrow> world \<Rightarrow> bool) \<Rightarrow> (cpp_error \<Rightarrow> world \<Rightarrow> bool) \<Rightarrow> (world \<Rightarrow> bool) \<Rightarrow> world \<Rightarrow> bool" where
  "wp m Q E B w =
     (case m w of (Ok x, w') \<Rightarrow> Q x w' | (Fail e, w') \<Rightarrow> E e w' | (Blocked, w') \<Rightarrow> B w')"

named_theorems wp_simps

lemma wp_return [wp_simps, simp]: "wp (returnIO x) Q E B = Q x"
  by (rule ext) (simp add: wp_def returnIO_def)

lemma wp_fail [wp_simps, simp]: "wp (failIO e) Q E B = E e"
  by (rule ext) (simp add: wp_def failIO_def)

lemma wp_bind [wp_simps, simp]: "wp (bindIO m f) Q E B = wp m (\<lambda>x. wp (f x) Q E B) E B"
  by (rule ext) (simp add: wp_def bindIO_def split: prod.splits outcome.splits)

lemma wp_catch [wp_simps, simp]:
  "wp (catchIO m h) Q E B w =
     wp m Q (\<lambda>e. case e of Throw msg \<Rightarrow> wp (h msg) Q E B | _ \<Rightarrow> E e) B w"
  by (simp add: wp_def catchIO_def split: prod.splits outcome.splits cpp_error.splits)

lemma wp_finally [wp_simps, simp]:
  "wp (finallyIO m fin) Q E B w =
     wp m (\<lambda>x. wp fin (\<lambda>_. Q x) E B)
       (\<lambda>e. case e of Throw msg \<Rightarrow> wp fin (\<lambda>_. E e) E B | _ \<Rightarrow> E e) B w"
  by (simp add: wp_def finallyIO_def bindIO_def returnIO_def failIO_def
      split: prod.splits outcome.splits cpp_error.splits)

lemma wp_syscall [wp_simps]:
  "wp (syscall c) Q E B w =
     (case script w of
        [] \<Rightarrow> B w
      | r # rs \<Rightarrow> Q (norm_ret c r) (after_call w rs (c, norm_ret c r)))"
  by (simp add: wp_def syscall_def split: list.splits)

lemma wp_liftE [wp_simps, simp]:
  "wp (liftE r) Q E B w = (case r of Inl e \<Rightarrow> E e w | Inr x \<Rightarrow> Q x w)"
  by (simp add: liftE_def split: sum.splits)

lemma wp_if [wp_simps, simp]:
  "wp (if b then m else m') Q E B w = (if b then wp m Q E B w else wp m' Q E B w)"
  by simp

lemma wp_mono:
  assumes "wp m Q E B w" "\<And>x w'. Q x w' \<Longrightarrow> Q' x w'" "\<And>e w'. E e w' \<Longrightarrow> E' e w'" "\<And>w'. B w' \<Longrightarrow> B' w'"
  shows "wp m Q' E' B' w"
  using assms by (auto simp: wp_def split: prod.splits outcome.splits)

lemma wp_conj:
  "wp m Q E B w \<Longrightarrow> wp m Q' E' B' w \<Longrightarrow>
   wp m (\<lambda>x w. Q x w \<and> Q' x w) (\<lambda>e w. E e w \<and> E' e w) (\<lambda>w. B w \<and> B' w) w"
  by (auto simp: wp_def split: prod.splits outcome.splits)

lemma wp_Ok: "wp m Q E B w \<Longrightarrow> m w = (Ok x, w') \<Longrightarrow> Q x w'"
  by (simp add: wp_def)

lemma wp_Fail: "wp m Q E B w \<Longrightarrow> m w = (Fail e, w') \<Longrightarrow> E e w'"
  by (simp add: wp_def)

lemma bindIO_return [simp]: "bindIO (returnIO x) f = f x"
  by (simp add: bindIO_def returnIO_def)

lemma bindIO_fail [simp]: "bindIO (failIO e) f = failIO e"
  by (simp add: bindIO_def failIO_def)

lemma bindIO_assoc: "bindIO (bindIO m f) g = bindIO m (\<lambda>x. bindIO (f x) g)"
  by (rule ext) (simp add: bindIO_def split: prod.splits outcome.splits)

lemma syscall_Cons [step_simps]:
  "syscall c \<lparr>script = r # rs, trace = tr\<rparr> =
     (Ok (norm_ret c r), \<lparr>script = rs, trace = tr @ [(c, norm_ret c r)]\<rparr>)"
  by (simp add: syscall_def)

lemma syscall_Nil [step_simps]: "syscall c \<lparr>script = [], trace = tr\<rparr> = (Blocked, \<lparr>script = [], trace = tr\<rparr>)"
  by (simp add: syscall_def)

section \<open>Loops around system calls\<close>

text \<open>
  One round of a loop goes on with a new state (\<open>Inl\<close>) or leaves the loop with a result
  (\<open>Inr\<close>). The fuel is one more than the number of responses left: every round that goes on
  has made a call, so it is never used up (\<open>loop_unfold\<close> below).
\<close>

primrec loop_fuel :: "nat \<Rightarrow> ('s \<Rightarrow> ('s + 'r) io) \<Rightarrow> 's \<Rightarrow> 'r io" where
  "loop_fuel 0 step s = (\<lambda>w. (Blocked, w))"
| "loop_fuel (Suc n) step s =
     bindIO (step s) (\<lambda>r. case r of Inl s' \<Rightarrow> loop_fuel n step s' | Inr x \<Rightarrow> returnIO x)"

definition loop_io :: "('s \<Rightarrow> ('s + 'r) io) \<Rightarrow> 's \<Rightarrow> 'r io" where
  "loop_io step s = (\<lambda>w. loop_fuel (Suc (length (script w))) step s w)"

definition remaining :: "world \<Rightarrow> nat" where
  "remaining w = length (script w)"

section \<open>Responses are used up, the trace grows\<close>

definition later :: "world \<Rightarrow> world \<Rightarrow> bool" where
  "later w w' \<longleftrightarrow> remaining w' \<le> remaining w \<and> (\<exists>tr. trace w' = trace w @ tr)"

lemma later_refl [simp, intro]: "later w w"
  by (simp add: later_def)

lemma later_trans: "later w w' \<Longrightarrow> later w' w'' \<Longrightarrow> later w w''"
  by (fastforce simp: later_def)

lemma later_remaining: "later w w' \<Longrightarrow> remaining w' \<le> remaining w"
  by (simp add: later_def)

definition shrinks :: "'a io \<Rightarrow> bool" where
  "shrinks m \<longleftrightarrow> (\<forall>w. wp m (\<lambda>_. later w) (\<lambda>_. later w) (later w) w)"

named_theorems shrinks_intros

lemma shrinksD:
  assumes "shrinks m" "later w0 w"
  shows "wp m (\<lambda>_. later w0) (\<lambda>_. later w0) (later w0) w"
  using assms(1) [unfolded shrinks_def, rule_format, of w] assms(2)
  by (elim wp_mono) (auto intro: later_trans)

lemma shrinks_bind [shrinks_intros]:
  assumes "shrinks m" "\<And>x. shrinks (f x)"
  shows "shrinks (bindIO m f)"
  unfolding shrinks_def wp_bind
  by (intro allI wp_mono [OF shrinksD [OF assms(1) later_refl]] shrinksD [OF assms(2)])

lemma shrinks_catch [shrinks_intros]:
  assumes "shrinks m" "\<And>x. shrinks (h x)"
  shows "shrinks (catchIO m h)"
  unfolding shrinks_def wp_catch
  by (intro allI wp_mono [OF shrinksD [OF assms(1) later_refl]])
    (auto split: cpp_error.splits intro: shrinksD [OF assms(2)])

lemma shrinks_finally [shrinks_intros]:
  assumes "shrinks m" "shrinks fin"
  shows "shrinks (finallyIO m fin)"
  unfolding shrinks_def wp_finally
  by (intro allI wp_mono [OF shrinksD [OF assms(1) later_refl]])
    (auto split: cpp_error.splits intro: shrinksD [OF assms(2)])

lemma shrinks_return [shrinks_intros]: "shrinks (returnIO x)"
  by (simp add: shrinks_def)

lemma shrinks_fail [shrinks_intros]: "shrinks (failIO e)"
  by (simp add: shrinks_def)

lemma shrinks_syscall [shrinks_intros]: "shrinks (syscall c)"
  by (simp add: shrinks_def wp_syscall later_def remaining_def split: list.splits)

lemma shrinks_liftE [shrinks_intros]: "shrinks (liftE r)"
  by (simp add: shrinks_def split: sum.splits)

lemma shrinks_if [shrinks_intros]: "(b \<Longrightarrow> shrinks m) \<Longrightarrow> (\<not> b \<Longrightarrow> shrinks m') \<Longrightarrow> shrinks (if b then m else m')"
  by simp

lemma shrinks_option [shrinks_intros]:
  "shrinks m \<Longrightarrow> (\<And>x. shrinks (f x)) \<Longrightarrow> shrinks (case r of None \<Rightarrow> m | Some x \<Rightarrow> f x)"
  by (cases r) auto

lemma shrinks_prod [shrinks_intros]: "(\<And>x y. shrinks (f x y)) \<Longrightarrow> shrinks (case r of (x, y) \<Rightarrow> f x y)"
  by (cases r) auto

lemma shrinks_mapIO [shrinks_intros]: "(\<And>x. shrinks (f x)) \<Longrightarrow> shrinks (mapIO f xs)"
  by (induction xs) (auto intro: shrinks_intros)

text \<open>A computation that begins with a system call uses up a response.\<close>

lemma consumes_syscall:
  assumes "\<And>r. shrinks (f r)"
  shows "wp (bindIO (syscall c) f) (\<lambda>_ w'. remaining w' < remaining w \<and> later w w')
    (\<lambda>_. later w) (later w) w"
proof (cases "script w")
  case Nil
  then show ?thesis by (simp add: wp_syscall)
next
  case (Cons r rs)
  let ?w = "after_call w rs (c, norm_ret c r)"
  have "remaining ?w < remaining w" "later w ?w" using Cons by (simp_all add: remaining_def later_def)
  with shrinksD [OF assms [of "norm_ret c r"] later_refl, of ?w] Cons show ?thesis
    by (auto simp: wp_syscall elim!: wp_mono intro: later_trans dest: later_remaining)
qed

text \<open>
  The contract of a loop body: a round that goes on has used up a response.
\<close>

definition progresses :: "('s + 'r) io \<Rightarrow> bool" where
  "progresses m \<longleftrightarrow> (\<forall>w. wp m
    (\<lambda>r w'. later w w' \<and> (case r of Inl s' \<Rightarrow> remaining w' < remaining w | Inr x \<Rightarrow> True))
    (\<lambda>_. later w) (later w) w)"

named_theorems progress_intros

lemma progresses_syscall [progress_intros]:
  "(\<And>r. shrinks (f r)) \<Longrightarrow> progresses (bindIO (syscall c) f)"
  unfolding progresses_def
  by (intro allI, rule wp_mono [OF consumes_syscall]) (auto split: sum.splits)

lemma progresses_fail [progress_intros]: "progresses (failIO e)"
  by (simp add: progresses_def)

lemma progresses_leave [progress_intros]: "progresses (returnIO (Inr x))"
  by (simp add: progresses_def)

lemma progresses_if [progress_intros]:
  "(b \<Longrightarrow> progresses m) \<Longrightarrow> (\<not> b \<Longrightarrow> progresses m') \<Longrightarrow> progresses (if b then m else m')"
  by simp

text \<open>A body that leaves the loop on every exception.\<close>

lemma progresses_catch [progress_intros]:
  assumes "progresses m"
  shows "progresses (catchIO m (\<lambda>_. returnIO (Inr x)))"
  unfolding progresses_def wp_catch
  by (intro allI wp_mono [OF assms [unfolded progresses_def, rule_format]])
    (auto split: sum.splits cpp_error.splits)

lemma progresses_shrinks: "progresses m \<Longrightarrow> shrinks m"
  unfolding progresses_def shrinks_def
  by (intro allI, erule_tac x = w in allE, erule wp_mono) (auto split: sum.splits)

text \<open>The contract of a loop body, and what every loop gets from it.\<close>

locale sys_loop =
  fixes step :: "'s \<Rightarrow> ('s + 'r) io"
  assumes progress: "progresses (step s)"
begin

lemma consumes:
  "wp (step s) (\<lambda>r w'. later w w' \<and> (case r of Inl s' \<Rightarrow> remaining w' < remaining w | Inr x \<Rightarrow> True))
    (\<lambda>_. later w) (later w) w"
  using progress unfolding progresses_def by blast

lemma fuel_enough:
  assumes "remaining w < n" "remaining w < k"
  shows "loop_fuel n step s w = loop_fuel k step s w"
  using assms
proof (induction n arbitrary: k s w)
  case (Suc n)
  then obtain k' where k: "k = Suc k'" by (cases k) auto
  show ?case
  proof (cases "step s w")
    case (Pair r w')
    show ?thesis
    proof (cases r)
      case (Ok x)
      with consumes [of s w] Pair Suc.prems k Suc.IH [of w' k'] show ?thesis
        by (auto simp: bindIO_def wp_def split: sum.splits)
    qed (use Pair k in \<open>simp_all add: bindIO_def\<close>)
  qed
qed simp

lemma loop_unfold:
  "loop_io step s w =
     bindIO (step s) (\<lambda>r. case r of Inl s' \<Rightarrow> loop_io step s' | Inr x \<Rightarrow> returnIO x) w"
proof (cases "step s w")
  case (Pair r w')
  show ?thesis
  proof (cases r)
    case (Ok x)
    with consumes [of s w] Pair fuel_enough [of w' "remaining w" "Suc (remaining w')"] show ?thesis
      by (auto simp: bindIO_def wp_def loop_io_def remaining_def split: sum.splits)
  qed (use Pair in \<open>simp_all add: bindIO_def loop_io_def\<close>)
qed

text \<open>An invariant of the body is an invariant of the loop, which ends on every script.\<close>

lemma loop_wp:
  assumes "I s w"
    and "\<And>s w. I s w \<Longrightarrow> wp (step s) (\<lambda>r w'. case r of Inl s' \<Rightarrow> I s' w' | Inr x \<Rightarrow> Q x w') E B w"
  shows "wp (loop_io step s) Q E B w"
  using assms(1)
proof (induction "remaining w" arbitrary: s w rule: less_induct)
  case less
  have "wp (loop_io step s) Q E B w =
    wp (bindIO (step s) (\<lambda>r. case r of Inl s' \<Rightarrow> loop_io step s' | Inr x \<Rightarrow> returnIO x)) Q E B w"
    unfolding wp_def loop_unfold [of s w] ..
  also have "\<dots>"
    unfolding wp_bind
    by (rule wp_mono [OF wp_conj [OF assms(2) [OF less.prems] consumes [of s w]]])
      (auto split: sum.splits intro: less.hyps)
  finally show ?case .
qed

lemma loop_shrinks: "shrinks (loop_io step s)"
  unfolding shrinks_def
proof
  fix w
  show "wp (loop_io step s) (\<lambda>_. later w) (\<lambda>_. later w) (later w) w"
    by (rule loop_wp [where I = "\<lambda>s. later w"], simp)
      (rule wp_mono [OF consumes], auto split: sum.splits intro: later_trans)
qed

text \<open>
  The same for statements about the traces that meet an assumption \<open>G\<close> on the kernel; \<open>G\<close>
  has to be closed under prefixes.
\<close>

lemma loop_wp_guard:
  assumes mono: "\<And>w w'. later w w' \<Longrightarrow> G w' \<Longrightarrow> G w" and init: "I s w"
    and body: "\<And>s w. G w \<Longrightarrow> I s w \<Longrightarrow>
      wp (step s) (\<lambda>r w'. G w' \<longrightarrow> (case r of Inl s' \<Rightarrow> I s' w' | Inr x \<Rightarrow> Q x w'))
        (\<lambda>e w'. G w' \<longrightarrow> E e w') (\<lambda>w'. G w' \<longrightarrow> B w') w"
  shows "wp (loop_io step s) (\<lambda>x w'. G w' \<longrightarrow> Q x w') (\<lambda>e w'. G w' \<longrightarrow> E e w') (\<lambda>w'. G w' \<longrightarrow> B w') w"
proof (rule loop_wp [where I = "\<lambda>s w. G w \<longrightarrow> I s w"])
  fix s w assume i: "G w \<longrightarrow> I s w"
  show "wp (step s) (\<lambda>r w'. case r of Inl s' \<Rightarrow> G w' \<longrightarrow> I s' w' | Inr x \<Rightarrow> G w' \<longrightarrow> Q x w')
    (\<lambda>e w'. G w' \<longrightarrow> E e w') (\<lambda>w'. G w' \<longrightarrow> B w') w"
  proof (cases "G w")
    case True
    with i have "I s w" by simp
    show ?thesis by (rule wp_mono [OF body [OF True \<open>I s w\<close>]]) (auto split: sum.splits)
  next
    case False
    then show ?thesis by (intro wp_mono [OF consumes]) (auto split: sum.splits dest: mono)
  qed
qed (use init in simp)

end

text \<open>A statement under an assumption on the trace, for one computation.\<close>

lemma wp_guard:
  assumes mono: "\<And>w w'. later w w' \<Longrightarrow> G w' \<Longrightarrow> G w" and "shrinks m"
    and "G w \<Longrightarrow> wp m (\<lambda>x w'. G w' \<longrightarrow> Q x w') (\<lambda>e w'. G w' \<longrightarrow> E e w') (\<lambda>w'. G w' \<longrightarrow> B w') w"
  shows "wp m (\<lambda>x w'. G w' \<longrightarrow> Q x w') (\<lambda>e w'. G w' \<longrightarrow> E e w') (\<lambda>w'. G w' \<longrightarrow> B w') w"
proof (cases "G w")
  case False
  then show ?thesis by (intro wp_mono [OF shrinksD [OF assms(2) later_refl]]) (auto dest: mono)
qed (use assms(3) in simp)

text \<open>A computation that begins with a call, for a guard that may fail with the answer to this call.\<close>

lemma wp_guard_call:
  assumes mono: "\<And>w w'. later w w' \<Longrightarrow> G w' \<Longrightarrow> G w" and "\<And>r. shrinks (f r)" "script w = r # rs"
    and "G (after_call w rs (c, norm_ret c r)) \<Longrightarrow>
      wp (bindIO (syscall c) f) (\<lambda>x w'. G w' \<longrightarrow> Q x w') (\<lambda>e w'. G w' \<longrightarrow> E e w') (\<lambda>w'. G w' \<longrightarrow> B w') w"
  shows "wp (bindIO (syscall c) f) (\<lambda>x w'. G w' \<longrightarrow> Q x w') (\<lambda>e w'. G w' \<longrightarrow> E e w') (\<lambda>w'. G w' \<longrightarrow> B w') w"
proof (cases "G (after_call w rs (c, norm_ret c r))")
  case False
  have "wp (f (norm_ret c r)) (\<lambda>x w'. G w' \<longrightarrow> Q x w') (\<lambda>e w'. G w' \<longrightarrow> E e w') (\<lambda>w'. G w' \<longrightarrow> B w')
    (after_call w rs (c, norm_ret c r))"
    by (rule wp_mono [OF shrinksD [OF assms(2) later_refl]]) (use False mono in blast)+
  with assms(3) show ?thesis by (simp add: wp_syscall)
qed (use assms(4) in simp)

section \<open>Open descriptors\<close>

text \<open>
  What the trace says about descriptors: \<open>socket\<close>, \<open>accept\<close> and \<open>epoll_create\<close> open one,
  \<open>close\<close> closes it.
\<close>

fun fd_step :: "int set \<Rightarrow> sys_call \<times> sys_ret \<Rightarrow> int set" where
  "fd_step fds (SysSocket, r) = (if 0 \<le> rc r then insert (rc r) fds else fds)"
| "fd_step fds (SysAccept _, r) = (if 0 \<le> rc r then insert (rc r) fds else fds)"
| "fd_step fds (SysEpollCreate, r) = (if 0 \<le> rc r then insert (rc r) fds else fds)"
| "fd_step fds (SysClose fd, r) = fds - {fd}"
| "fd_step fds _ = fds"

definition open_fds :: "world \<Rightarrow> int set" where
  "open_fds w = foldl fd_step {} (trace w)"

text \<open>The bytes the peer of a descriptor has been sent, and those it has delivered.\<close>

fun sent_bytes :: "int \<Rightarrow> (sys_call \<times> sys_ret) list \<Rightarrow> string" where
  "sent_bytes fd [] = []"
| "sent_bytes fd ((SysSend f s, r) # tr) =
     (if f = fd then take (nat (rc r)) s @ sent_bytes fd tr else sent_bytes fd tr)"
| "sent_bytes fd ((SysWrite f s, r) # tr) =
     (if f = fd then take (nat (rc r)) s @ sent_bytes fd tr else sent_bytes fd tr)"
| "sent_bytes fd (_ # tr) = sent_bytes fd tr"

fun received_bytes :: "int \<Rightarrow> (sys_call \<times> sys_ret) list \<Rightarrow> string" where
  "received_bytes fd [] = []"
| "received_bytes fd ((SysRecv f n, r) # tr) =
     (if f = fd then payload r @ received_bytes fd tr else received_bytes fd tr)"
| "received_bytes fd ((SysRead f n, r) # tr) =
     (if f = fd then payload r @ received_bytes fd tr else received_bytes fd tr)"
| "received_bytes fd (_ # tr) = received_bytes fd tr"

lemma sent_bytes_append [simp]: "sent_bytes fd (tr @ tr') = sent_bytes fd tr @ sent_bytes fd tr'"
  by (induction tr rule: sent_bytes.induct [of _ fd]) simp_all

lemma received_bytes_append [simp]:
  "received_bytes fd (tr @ tr') = received_bytes fd tr @ received_bytes fd tr'"
  by (induction tr rule: received_bytes.induct [of _ fd]) simp_all

lemma count_ret_cases:
  "rc (count_ret len r) = - 1 \<and> payload (count_ret len r) = [] \<or>
   rc (count_ret len r) = int (length (payload (count_ret len r))) \<and>
   length (payload (count_ret len r)) \<le> len"
  by (simp add: count_ret_def)

end
