(* ===== verification/Tp_Options.thy ===== *)
theory Tp_Options
  imports Posix
begin

text \<open>
  The command line of \<open>net/libtpevent\<close>: \<open>options.hpp\<close>, \<open>options.cpp\<close>, \<open>utils.cpp\<close>. The two
  functions of \<open>boost/algorithm/string.hpp\<close> that \<open>utils.cpp\<close> calls are the parameters
  \<open>boost_split\<close> and \<open>boost_starts_with\<close>; what is used of their documentation is stated as
  hypotheses (\<open>splits_on\<close>, \<open>tests_prefix\<close>). A data member that the constructor has
  not set is \<open>None\<close>: reading it is undefined. \<open>Options_stderr\<close> is what the
  constructor writes on the error stream.
\<close>

datatype engine_t = UNKNOWN | SELECT | POLL

record options =
  m_Port :: "16 word option"
  m_Engine :: "engine_t option"
  m_Async :: "bool option"

section \<open>utils.cpp\<close>

definition utils_split :: "(string \<Rightarrow> string \<Rightarrow> string list) \<Rightarrow> string \<Rightarrow> string \<Rightarrow> string list" where
  "utils_split boost_split line delimiter = boost_split line delimiter"

definition utils_starts_with :: "(string \<Rightarrow> string \<Rightarrow> bool) \<Rightarrow> string \<Rightarrow> string \<Rightarrow> bool" where
  "utils_starts_with boost_starts_with s predicate = boost_starts_with s predicate"

section \<open>options.cpp\<close>

definition string2engine :: "string \<Rightarrow> engine_t" where
  "string2engine s =
     (if s = ''select'' then SELECT
      else if s = ''poll'' then POLL
      else UNKNOWN)"

definition opt_port :: string where "opt_port = ''port''"
definition opt_engine :: string where "opt_engine = ''engine''"
definition opt_async :: string where "opt_async = ''async''"

lemmas opt_names [simp] = opt_port_def opt_engine_def opt_async_def

definition usage :: "string \<Rightarrow> string" where
  "usage progname =
     lf @ tab @ ''Usage: '' @ progname @ '' '' @ ''--'' @ opt_port @ ''=port '' @
     ''--'' @ opt_engine @ ''=[select|poll] '' @ ''--'' @ opt_async @ ''=[0|1]'' @ lf @ lf @
     tab @ opt_port @ '': 1025..65536'' @ lf @
     tab @ opt_engine @ '': engine for event loop'' @ lf @
     tab @ opt_async @ '': sync or async (threaded) engine'' @ lf @ lf @ lf"

abbreviation bad_options :: cpp_error where
  "bad_options \<equiv> Throw ''bad options''"

text \<open>One round of the loop over the arguments.\<close>

definition Options_arg ::
  "(string \<Rightarrow> string \<Rightarrow> string list) \<Rightarrow> (string \<Rightarrow> string \<Rightarrow> bool) \<Rightarrow> options \<Rightarrow> string \<Rightarrow> cpp_error + options"
where
  "Options_arg boost_split boost_starts_with self arg =
     (let opt = utils_split boost_split arg ''='' in
      if length opt \<noteq> 2 then Inl bad_options
      else
        bindE (if utils_starts_with boost_starts_with (opt ! 0) ''--''
               then str_substr (opt ! 0) 2 None else Inr (opt ! 0)) (\<lambda>opt_name.
        if opt_name = opt_port then
          bindE (stoi (opt ! 1)) (\<lambda>p. Inr (self\<lparr>m_Port := Some (word_of_int p)\<rparr>))
        else if opt_name = opt_engine then
          (if string2engine (opt ! 1) = UNKNOWN then Inl bad_options
           else Inr (self\<lparr>m_Engine := Some (string2engine (opt ! 1))\<rparr>))
        else if opt_name = opt_async then
          bindE (stoi (opt ! 1)) (\<lambda>async.
            if async = 0 then Inr (self\<lparr>m_Async := Some False\<rparr>)
            else if async = 1 then Inr (self\<lparr>m_Async := Some True\<rparr>)
            else Inl bad_options)
        else Inl bad_options))"

definition Options_ctor ::
  "(string \<Rightarrow> string \<Rightarrow> string list) \<Rightarrow> (string \<Rightarrow> string \<Rightarrow> bool) \<Rightarrow> string list \<Rightarrow> cpp_error + options" where
  "Options_ctor boost_split boost_starts_with args =
     (if length args < 4 then Inl bad_options
      else foldE (Options_arg boost_split boost_starts_with)
             \<lparr>m_Port = None, m_Engine = None, m_Async = None\<rparr> (tl args))"

text \<open>Each throw of \<open>bad options\<close>, and nothing else, comes right after the usage text.\<close>

definition Options_stderr ::
  "(string \<Rightarrow> string \<Rightarrow> string list) \<Rightarrow> (string \<Rightarrow> string \<Rightarrow> bool) \<Rightarrow> string list \<Rightarrow> string" where
  "Options_stderr boost_split boost_starts_with args =
     (if Options_ctor boost_split boost_starts_with args = Inl bad_options then usage (args ! 0) else [])"

fun initialised :: "'a option \<Rightarrow> cpp_error + 'a" where
  "initialised None = Inl (Undefined UninitialisedRead)"
| "initialised (Some x) = Inr x"

definition Options_port :: "options \<Rightarrow> cpp_error + 16 word" where
  "Options_port self = initialised (m_Port self)"

definition Options_engine :: "options \<Rightarrow> cpp_error + engine_t" where
  "Options_engine self = initialised (m_Engine self)"

definition Options_async :: "options \<Rightarrow> cpp_error + bool" where
  "Options_async self = initialised (m_Async self)"

section \<open>What is used of boost\<close>

text \<open>
  \<open>boost::split(strs, line, boost::is_any_of(delimiter))\<close> cuts the line at each of the
  delimiters and keeps empty parts; \<open>boost::starts_with\<close> tests a prefix.
\<close>

definition splits_on :: "(string \<Rightarrow> string \<Rightarrow> string list) \<Rightarrow> bool" where
  "splits_on split \<longleftrightarrow>
     (\<forall>a ds. set a \<inter> set ds = {} \<longrightarrow> split a ds = [a]) \<and>
     (\<forall>a d s ds. set a \<inter> set ds = {} \<longrightarrow> d \<in> set ds \<longrightarrow> split (a @ [d] @ s) ds = a # split s ds)"

definition tests_prefix :: "(string \<Rightarrow> string \<Rightarrow> bool) \<Rightarrow> bool" where
  "tests_prefix starts \<longleftrightarrow> (\<forall>s p. starts s p \<longleftrightarrow> take (length p) s = p)"

text \<open>Functions with these properties, for the witnesses.\<close>

fun cut_at :: "string \<Rightarrow> string \<Rightarrow> string list" where
  "cut_at [] ds = [[]]"
| "cut_at (c # s) ds =
     (if c \<in> set ds then [] # cut_at s ds
      else (case cut_at s ds of [] \<Rightarrow> [[c]] | t # ts \<Rightarrow> (c # t) # ts))"

definition is_prefix :: "string \<Rightarrow> string \<Rightarrow> bool" where
  "is_prefix s p \<longleftrightarrow> take (length p) s = p"

lemma cut_at_nonempty: "cut_at s ds \<noteq> []"
  by (cases s) (auto split: list.splits)

lemma cut_at_splits: "splits_on cut_at"
proof -
  have "set a \<inter> set ds = {} \<Longrightarrow> cut_at a ds = [a]" for a ds by (induction a) auto
  moreover have "set a \<inter> set ds = {} \<Longrightarrow> d \<in> set ds \<Longrightarrow> cut_at (a @ [d] @ s) ds = a # cut_at s ds"
    for a d s ds by (induction a) auto
  ultimately show ?thesis by (simp add: splits_on_def)
qed

lemma is_prefix_tests: "tests_prefix is_prefix"
  by (simp add: tests_prefix_def is_prefix_def)

section \<open>Arguments\<close>

lemma split_option:
  assumes "splits_on split" "CHR ''='' \<notin> set name" "CHR ''='' \<notin> set val"
  shows "utils_split split (name @ ''='' @ val) ''='' = [name, val]"
proof -
  have "split val ''='' = [val]" using assms(1,3) by (simp add: splits_on_def)
  moreover have "split (name @ [CHR ''=''] @ val) ''='' = name # split val ''=''"
    using assms(1,2) unfolding splits_on_def by (metis Int_insert_right_if0 inf_bot_right list.set_intros(1) list.simps(15) empty_set)
  ultimately show ?thesis by (simp add: utils_split_def)
qed

lemma digits_no_eq: "CHR ''='' \<notin> set (to_string n)"
proof -
  have "CHR ''='' \<notin> set (nat_to_string k)" for k
    using nat_to_string_digits [of k] by (auto simp: list_all_iff is_digit_def)
  then show ?thesis by (simp add: to_string_def)
qed

lemma Options_arg_port:
  assumes "splits_on split" "tests_prefix starts" "in_int_range n"
  shows "Options_arg split starts self (''--port='' @ to_string n) = Inr (self\<lparr>m_Port := Some (word_of_int n)\<rparr>)"
  using split_option [OF assms(1), of "''--port''" "to_string n"] assms(2,3) digits_no_eq
    stoi_to_string [OF assms(3), of "[]"]
  by (simp add: Options_arg_def utils_starts_with_def tests_prefix_def str_substr_def)

lemma Options_arg_engine:
  assumes "splits_on split" "tests_prefix starts" "e = ''select'' \<or> e = ''poll''"
  shows "Options_arg split starts self (''--engine='' @ e) = Inr (self\<lparr>m_Engine := Some (string2engine e)\<rparr>)"
proof -
  have "string2engine e \<noteq> UNKNOWN" using assms(3) by (auto simp: string2engine_def)
  then show ?thesis
    using split_option [OF assms(1), of "''--engine''" e] assms(2,3)
    by (auto simp: Options_arg_def utils_starts_with_def tests_prefix_def str_substr_def)
qed

lemma Options_arg_async:
  assumes "splits_on split" "tests_prefix starts"
  shows "Options_arg split starts self (''--async='' @ to_string (if b then 1 else 0)) =
    Inr (self\<lparr>m_Async := Some b\<rparr>)"
  using split_option [OF assms(1), of "''--async''" "to_string (if b then 1 else 0)"] assms(2) digits_no_eq
    stoi_to_string [of "if b then 1 else 0" "[]"]
  by (simp add: Options_arg_def utils_starts_with_def tests_prefix_def str_substr_def in_int_range_def)

lemma perm_two: "{#y, z#} = {#e, a#} \<Longrightarrow> y = e \<and> z = a \<or> y = a \<and> z = e"
  by (auto simp: add_eq_conv_ex)

lemma perm_three:
  assumes "mset args = {#p, e, a#}"
  shows "args = [p, e, a] \<or> args = [p, a, e] \<or> args = [e, p, a] \<or> args = [e, a, p] \<or>
         args = [a, p, e] \<or> args = [a, e, p]"
proof -
  have "length args = 3" using arg_cong [OF assms, of size] by simp
  then obtain x y z where xyz: "args = [x, y, z]"
    by (auto simp: numeral_3_eq_3 length_Suc_conv)
  then have eq: "add_mset x {#y, z#} = {#p, e, a#}" using assms by simp
  then have "x \<in># {#p, e, a#}" by (metis union_single_eq_member)
  then consider "x = p" | "x = e" | "x = a" by auto
  then show ?thesis
  proof cases
    case 1
    with eq have "{#y, z#} = {#e, a#}" by simp
    with 1 xyz perm_two [of y z e a] show ?thesis by auto
  next
    case 2
    with eq have "{#y, z#} = {#p, a#}" by (simp add: add_mset_commute [of p e])
    with 2 xyz perm_two [of y z p a] show ?thesis by auto
  next
    case 3
    with eq have "{#y, z#} = {#p, e#}" by (simp add: add_mset_commute [of _ a])
    with 3 xyz perm_two [of y z p e] show ?thesis by auto
  qed
qed

section \<open>Properties\<close>

text \<open>
  C32: the three options, given once each in any order, are all set; the port is
  the number modulo 65536, whatever the range the usage text announces.
\<close>

theorem Options_parse:
  assumes "splits_on split" "tests_prefix starts" "in_int_range n" "e = ''select'' \<or> e = ''poll''"
    and "mset args = {#''--port='' @ to_string n, ''--engine='' @ e,
      ''--async='' @ to_string (if b then 1 else 0)#}"
  shows "Options_ctor split starts (prog # args) =
    Inr \<lparr>m_Port = Some (word_of_int n), m_Engine = Some (string2engine e), m_Async = Some b\<rparr>"
proof -
  define p where "p = ''--port='' @ to_string n"
  define en where "en = ''--engine='' @ e"
  define a where "a = ''--async='' @ to_string (if b then 1 else 0)"
  have "Options_arg split starts self p = Inr (self\<lparr>m_Port := Some (word_of_int n)\<rparr>)"
    "Options_arg split starts self en = Inr (self\<lparr>m_Engine := Some (string2engine e)\<rparr>)"
    "Options_arg split starts self a = Inr (self\<lparr>m_Async := Some b\<rparr>)" for self
    unfolding p_def en_def a_def using Options_arg_port [OF assms(1-3)] Options_arg_engine [OF assms(1,2,4)]
      Options_arg_async [OF assms(1,2), of _ b] by blast+
  then show ?thesis
    using perm_three [OF assms(5), folded p_def en_def a_def] by (elim disjE) (simp_all add: Options_ctor_def)
qed

theorem Options_parse_witness:
  "Options_ctor cut_at is_prefix [''server'', ''--engine=poll'', ''--port=80'', ''--async=1''] =
     Inr \<lparr>m_Port = Some 80, m_Engine = Some POLL, m_Async = Some True\<rparr>"
proof -
  have n: "to_string 80 = ''80''" "to_string (if True then 1 else 0) = ''1''" by code_simp+
  have "mset [''--engine=poll'', ''--port=80'', ''--async=1''] =
      {#''--port='' @ to_string 80, ''--engine='' @ ''poll'', ''--async='' @ to_string (if True then 1 else 0)#}"
    unfolding n by (simp add: add_mset_commute)
  from Options_parse [OF cut_at_splits is_prefix_tests _ _ this] show ?thesis
    by (simp add: in_int_range_def string2engine_def)
qed

end
