(* ===== verification/Socket.thy ===== *)
theory Socket
  imports Posix
begin

text \<open>
  The class \<open>Socket\<close> of \<open>net/common/socket.hpp\<close> and \<open>net/common/socket.cpp\<close>, on the
  system-call layer. A method that sets \<open>m_Sd\<close> returns the new object; every such method
  assigns it last, so that after an exception the object is as it was. Both overloads of
  \<open>connect\<close> and of \<open>recv\<close> are modelled, the second under a name of its own.
\<close>

section \<open>Definitions\<close>

text \<open>\<open>int2ipv4\<close>: the four bytes of the address in memory order, the low one first.\<close>

unbundle bit_operations_syntax

definition int2ipv4 :: "32 word \<Rightarrow> string" where
  "int2ipv4 ip =
     to_string (uint (ip AND 0xFF)) @ ''.'' @
     to_string (uint (drop_bit 8 (ip AND 0xFF00))) @ ''.'' @
     to_string (uint (drop_bit 16 (ip AND 0xFF0000))) @ ''.'' @
     to_string (uint (drop_bit 24 (ip AND 0xFF000000)))"

record socket =
  m_Sd :: int

abbreviation EAGAIN :: int where "EAGAIN \<equiv> 11"
abbreviation EINPROGRESS :: int where "EINPROGRESS \<equiv> 115"
abbreviation O_NONBLOCK :: int where "O_NONBLOCK \<equiv> 2048"

text \<open>\<open>htons\<close> applied to an \<open>int\<close> or to a wider unsigned integer keeps its low 16 bits.\<close>

definition port16 :: "int \<Rightarrow> nat" where
  "port16 port = nat (port mod 65536)"

text \<open>
  \<open>resolve\<close>: the resolver gives no entry, or the bytes of the addresses, of which the first
  four are used. An entry without an address leaves \<open>h_addr\<close> null.
\<close>

definition resolve :: "string \<Rightarrow> int \<Rightarrow> (string \<times> nat) io" where
  "resolve host port =
     bindIO (syscall (SysResolve host)) (\<lambda>hp.
     if rc hp < 0 then failIO (Throw ''resolve error: '')
     else if length (payload hp) < 4 then failIO (Undefined NullDeref)
     else returnIO (take 4 (payload hp), port16 port))"

definition set_non_blocked_impl :: "int \<Rightarrow> bool \<Rightarrow> unit io" where
  "set_non_blocked_impl sd opt =
     bindIO (syscall (SysFcntl sd ''F_GETFL'' 0)) (\<lambda>flags.
     let new_flags = (if opt then rc flags OR O_NONBLOCK else rc flags AND NOT O_NONBLOCK) in
     bindIO (syscall (SysFcntl sd ''F_SETFL'' new_flags)) (\<lambda>r.
     if rc r = - 1 then failIO (Throw ''make nonblocked: '') else returnIO ()))"

definition Socket_ctor :: socket where
  "Socket_ctor = \<lparr>m_Sd = - 1\<rparr>"

definition Socket_of :: "int \<Rightarrow> socket" where
  "Socket_of sd = \<lparr>m_Sd = sd\<rparr>"

definition Socket_dtor :: "socket \<Rightarrow> unit io" where
  "Socket_dtor s =
     (if m_Sd s > 0 then bindIO (syscall (SysClose (m_Sd s))) (\<lambda>_. returnIO ()) else returnIO ())"

definition Socket_close :: "socket \<Rightarrow> unit io" where
  "Socket_close s = bindIO (syscall (SysClose (m_Sd s))) (\<lambda>_. returnIO ())"

definition Socket_setNonBlocked :: "socket \<Rightarrow> bool \<Rightarrow> unit io" where
  "Socket_setNonBlocked s opt = set_non_blocked_impl (m_Sd s) opt"

definition Socket_setRcvTimeout :: "socket \<Rightarrow> int \<Rightarrow> int \<Rightarrow> unit io" where
  "Socket_setRcvTimeout s sec microsec =
     bindIO (syscall (SysSetsockopt (m_Sd s) ''SO_RCVTIMEO'')) (\<lambda>r.
     if rc r \<noteq> 0 then failIO (Throw ''set rcvtimeout: '') else returnIO ())"

definition Socket_setReuseAddr :: "int \<Rightarrow> unit io" where
  "Socket_setReuseAddr sd =
     bindIO (syscall (SysSetsockopt sd ''SO_REUSEADDR'')) (\<lambda>r.
     if rc r = - 1 then
       bindIO (syscall (SysClose sd)) (\<lambda>_. failIO (Throw ''setopt: ''))
     else returnIO ())"

definition Socket_connect :: "socket \<Rightarrow> string \<Rightarrow> int \<Rightarrow> socket io" where
  "Socket_connect s host port =
     bindIO (resolve host port) (\<lambda>(ip, p).
     bindIO (syscall SysSocket) (\<lambda>sd.
     if rc sd \<le> 0 then failIO (Throw ''error to create socket: '')
     else
       bindIO (syscall (SysConnect (rc sd) ip p)) (\<lambda>connected.
       if rc connected = - 1 then
         bindIO (syscall (SysClose (rc sd))) (\<lambda>_. failIO (Throw ''connect error: ''))
       else returnIO (s\<lparr>m_Sd := rc sd\<rparr>))))"

text \<open>The overload with a timeout.\<close>

definition Socket_connect_timed :: "socket \<Rightarrow> string \<Rightarrow> int \<Rightarrow> int \<Rightarrow> socket io" where
  "Socket_connect_timed s host port timeout =
     bindIO (resolve host port) (\<lambda>(ip, p).
     bindIO (syscall SysSocket) (\<lambda>sd.
     if rc sd \<le> 0 then failIO (Throw ''error to create socket: '')
     else
       bindIO (set_non_blocked_impl (rc sd) True) (\<lambda>_.
       bindIO (syscall (SysConnect (rc sd) ip p)) (\<lambda>connected.
       if rc connected = - 1 \<and> err connected \<noteq> EINPROGRESS then
         bindIO (syscall (SysClose (rc sd))) (\<lambda>_. failIO (Throw ''connect error: ''))
       else
         bindIO (syscall (SysSelect [] [rc sd])) (\<lambda>sel.
         if rc sel \<noteq> 1 then
           bindIO (syscall (SysClose (rc sd))) (\<lambda>_. failIO (Throw ''connect timeout''))
         else returnIO (s\<lparr>m_Sd := rc sd\<rparr>))))))"

text \<open>One round of the loop of \<open>send\<close>, on \<open>left\<close> and \<open>sent\<close>.\<close>

definition Socket_send_step :: "int \<Rightarrow> string \<Rightarrow> size_t \<times> int \<Rightarrow> ((size_t \<times> int) + unit) io" where
  "Socket_send_step sd str = (\<lambda>(left, sent).
     if left > 0 then
       bindIO (syscall (SysSend sd (drop (nat sent) str))) (\<lambda>r.
       if rc r = - 1 then failIO (Throw ''write failed: '')
       else returnIO (Inl (left - size_t_of_int (rc r), rc r)))
     else returnIO (Inr ()))"

definition Socket_send :: "socket \<Rightarrow> string \<Rightarrow> unit io" where
  "Socket_send s str = loop_io (Socket_send_step (m_Sd s) str) (of_nat (length str), 0)"

text \<open>\<open>recv(size_t bytes)\<close>: the buffer filled so far is the state of the loop.\<close>

definition Socket_recv_n_step :: "int \<Rightarrow> nat \<Rightarrow> string \<Rightarrow> (string + string) io" where
  "Socket_recv_n_step sd bytes buf =
     (if length buf \<noteq> bytes then
        bindIO (syscall (SysRecv sd (bytes - length buf))) (\<lambda>r.
        if rc r = - 1 \<or> rc r = 0 then failIO (Throw ''read failed: '')
        else returnIO (Inl (buf @ payload r)))
      else returnIO (Inr buf))"

definition Socket_recv_n :: "socket \<Rightarrow> nat \<Rightarrow> string io" where
  "Socket_recv_n s bytes =
     bindIO (liftE (new_array 1 bytes CHR 0x00)) (\<lambda>_.
     loop_io (Socket_recv_n_step (m_Sd s) bytes) [])"

text \<open>\<open>parse_protocol\<close>, with the value \<open>bytes_left\<close> is left with.\<close>

definition parse_protocol :: "string \<Rightarrow> size_t \<Rightarrow> cpp_error + bool \<times> size_t" where
  "parse_protocol buf bytes_left =
     (case str_find buf (crlf @ crlf) 0 of
        None \<Rightarrow> Inr (False, bytes_left)
      | Some hdr_end_pos \<Rightarrow>
          bindE (str_substr buf (hdr_end_pos + 4) None) (\<lambda>body.
          case str_find buf ''Content-Length: '' 0 of
            None \<Rightarrow> Inl (Throw ''http broken'')
          | Some pos \<Rightarrow>
              let length_pos = pos + length ''Content-Length: '' in
              bindE (str_substr buf length_pos (str_find buf crlf length_pos)) (\<lambda>num.
              bindE (stoi num) (\<lambda>content_length.
              Inr (True, size_t_of_int content_length - of_nat (length body))))))"

definition Socket_recv :: "char option \<Rightarrow> socket \<Rightarrow> string io" where
  "Socket_recv oob s =
     bindIO (syscall (SysRecv (m_Sd s) 128)) (\<lambda>n.
     if rc n = - 1 \<and> err n \<noteq> EAGAIN then failIO (Throw ''read failed: '')
     else if rc n = 0 then failIO (Throw (''client: '' @ to_string (m_Sd s) @ '' disconnected''))
     else if rc n = - 1 \<and> err n = EAGAIN then
       failIO (Throw (''client: '' @ to_string (m_Sd s) @ '' timeouted''))
     else liftE (strip_crlf oob (payload n)))"

definition Socket_recv_loop_step :: "char option \<Rightarrow> int \<Rightarrow> string \<Rightarrow> (string + string) io" where
  "Socket_recv_loop_step oob sd ret =
     bindIO (syscall (SysRecv sd 256)) (\<lambda>n.
     if rc n = - 1 \<and> err n \<noteq> EAGAIN then failIO (Throw ''read failed: '')
     else if rc n = 0 \<or> rc n = - 1 then returnIO (Inr ret)
     else bindIO (liftE (strip_crlf oob (ret @ payload n))) (\<lambda>ret. returnIO (Inl ret)))"

definition Socket_recv_loop :: "char option \<Rightarrow> socket \<Rightarrow> string io" where
  "Socket_recv_loop oob s = loop_io (Socket_recv_loop_step oob (m_Sd s)) []"

definition Socket_recvTimed :: "char option \<Rightarrow> socket \<Rightarrow> int \<Rightarrow> string io" where
  "Socket_recvTimed oob s timeout =
     bindIO (syscall (SysSelect [m_Sd s] [])) (\<lambda>sel.
     if rc sel \<noteq> 1 then failIO (Throw ''read timeout'') else Socket_recv oob s)"

definition Socket_hasData :: "socket \<Rightarrow> bool io" where
  "Socket_hasData s =
     bindIO (syscall (SysPeek (m_Sd s) 1)) (\<lambda>n. returnIO (rc n > 0))"

definition Socket_createServerSocket :: "socket \<Rightarrow> 32 word \<Rightarrow> 32 word \<Rightarrow> socket io" where
  "Socket_createServerSocket s port listen_queue_size =
     bindIO (syscall SysSocket) (\<lambda>sd.
     if rc sd \<le> 0 then failIO (Throw ''socket: '')
     else
       bindIO (Socket_setReuseAddr (rc sd)) (\<lambda>_.
       bindIO (syscall (SysBind (rc sd) (port16 (uint port)))) (\<lambda>b.
       if rc b < 0 then
         bindIO (syscall (SysClose (rc sd))) (\<lambda>_. failIO (Throw ''bind: ''))
       else
         bindIO (syscall (SysListen (rc sd) (unat listen_queue_size))) (\<lambda>_.
         returnIO (s\<lparr>m_Sd := rc sd\<rparr>)))))"

definition Socket_accept :: "socket \<Rightarrow> socket option io" where
  "Socket_accept s =
     bindIO (syscall (SysAccept (m_Sd s))) (\<lambda>cli_sd.
     if rc cli_sd = - 1 then returnIO None else returnIO (Some (Socket_of (rc cli_sd))))"

definition Socket_httpQuery :: "char option \<Rightarrow> socket \<Rightarrow> string \<Rightarrow> (string \<Rightarrow> unit io) \<Rightarrow> unit io" where
  "Socket_httpQuery oob s query cb =
     bindIO (Socket_send s query) (\<lambda>_.
     bindIO (Socket_recv_loop oob s) (\<lambda>res.
     cb res))"

section \<open>The loops\<close>

interpretation send_loop: sys_loop "Socket_send_step sd str" for sd str
  by unfold_locales
    (auto simp: Socket_send_step_def split_beta intro!: progress_intros shrinks_intros)

interpretation recv_n_loop: sys_loop "Socket_recv_n_step sd bytes" for sd bytes
  by unfold_locales (unfold Socket_recv_n_step_def, intro progress_intros shrinks_intros)

interpretation recv_loop_loop: sys_loop "Socket_recv_loop_step oob sd" for oob sd
  by unfold_locales (unfold Socket_recv_loop_step_def, intro progress_intros shrinks_intros)

lemma Socket_shrinks [shrinks_intros]:
  "shrinks (Socket_recv oob s)" "shrinks (Socket_send s str)" "shrinks (Socket_recv_loop oob s)"
  "shrinks (Socket_setRcvTimeout s a b)" "shrinks (Socket_setNonBlocked s opt)" "shrinks (Socket_accept s)"
  "shrinks (Socket_dtor s)" "shrinks (Socket_hasData s)"
  unfolding Socket_recv_def Socket_send_def Socket_recv_loop_def Socket_setRcvTimeout_def Socket_hasData_def
    Socket_setNonBlocked_def Socket_accept_def Socket_dtor_def set_non_blocked_impl_def Let_def
  by (intro shrinks_intros send_loop.loop_shrinks recv_loop_loop.loop_shrinks)+

section \<open>Responses\<close>

text \<open>Shorthands for responses: a plain result, an error, a result with data.\<close>

definition ret :: "int \<Rightarrow> sys_ret" where
  "ret n = \<lparr>rc = n, err = 0, payload = [], marks = []\<rparr>"

definition ret_err :: "int \<Rightarrow> sys_ret" where
  "ret_err e = \<lparr>rc = - 1, err = e, payload = [], marks = []\<rparr>"

definition ret_data :: "string \<Rightarrow> sys_ret" where
  "ret_data bs = \<lparr>rc = int (length bs), err = 0, payload = bs, marks = []\<rparr>"

lemma ret_simps [simp]:
  "rc (ret n) = n" "err (ret n) = 0" "payload (ret n) = []"
  "rc (ret_err e) = - 1" "err (ret_err e) = e" "payload (ret_err e) = []"
  "rc (ret_data bs) = int (length bs)" "err (ret_data bs) = 0" "payload (ret_data bs) = bs"
  by (simp_all add: ret_def ret_err_def ret_data_def)

lemma count_ret_data:
  "length bs \<le> n \<Longrightarrow> count_ret n (ret_data bs) = ret_data bs"
  by (simp add: count_ret_def ret_data_def)

lemma count_ret_err: "count_ret n (ret_err e) = ret_err e"
  by (simp add: count_ret_def ret_err_def)

lemma norm_send_ret: "0 \<le> n \<Longrightarrow> n \<le> int (length s) \<Longrightarrow> norm_ret (SysSend fd s) (ret n) = ret n"
  by (simp add: ret_def)

section \<open>Receiving a known number of bytes\<close>

lemma recv_n_wp:
  "wp (Socket_recv_n s bytes)
     (\<lambda>str w. str = received_bytes (m_Sd s) (trace w) \<and> length str = bytes)
     (\<lambda>e w. e = Throw ''read failed: '' \<and> length (received_bytes (m_Sd s) (trace w)) < bytes \<or>
        e = Throw ''std::bad_array_new_length'' \<and> PTRDIFF_MAX < bytes)
     (\<lambda>w. length (received_bytes (m_Sd s) (trace w)) < bytes) \<lparr>script = rs, trace = []\<rparr>"
proof -
  let ?fd = "m_Sd s"
  have "wp (loop_io (Socket_recv_n_step ?fd bytes) [])
     (\<lambda>str w. str = received_bytes ?fd (trace w) \<and> length str = bytes)
     (\<lambda>e w. e = Throw ''read failed: '' \<and> length (received_bytes ?fd (trace w)) < bytes)
     (\<lambda>w. length (received_bytes ?fd (trace w)) < bytes) \<lparr>script = rs, trace = []\<rparr>"
    by (rule recv_n_loop.loop_wp
        [where I = "\<lambda>buf w. buf = received_bytes ?fd (trace w) \<and> length buf \<le> bytes"])
      (auto simp: Socket_recv_n_step_def wp_syscall count_ret_def split: list.splits)
  then show ?thesis
    by (auto simp: Socket_recv_n_def new_array_def intro: wp_mono)
qed

lemma recv_n_chunks:
  assumes "\<forall>c \<in> set cs. c \<noteq> []" and "length buf + length (concat cs) = bytes"
  shows "\<exists>tr'. loop_io (Socket_recv_n_step fd bytes) buf \<lparr>script = map ret_data cs @ rs, trace = tr\<rparr> =
    (Ok (buf @ concat cs), \<lparr>script = rs, trace = tr'\<rparr>)"
  using assms
proof (induction cs arbitrary: buf tr)
  case Nil
  then show ?case
    by (subst recv_n_loop.loop_unfold) (simp add: Socket_recv_n_step_def, simp add: returnIO_def)
next
  case (Cons c cs)
  then have "bytes - length buf \<ge> length c" "length buf \<noteq> bytes" "c \<noteq> []" by auto
  then have "loop_io (Socket_recv_n_step fd bytes) buf \<lparr>script = map ret_data (c # cs) @ rs, trace = tr\<rparr> =
    loop_io (Socket_recv_n_step fd bytes) (buf @ c) \<lparr>script = map ret_data cs @ rs,
      trace = tr @ [(SysRecv fd (bytes - length buf), ret_data c)]\<rparr>"
    by (subst recv_n_loop.loop_unfold)
      (simp add: Socket_recv_n_step_def [of fd bytes buf] bindIO_def syscall_Cons count_ret_data returnIO_def)
  with Cons.IH [of "buf @ c"] Cons.prems show ?case by simp
qed

section \<open>Rounds of send\<close>

lemma send_done: "loop_io (Socket_send_step fd str) (0, sent) w = (Ok (), w)"
  by (subst send_loop.loop_unfold) (simp add: Socket_send_step_def, simp add: returnIO_def)

lemma Socket_send_step_pair:
  "Socket_send_step sd str (left, sent) =
     (if left > 0 then
       bindIO (syscall (SysSend sd (drop (nat sent) str))) (\<lambda>r.
       if rc r = - 1 then failIO (Throw ''write failed: '')
       else returnIO (Inl (left - size_t_of_int (rc r), rc r)))
     else returnIO (Inr ()))"
  by (simp add: Socket_send_step_def)

lemma send_round:
  assumes "left > 0"
  shows "loop_io (Socket_send_step fd str) (left, sent) \<lparr>script = r # rs, trace = tr\<rparr> =
    (let c = SysSend fd (drop (nat sent) str); r' = norm_ret c r; w = \<lparr>script = rs, trace = tr @ [(c, r')]\<rparr> in
     if rc r' = - 1 then (Fail (Throw ''write failed: ''), w)
     else loop_io (Socket_send_step fd str) (left - size_t_of_int (rc r'), rc r') w)"
  using assms
  by (subst send_loop.loop_unfold)
    (simp add: Socket_send_step_pair Let_def bindIO_def syscall_Cons failIO_def returnIO_def del: norm_ret.simps)

lemma size_t_minus_sent:
  assumes "0 \<le> n" and "n \<le> int len"
  shows "(of_nat len :: size_t) - size_t_of_int n = of_nat (len - nat n)"
proof -
  obtain m where n: "n = int m" using assms(1) by (metis zero_le_imp_eq_int)
  with assms(2) show ?thesis by (simp add: size_t_of_int_def of_nat_diff)
qed

lemma of_nat_size_t_pos: "0 < n \<Longrightarrow> n < 2 ^ 64 \<Longrightarrow> (of_nat n :: size_t) > 0"
  by (simp add: word_less_nat_alt unat_of_nat)

lemma sent_two:
  assumes "0 < n" "0 < k" "n + k \<le> int len" "len < 2 ^ 63"
  shows "\<exists>l1 l2. (of_nat len :: size_t) - size_t_of_int n = l1 \<and> (of_nat len :: size_t) > 0 \<and> l1 > 0 \<and>
    l1 - size_t_of_int k = l2 \<and> (l2 = 0 \<longleftrightarrow> n + k = int len) \<and> (0 < l2 \<longleftrightarrow> n + k \<noteq> int len)"
proof -
  have s: "(of_nat len :: size_t) - size_t_of_int n = of_nat (len - nat n)"
    "(of_nat (len - nat n) :: size_t) - size_t_of_int k = of_nat (len - nat n - nat k)"
    using assms by (intro size_t_minus_sent; simp)+
  have z: "(of_nat m :: size_t) = 0 \<longleftrightarrow> m = 0" if "m < 2 ^ 63" for m
    using of_nat_size_t_pos [of m] that by (cases "m = 0") auto
  have "0 < len" "0 < len - nat n" "len < 2 ^ 64" "len - nat n < 2 ^ 64" using assms by auto
  then have pos: "(of_nat len :: size_t) > 0" "(of_nat (len - nat n) :: size_t) > 0"
    by (simp_all only: of_nat_size_t_pos)
  have zero: "(of_nat (len - nat n - nat k) :: size_t) = 0 \<longleftrightarrow> n + k = int len"
    using z [of "len - nat n - nat k"] assms by linarith
  show ?thesis
    by (rule exI [of _ "of_nat (len - nat n)"], rule exI [of _ "of_nat (len - nat n - nat k)"])
      (use s pos zero in \<open>simp only: word_gt_0 simp_thms eq_commute [of 0]\<close>)
qed

lemma send_whole:
  assumes "str \<noteq> []" "length str < 2 ^ 63" "int (length str) \<le> n"
  shows "Socket_send s str \<lparr>script = ret n # rs, trace = tr\<rparr> =
    (Ok (), \<lparr>script = rs, trace = tr @ [(SysSend (m_Sd s) str, (ret n)\<lparr>rc := int (length str)\<rparr>)]\<rparr>)"
proof -
  obtain l0 :: size_t where l0: "l0 = of_nat (length str)" by simp
  have "l0 > 0" "l0 - size_t_of_int (int (length str)) = 0"
    using of_nat_size_t_pos [of "length str"] assms size_t_minus_sent [of "int (length str)" "length str"] l0
    by simp_all
  with assms(3) show ?thesis
    by (simp add: Socket_send_def send_round Let_def send_done min_absorb2 flip: l0)
qed

section \<open>Rounds of recv_loop\<close>

lemma recv_loop_round:
  assumes "c \<noteq> []" "length c \<le> 256" "strip_crlf oob (buf @ c) = Inr x"
  shows "loop_io (Socket_recv_loop_step oob fd) buf \<lparr>script = ret_data c # rs, trace = tr\<rparr> =
    loop_io (Socket_recv_loop_step oob fd) x \<lparr>script = rs, trace = tr @ [(SysRecv fd 256, ret_data c)]\<rparr>"
  using assms
  by (subst recv_loop_loop.loop_unfold)
    (simp add: Socket_recv_loop_step_def [of oob fd buf] bindIO_def syscall_Cons count_ret_data liftE_def returnIO_def)

lemma recv_loop_end:
  "loop_io (Socket_recv_loop_step oob fd) buf \<lparr>script = ret 0 # rs, trace = tr\<rparr> =
    (Ok buf, \<lparr>script = rs, trace = tr @ [(SysRecv fd 256, ret 0)]\<rparr>)"
  by (subst recv_loop_loop.loop_unfold)
    (simp add: Socket_recv_loop_step_def [of oob fd buf] bindIO_def syscall_Cons count_ret_def returnIO_def ret_def)

lemma recv_loop_pieces:
  assumes "\<forall>c \<in> set cs. c \<noteq> [] \<and> length c \<le> 256 \<and> \<not> is_crlf (last c)"
  shows "fst (loop_io (Socket_recv_loop_step oob fd) buf \<lparr>script = map ret_data cs @ [ret 0], trace = tr\<rparr>) =
    Ok (buf @ concat cs)"
  using assms
proof (induction cs arbitrary: buf tr)
  case Nil
  then show ?case by (simp add: recv_loop_end)
next
  case (Cons c cs)
  then have "strip_crlf oob (buf @ c) = Inr (buf @ c)" by (intro strip_crlf_plain) auto
  with Cons show ?case by (simp add: recv_loop_round)
qed

section \<open>Properties\<close>

text \<open>
  C8: descriptors of the three methods that open one, on every behaviour of the kernel.
  On return the object owns the only descriptor opened, and it is positive; after an exception nothing
  stays open, except a descriptor numbered 0, which the methods take for an error, and,
  in the \<open>connect\<close> with a timeout, the descriptor whose flags could not be set.
\<close>

theorem Socket_descriptors:
  "wp (Socket_connect s host port)
     (\<lambda>s' w. open_fds w = {m_Sd s'} \<and> 0 < m_Sd s') (\<lambda>e w. open_fds w \<subseteq> {0}) (\<lambda>w. True)
     \<lparr>script = rs, trace = []\<rparr> \<and>
   wp (Socket_createServerSocket s uport qsize)
     (\<lambda>s' w. open_fds w = {m_Sd s'} \<and> 0 < m_Sd s') (\<lambda>e w. open_fds w \<subseteq> {0}) (\<lambda>w. True)
     \<lparr>script = rs, trace = []\<rparr> \<and>
   wp (Socket_connect_timed s host port timeout)
     (\<lambda>s' w. open_fds w = {m_Sd s'} \<and> 0 < m_Sd s')
     (\<lambda>e w. if e = Throw ''make nonblocked: '' then \<exists>sd > 0. open_fds w = {sd} else open_fds w \<subseteq> {0})
     (\<lambda>w. True) \<lparr>script = rs, trace = []\<rparr>"
  by (intro conjI)
    (auto simp: Socket_connect_def Socket_createServerSocket_def Socket_connect_timed_def resolve_def
      set_non_blocked_impl_def Socket_setReuseAddr_def wp_syscall open_fds_def Let_def
      split: list.splits)

text \<open>
  C12: \<open>send\<close> delivers the whole string when the kernel takes it in one or two calls. When it
  needs a third call, that call starts at the length of the second part instead of
  at the sum of the first two: the peer gets bytes that it already had.
\<close>

theorem Socket_send_chunks:
  assumes "length str < 2 ^ 63" and "0 < n" and "0 < k"
  shows "(int (length str) \<le> n \<and> str \<noteq> [] \<longrightarrow>
            (\<exists>w. run (Socket_send s str) [ret n] = (Ok (), w) \<and> sent_bytes (m_Sd s) (trace w) = str)) \<and>
         (n + k = int (length str) \<longrightarrow>
            (\<exists>w. run (Socket_send s str) [ret n, ret k] = (Ok (), w) \<and>
               sent_bytes (m_Sd s) (trace w) = str)) \<and>
         (n + k < int (length str) \<longrightarrow>
            (\<exists>w. run (Socket_send s str) [ret n, ret k, ret_err e] = (Fail (Throw ''write failed: ''), w) \<and>
               map fst (trace w) = [SysSend (m_Sd s) str, SysSend (m_Sd s) (drop (nat n) str),
                 SysSend (m_Sd s) (drop (nat k) str)]))"
proof (intro conjI impI)
  have big: "length str < 2 ^ 64" using assms(1) by simp
  let ?fd = "m_Sd s"
  have start: "run (Socket_send s str) (r # rs) =
      loop_io (Socket_send_step ?fd str) (of_nat (length str), 0) \<lparr>script = r # rs, trace = []\<rparr>" for r rs
    by (simp add: run_def Socket_send_def)
  obtain l0 :: size_t where l0: "l0 = of_nat (length str)" by simp
  {
    assume a: "int (length str) \<le> n \<and> str \<noteq> []"
    then have "l0 > 0" "l0 - size_t_of_int (int (length str)) = 0"
      using of_nat_size_t_pos [OF _ big] size_t_minus_sent [of "int (length str)" "length str"] l0 by simp_all
    with a assms(2) show "\<exists>w. run (Socket_send s str) [ret n] = (Ok (), w) \<and> sent_bytes ?fd (trace w) = str"
      by (simp add: start send_round Let_def send_done min_absorb2 flip: l0)
  next
    assume a: "n + k = int (length str)"
    obtain l1 where "l0 - size_t_of_int n = l1" "l0 > 0" "l1 > 0" "l1 - size_t_of_int k = 0"
      using sent_two [of n k "length str"] a assms l0 by auto
    with a assms show "\<exists>w. run (Socket_send s str) [ret n, ret k] = (Ok (), w) \<and> sent_bytes ?fd (trace w) = str"
      by (simp add: start send_round Let_def send_done flip: l0)
  next
    assume a: "n + k < int (length str)"
    obtain l1 l2 where "l0 - size_t_of_int n = l1" "l0 > 0" "l1 > 0" "l1 - size_t_of_int k = l2" "l2 > 0"
      using sent_two [of n k "length str"] a assms l0 by auto
    with a assms show "\<exists>w. run (Socket_send s str) [ret n, ret k, ret_err e] = (Fail (Throw ''write failed: ''), w) \<and>
        map fst (trace w) = [SysSend ?fd str, SysSend ?fd (drop (nat n) str), SysSend ?fd (drop (nat k) str)]"
      by (simp add: start send_round Let_def flip: l0)
  }
qed

theorem Socket_send_chunks_witness:
  "\<exists>w. run (Socket_send (Socket_of 5) ''abcdef'') [ret 1, ret 2, ret_err 32] =
         (Fail (Throw ''write failed: ''), w) \<and>
       map fst (trace w) = [SysSend 5 ''abcdef'', SysSend 5 ''bcdef'', SysSend 5 ''cdef'']"
  using Socket_send_chunks [of "''abcdef''" 1 2 "Socket_of 5" 32] by (simp add: Socket_of_def)

text \<open>
  C9: \<open>recv(bytes)\<close> returns exactly \<open>bytes\<close> bytes, those the kernel delivered, in order,
  and fails as soon as the stream ends or errs before; and when the
  bytes arrive, in however many pieces, it does return them.
\<close>

theorem Socket_recv_n_exact:
  assumes "\<forall>c \<in> set cs. c \<noteq> []" and "length (concat cs) = bytes" and "bytes \<le> PTRDIFF_MAX"
  shows "wp (Socket_recv_n s n)
     (\<lambda>str w. str = received_bytes (m_Sd s) (trace w) \<and> length str = n)
     (\<lambda>e w. e = Throw ''read failed: '' \<and> length (received_bytes (m_Sd s) (trace w)) < n \<or>
        e = Throw ''std::bad_array_new_length'' \<and> PTRDIFF_MAX < n)
     (\<lambda>w. length (received_bytes (m_Sd s) (trace w)) < n) \<lparr>script = rs, trace = []\<rparr> \<and>
   fst (run (Socket_recv_n s bytes) (map ret_data cs)) = Ok (concat cs)"
proof
  have "Socket_recv_n s bytes = loop_io (Socket_recv_n_step (m_Sd s) bytes) []"
    using assms(3) by (simp add: Socket_recv_n_def new_array_def liftE_def)
  with recv_n_chunks [OF assms(1), of "[]" bytes "m_Sd s" "[]" "[]"] assms(2)
  show "fst (run (Socket_recv_n s bytes) (map ret_data cs)) = Ok (concat cs)" by (auto simp: run_def)
qed (rule recv_n_wp)

theorem Socket_recv_n_exact_witness:
  "fst (run (Socket_recv_n (Socket_of 4) 5) [ret_data ''he'', ret_data ''llo'']) = Ok ''hello''"
  using Socket_recv_n_exact [of "[''he'', ''llo'']" 5 "Socket_of 4" 0 "[]"] by simp

text \<open>
  \<open>recv()\<close> on every response of the kernel: the error, end-of-stream and timeout
  exceptions, the data without its trailing CR and LF; and, when the data is nothing but CR
  and LF, a read outside of the emptied string.
\<close>

theorem Socket_recv_cases:
  "fst (run (Socket_recv oob s) [r]) =
     (if rc r < 0 then
        Fail (Throw (if err r = EAGAIN then ''client: '' @ to_string (m_Sd s) @ '' timeouted''
                     else ''read failed: ''))
      else if payload r = [] then Fail (Throw (''client: '' @ to_string (m_Sd s) @ '' disconnected''))
      else if rstrip (take 128 (payload r)) \<noteq> [] then Ok (rstrip (take 128 (payload r)))
      else case oob of
             None \<Rightarrow> Fail (Undefined OutOfBoundsRead)
           | Some c \<Rightarrow> if is_crlf c then Fail (Undefined PopBackEmpty) else Ok [])"
proof -
  have e: "strip_crlf oob [] = (case oob of None \<Rightarrow> Inl (Undefined OutOfBoundsRead)
      | Some c \<Rightarrow> if is_crlf c then Inl (Undefined PopBackEmpty) else Inr [])"
    by (subst strip_crlf.simps) simp
  have "min (length (payload r)) 128 = 0 \<longleftrightarrow> payload r = []" by (auto simp: min_def)
  then show ?thesis
    by (simp add: run_def Socket_recv_def bindIO_def syscall_Cons count_ret_def failIO_def liftE_def
        returnIO_def strip_crlf_rstrip [of oob "take 128 (payload r)"] e split: option.splits)
qed

text \<open>
  \<open>recv_loop\<close> strips trailing CR and LF after every piece, not only at the end: what it
  returns depends on how the kernel cuts the stream. Pieces that end in other bytes are
  concatenated unchanged; a line end at the end of a piece is lost, so that two
  lines become one.
\<close>

theorem Socket_recv_loop_segments:
  assumes "\<forall>c \<in> set cs. c \<noteq> [] \<and> length c \<le> 256 \<and> \<not> is_crlf (last c)"
    and "length a \<le> 254" and "length b \<le> 256" and "a \<noteq> []" and "b \<noteq> []"
    and "\<not> is_crlf (last a)" and "\<not> is_crlf (last b)"
  shows "fst (run (Socket_recv_loop oob s) (map ret_data cs @ [ret 0])) = Ok (concat cs) \<and>
         fst (run (Socket_recv_loop oob s) [ret_data (a @ crlf), ret_data b, ret 0]) = Ok (a @ b)"
proof
  show "fst (run (Socket_recv_loop oob s) (map ret_data cs @ [ret 0])) = Ok (concat cs)"
    using recv_loop_pieces [OF assms(1), of oob "m_Sd s" "[]"] by (simp add: run_def Socket_recv_loop_def)
  have "rstrip (a @ crlf) = a"
    using rstrip_snoc [of "a @ [CHR 0x0D]" "CHR 0x0A"] rstrip_snoc [of a "CHR 0x0D"]
      rstrip_snoc [of "butlast a" "last a"] assms(4,6) by (simp add: is_crlf_def)
  then have "strip_crlf oob ([] @ (a @ crlf)) = Inr a"
    using assms(4) by (simp add: strip_crlf_rstrip [of oob "a @ crlf"])
  moreover have "strip_crlf oob (a @ b) = Inr (a @ b)" using assms(5,7) by (intro strip_crlf_plain) auto
  ultimately show "fst (run (Socket_recv_loop oob s) [ret_data (a @ crlf), ret_data b, ret 0]) = Ok (a @ b)"
    using assms recv_loop_round [of "a @ crlf" oob "[]" a] recv_loop_round [of b oob a "a @ b"]
    by (simp add: run_def Socket_recv_loop_def recv_loop_end)
qed

theorem Socket_recv_loop_segments_witness:
  "fst (run (Socket_recv_loop None (Socket_of 4)) [ret_data (''one'' @ crlf), ret_data ''two'', ret 0]) =
     Ok ''onetwo'' \<and>
   fst (run (Socket_recv_loop None (Socket_of 4)) [ret_data (''one'' @ crlf @ ''two''), ret 0]) =
     Ok (''one'' @ crlf @ ''two'')"
  using Socket_recv_loop_segments [of "[''one'' @ crlf @ ''two'']" "''one''" "''two''" None "Socket_of 4"]
  by (simp add: is_crlf_def)

text \<open>
  C15: \<open>parse_protocol\<close> on a message whose header is complete and has a \<open>Content-Length\<close>
  field with a number: it reports how much of the body is still to come; when more than the
  announced body has arrived, the difference wraps around to a huge count.
\<close>

theorem parse_protocol_bytes_left:
  assumes "str_find buf (crlf @ crlf) 0 = Some h"
    and "str_find buf ''Content-Length: '' 0 = Some p"
    and "drop (p + 16) buf = to_string n @ crlf @ rest" and "0 \<le> n" and "n \<le> INT_MAX"
    and "length buf < 2 ^ 63"
  shows "\<exists>left. parse_protocol buf bytes_left = Inr (True, left) \<and>
           unat left = (if length (drop (h + 4) buf) \<le> nat n then nat n - length (drop (h + 4) buf)
                        else 2 ^ 64 - (length (drop (h + 4) buf) - nat n))"
proof -
  let ?ds = "to_string n"
  have ds: "?ds = nat_to_string (nat n)" using assms(4) by (simp add: to_string_def)
  have dig: "\<forall>c \<in> set ?ds. is_digit c" using nat_to_string_digits [of "nat n"] ds by (simp add: list_all_iff)
  have lp: "p + 16 \<le> length buf" using assms(3) ds by (cases "p + 16 \<le> length buf") auto
  have hp: "h + 4 \<le> length buf"
  proof -
    have "take 4 (drop h buf) = crlf @ crlf"
      using find_at_Some [of "crlf @ crlf" buf 0 h] assms(1) by (simp add: str_find_def eval_nat_numeral)
    then show ?thesis by (cases "h + 4 \<le> length buf") (auto dest!: arg_cong [where f = length])
  qed
  have "find_at crlf (?ds @ crlf @ rest) (p + 16) = Some (p + 16 + length ?ds)"
  proof (rule find_at_split)
    fix j assume "j < length ?ds"
    with dig have "is_digit (?ds ! j)" by simp
    then have "?ds ! j \<noteq> CHR 0x0D" by (auto simp: is_digit_def)
    with \<open>j < length ?ds\<close> show "take (length crlf) (drop j (?ds @ crlf @ rest)) \<noteq> crlf"
      by (auto simp: take_Suc_conv_app_nth Cons_nth_drop_Suc [symmetric] numeral_2_eq_2 simp flip: Cons_nth_drop_Suc)
  qed
  then have f: "str_find buf crlf (p + 16) = Some (p + 16 + length ?ds)"
    using assms(3) lp by (simp add: str_find_def)
  have "str_substr buf (p + 16) (Some (p + 16 + length ?ds)) = Inr (?ds @ take (p + 16) (crlf @ rest))"
    using lp assms(3) by (simp add: str_substr_def)
  moreover have "stoi (?ds @ take (p + 16) (crlf @ rest)) = Inr n"
    using assms(4,5) by (intro stoi_to_string) (auto simp: in_int_range_def is_digit_def take_Cons')
  moreover have "str_substr buf (h + 4) None = Inr (drop (h + 4) buf)" using hp by (simp add: str_substr_def)
  moreover have "p + length ''Content-Length: '' = p + 16" by simp
  ultimately have "parse_protocol buf bytes_left = Inr (True, size_t_of_int n - of_nat (length (drop (h + 4) buf)))"
    by (simp only: parse_protocol_def assms(1,2) option.case Let_def f bindE.simps)
  moreover have "unat (size_t_of_int n) = nat n" using assms(4,5) by (simp add: unat_size_t_of_int)
  moreover have "unat (of_nat (length (drop (h + 4) buf)) :: size_t) = length (drop (h + 4) buf)"
    using assms(6) by (intro unat_of_nat_size_t) simp
  ultimately show ?thesis by (auto simp: unat_sub_if' simp del: length_drop)
qed

theorem parse_protocol_bytes_left_witness:
  "\<exists>left. parse_protocol (''Content-Length: 7'' @ crlf @ crlf @ ''abc'') 0 = Inr (True, left) \<and> unat left = 4"
proof -
  have n: "to_string 7 = ''7''" by code_simp
  have "\<exists>left. parse_protocol (''Content-Length: 7'' @ crlf @ crlf @ ''abc'') 0 = Inr (True, left) \<and>
    unat left = (if length (drop (17 + 4) (''Content-Length: 7'' @ crlf @ crlf @ ''abc'')) \<le> nat 7
      then nat 7 - length (drop (17 + 4) (''Content-Length: 7'' @ crlf @ crlf @ ''abc''))
      else 2 ^ 64 - (length (drop (17 + 4) (''Content-Length: 7'' @ crlf @ crlf @ ''abc'')) - nat 7))"
    by (rule parse_protocol_bytes_left [where p = 0 and rest = "crlf @ ''abc''"])
      (simp_all add: str_find_def n)
  then show ?thesis by simp
qed

end
