(* ===== verification/Tp_Engine.thy ===== *)
theory Tp_Engine
  imports Socket
begin

text \<open>
  What the engines of \<open>net/libtpevent\<close> share: \<open>engine.hpp\<close> and \<open>engine.cpp\<close> (the client
  record and the base class with its listening socket), and the vocabulary in which the
  engines' use of descriptors is described: the descriptors open after a trace that
  started with some of them open, and traces in which every \<open>accept\<close> gave a new
  descriptor that fits into an \<open>fd_set\<close>.
\<close>

section \<open>engine.hpp and engine.cpp\<close>

datatype client_state_t = WANT_READ | WANT_WRITE

record client =
  cl_sd :: int
  cl_state :: client_state_t

definition Client :: "int \<Rightarrow> client" where
  "Client sd = \<lparr>cl_sd = sd, cl_state = WANT_READ\<rparr>"

definition Client_in :: "int \<Rightarrow> client_state_t \<Rightarrow> client" where
  "Client_in sd state = \<lparr>cl_sd = sd, cl_state = state\<rparr>"

lemma Client_simps [simp]: "cl_sd (Client fd) = fd" "cl_state (Client fd) = WANT_READ"
  by (simp_all add: Client_def)

abbreviation kListenQueueSize :: "32 word" where
  "kListenQueueSize \<equiv> 25"

definition Engine_listenSocket :: "32 word \<Rightarrow> 32 word \<Rightarrow> int io" where
  "Engine_listenSocket port listen_queue_size =
     bindIO (syscall SysSocket) (\<lambda>sd.
     if rc sd \<le> 0 then returnIO (- 1)
     else
       bindIO (syscall (SysSetsockopt (rc sd) ''SO_REUSEADDR'')) (\<lambda>r.
       if rc r = - 1 then returnIO (- 1)
       else
         bindIO (syscall (SysBind (rc sd) (port16 (uint port)))) (\<lambda>b.
         if rc b < 0 then returnIO (- 1)
         else
           bindIO (syscall (SysListen (rc sd) (unat listen_queue_size))) (\<lambda>_.
           returnIO (rc sd)))))"

text \<open>The constructor gives the value of \<open>m_Listener\<close>.\<close>

definition Engine_ctor :: "int \<Rightarrow> int io" where
  "Engine_ctor port =
     bindIO (Engine_listenSocket (word_of_int port) kListenQueueSize) (\<lambda>listener.
     if listener \<le> 0 then failIO (Throw ''error listen socket: '') else returnIO listener)"

definition Engine_dtor :: "int \<Rightarrow> unit io" where
  "Engine_dtor listener = bindIO (syscall (SysClose listener)) (\<lambda>_. returnIO ())"

section \<open>Descriptor sets and the bits of poll\<close>

text \<open>The descriptors that \<open>FD_SET\<close> can put into an \<open>fd_set\<close>.\<close>

definition in_fd_set :: "int \<Rightarrow> bool" where
  "in_fd_set fd \<longleftrightarrow> 0 \<le> fd \<and> fd < 1024"


abbreviation POLLIN :: int where "POLLIN \<equiv> 1"
abbreviation POLLOUT :: int where "POLLOUT \<equiv> 4"
abbreviation POLLERR :: int where "POLLERR \<equiv> 8"
abbreviation POLLHUP :: int where "POLLHUP \<equiv> 16"
abbreviation POLLNVAL :: int where "POLLNVAL \<equiv> 32"

unbundle bit_operations_syntax

definition has_bit :: "int \<Rightarrow> int \<Rightarrow> bool" where
  "has_bit revents flag \<longleftrightarrow> revents AND flag \<noteq> 0"

text \<open>The \<open>revents\<close> fields of the first \<open>n\<close> entries; \<open>poll\<close> sets each.\<close>

definition revents_of :: "nat \<Rightarrow> sys_ret \<Rightarrow> int list" where
  "revents_of n r = map (\<lambda>i. if i < length (marks r) then marks r ! i else 0) [0..<n]"

lemma length_revents_of [simp]: "length (revents_of n r) = n"
  by (simp add: revents_of_def)

section \<open>Descriptors of a server\<close>

definition open_from :: "int set \<Rightarrow> world \<Rightarrow> int set" where
  "open_from fds w = foldl fd_step fds (trace w)"

fun accept_fresh :: "int set \<Rightarrow> sys_call \<times> sys_ret \<Rightarrow> bool" where
  "accept_fresh fds (SysAccept l, r) \<longleftrightarrow> 0 < rc r \<and> rc r < 1024 \<and> rc r \<notin> fds"
| "accept_fresh fds _ \<longleftrightarrow> True"

text \<open>
  A predicate of each event and of the descriptors open before it, along a trace.
\<close>

fun trace_all :: "(int set \<Rightarrow> sys_call \<times> sys_ret \<Rightarrow> bool) \<Rightarrow> int set \<Rightarrow> (sys_call \<times> sys_ret) list \<Rightarrow> bool" where
  "trace_all P fds [] \<longleftrightarrow> True"
| "trace_all P fds (e # tr) \<longleftrightarrow> P fds e \<and> trace_all P (fd_step fds e) tr"

lemma trace_all_append:
  "trace_all P fds (tr @ tr') \<longleftrightarrow> trace_all P fds tr \<and> trace_all P (foldl fd_step fds tr) tr'"
  by (induction tr arbitrary: fds) auto

definition fresh_from :: "int set \<Rightarrow> world \<Rightarrow> bool" where
  "fresh_from fds w \<longleftrightarrow> trace_all accept_fresh fds (trace w)"

text \<open>
  What a server with this listener may do: only open descriptors are used; the listener is not read,
  written or closed; the set \<open>select\<close> or \<open>poll\<close> is given relates to the open ones by \<open>watched\<close>.
\<close>

fun use_ok :: "(int set \<Rightarrow> int set \<Rightarrow> bool) \<Rightarrow> int \<Rightarrow> int set \<Rightarrow> sys_call \<times> sys_ret \<Rightarrow> bool" where
  "use_ok watched l fds (SysClose fd, r) \<longleftrightarrow> fd \<in> fds \<and> fd \<noteq> l"
| "use_ok watched l fds (SysRead fd n, r) \<longleftrightarrow> fd \<in> fds \<and> fd \<noteq> l"
| "use_ok watched l fds (SysWrite fd s, r) \<longleftrightarrow> fd \<in> fds \<and> fd \<noteq> l"
| "use_ok watched l fds (SysRecv fd n, r) \<longleftrightarrow> fd \<in> fds \<and> fd \<noteq> l"
| "use_ok watched l fds (SysSend fd s, r) \<longleftrightarrow> fd \<in> fds \<and> fd \<noteq> l"
| "use_ok watched l fds (SysAccept fd, r) \<longleftrightarrow> fd \<in> fds \<and> fd = l"
| "use_ok watched l fds (SysSelect rd wr, r) \<longleftrightarrow> watched fds (set rd \<union> set wr)"
| "use_ok watched l fds (SysPoll ps, r) \<longleftrightarrow> watched fds (fst ` set ps)"
| "use_ok watched l fds _ \<longleftrightarrow> True"

text \<open>All open descriptors are watched; only open descriptors are watched.\<close>

definition all_open :: "int set \<Rightarrow> int set \<Rightarrow> bool" where
  "all_open fds s \<longleftrightarrow> s = fds"

definition only_open :: "int set \<Rightarrow> int set \<Rightarrow> bool" where
  "only_open fds s \<longleftrightarrow> s \<subseteq> fds"

definition used_from :: "(int set \<Rightarrow> int set \<Rightarrow> bool) \<Rightarrow> int \<Rightarrow> int set \<Rightarrow> world \<Rightarrow> bool" where
  "used_from watched l fds w \<longleftrightarrow> trace_all (use_ok watched l) fds (trace w)"

lemma fresh_from_later: "later w w' \<Longrightarrow> fresh_from fds w' \<Longrightarrow> fresh_from fds w"
  by (auto simp: later_def fresh_from_def trace_all_append)

lemma used_from_snoc [simp]:
  "used_from watched l fds (after_call w rs e) \<longleftrightarrow>
     used_from watched l fds w \<and> use_ok watched l (open_from fds w) e"
  by (simp add: open_from_def used_from_def trace_all_append)

lemma used_from_start [simp]: "used_from watched l fds \<lparr>script = rs, trace = []\<rparr>"
  by (simp add: used_from_def)

lemma open_from_snoc [simp]:
  "open_from fds (after_call w rs e) = fd_step (open_from fds w) e"
  by (simp add: open_from_def)

lemma fresh_from_snoc [simp]:
  "fresh_from fds (after_call w rs e) \<longleftrightarrow>
     fresh_from fds w \<and> accept_fresh (open_from fds w) e"
  by (simp add: open_from_def fresh_from_def trace_all_append)

lemma open_from_start [simp]: "open_from fds \<lparr>script = rs, trace = []\<rparr> = fds"
  by (simp add: open_from_def)

lemma fresh_from_start [simp]: "fresh_from fds \<lparr>script = rs, trace = []\<rparr>"
  by (simp add: fresh_from_def)

text \<open>
  The second half of a round of the \<open>select\<close> and \<open>poll\<close> engines: a client whose descriptor
  is in the list of disconnected ones is looked up and erased. \<open>drop_client\<close> is the
  \<open>find_if\<close>, \<open>assert\<close> and \<open>erase\<close>.
\<close>

fun drop_client :: "int \<Rightarrow> client list \<Rightarrow> cpp_error + client list" where
  "drop_client fd [] = Inl (Abort ''iterator != m_Clients.end()'')"
| "drop_client fd (c # cs) =
     (if cl_sd c = fd then Inr cs else bindE (drop_client fd cs) (\<lambda>cs'. Inr (c # cs')))"

lemma drop_client_in:
  assumes "fd \<in> cl_sd ` set cs" "distinct (map cl_sd cs)"
  shows "\<exists>cs'. drop_client fd cs = Inr cs' \<and> cl_sd ` set cs' = cl_sd ` set cs - {fd} \<and>
    distinct (map cl_sd cs') \<and> set cs' \<subseteq> set cs"
  using assms
proof (induction cs)
  case (Cons c cs)
  show ?case
  proof (cases "cl_sd c = fd")
    case True
    with Cons.prems show ?thesis by auto
  next
    case False
    with Cons obtain cs' where "drop_client fd cs = Inr cs'" "cl_sd ` set cs' = cl_sd ` set cs - {fd}"
      "distinct (map cl_sd cs')" "set cs' \<subseteq> set cs" by auto
    with False Cons.prems(2) show ?thesis by auto
  qed
qed simp

section \<open>Properties\<close>

text \<open>
  the constructor of an engine leaves exactly the listening socket open. When
  it throws, a socket that could be created but not configured or bound is
  still open: the only failures that leave nothing open are those of \<open>socket\<close> itself.
\<close>

theorem Engine_ctor_descriptors:
  "wp (Engine_ctor port)
     (\<lambda>listener w. open_fds w = {listener} \<and> 0 < listener)
     (\<lambda>e w. e = Throw ''error listen socket: '' \<and>
        (if length (trace w) = 1 then open_fds w \<subseteq> {0} else \<exists>sd > 0. open_fds w = {sd}))
     (\<lambda>w. True) \<lparr>script = rs, trace = []\<rparr>"
  by (auto simp: Engine_ctor_def Engine_listenSocket_def wp_syscall open_fds_def split: list.splits)

end
