(* ===== verification/Select_Engine.thy ===== *)
theory Select_Engine
  imports Tp_Engine
begin

text \<open>
  \<open>SelectEngine\<close> of \<open>net/libtpevent/src/select.cpp\<close>. The round of its loop is the step of a
  \<open>sys_loop\<close>; its state is \<open>m_Clients\<close>, in which the first entry is the listener. \<open>FD_SET\<close>
  of a descriptor that is negative or not below \<open>FD_SETSIZE\<close> writes outside the set.
\<close>

section \<open>Definitions\<close>

text \<open>The branch of the scan for a client that is ready to be read; gives whether it is disconnected.\<close>

definition SelectEngine_read :: "char option \<Rightarrow> int \<Rightarrow> bool io" where
  "SelectEngine_read oob fd =
     bindIO (syscall (SysRead fd 256)) (\<lambda>r.
     if rc r < 0 then returnIO True
     else
       bindIO (liftE (terminated_buf 256 (payload r))) (\<lambda>buf.
       bindIO (liftE (strip_crlf oob buf)) (\<lambda>tmp.
       if rc r > 0 then
         bindIO (syscall (SysWrite fd (''echo: '' @ tmp @ lf))) (\<lambda>_. returnIO False)
       else returnIO True)))"

text \<open>
  The scan over the clients, from the given rest of \<open>m_Clients\<close> on: a new client ends it
  (\<open>break\<close>). The result is the new client, if any, and the disconnected descriptors.
\<close>

fun SelectEngine_scan ::
  "char option \<Rightarrow> int \<Rightarrow> int list \<Rightarrow> client list \<Rightarrow> int list \<Rightarrow> (client list \<times> int list) io" where
  "SelectEngine_scan oob listener ready [] disconnected = returnIO ([], disconnected)"
| "SelectEngine_scan oob listener ready (c # cs) disconnected =
     (if cl_sd c \<notin> set ready then SelectEngine_scan oob listener ready cs disconnected
      else if cl_sd c = listener then
        bindIO (syscall (SysAccept listener)) (\<lambda>cli_sd. returnIO ([Client (rc cli_sd)], disconnected))
      else
        bindIO (SelectEngine_read oob (cl_sd c)) (\<lambda>gone.
        SelectEngine_scan oob listener ready cs (if gone then disconnected @ [cl_sd c] else disconnected)))"

text \<open>The removal of the disconnected clients.\<close>

fun SelectEngine_remove :: "int list \<Rightarrow> client list \<Rightarrow> client list io" where
  "SelectEngine_remove [] clients = returnIO clients"
| "SelectEngine_remove (fd # fds) clients =
     bindIO (liftE (drop_client fd clients)) (\<lambda>clients'.
     bindIO (syscall (SysClose fd)) (\<lambda>_.
     SelectEngine_remove fds clients'))"

definition SelectEngine_round :: "char option \<Rightarrow> int \<Rightarrow> client list \<Rightarrow> (client list + unit) io" where
  "SelectEngine_round oob listener clients =
     (if \<not> in_fd_set listener \<or> \<not> list_all (\<lambda>c. in_fd_set (cl_sd c)) clients
      then failIO (Undefined OutOfBoundsWrite)
      else
        bindIO (syscall (SysSelect (listener # map cl_sd clients) [])) (\<lambda>sel.
        if rc sel = - 1 then failIO (Exit 1)
        else if rc sel = 0 then returnIO (Inl clients)
        else
          bindIO (SelectEngine_scan oob listener (marks sel) clients []) (\<lambda>(new, disconnected).
          bindIO (SelectEngine_remove disconnected (clients @ new)) (\<lambda>clients'.
          returnIO (Inl clients')))))"

text \<open>\<open>manageConnections\<close>, which \<open>run\<close> starts in a thread and waits for.\<close>

definition SelectEngine_manageConnections :: "char option \<Rightarrow> int \<Rightarrow> client list \<Rightarrow> unit io" where
  "SelectEngine_manageConnections oob listener clients =
     loop_io (SelectEngine_round oob listener) (clients @ [Client listener])"

definition SelectEngine_run :: "char option \<Rightarrow> int \<Rightarrow> unit io" where
  "SelectEngine_run oob listener = SelectEngine_manageConnections oob listener []"

section \<open>The loop\<close>

lemma SelectEngine_read_shrinks [shrinks_intros]: "shrinks (SelectEngine_read oob fd)"
  unfolding SelectEngine_read_def by (intro shrinks_intros)

lemma SelectEngine_scan_shrinks [shrinks_intros]:
  "shrinks (SelectEngine_scan oob listener ready cs disconnected)"
  by (induction oob listener ready cs disconnected rule: SelectEngine_scan.induct)
    (auto intro!: shrinks_intros)

lemma SelectEngine_remove_shrinks [shrinks_intros]: "shrinks (SelectEngine_remove fds clients)"
  by (induction fds clients rule: SelectEngine_remove.induct) (auto intro!: shrinks_intros)

interpretation select_loop: sys_loop "SelectEngine_round oob listener" for oob listener
  by unfold_locales (unfold SelectEngine_round_def, intro progress_intros shrinks_intros)

section \<open>Descriptors\<close>

text \<open>
  The invariant of a round: the clients are exactly the open descriptors, each once, and
  every one fits into an \<open>fd_set\<close>.
\<close>

definition clients_ok :: "int \<Rightarrow> client list \<Rightarrow> world \<Rightarrow> bool" where
  "clients_ok l cs w \<longleftrightarrow>
     distinct (map cl_sd cs) \<and> cl_sd ` set cs = open_from {l} w \<and> l \<in> open_from {l} w \<and>
     (\<forall>fd \<in> open_from {l} w. in_fd_set fd) \<and> used_from all_open l {l} w"

text \<open>The errors a round can end with: never the \<open>assert\<close>.\<close>

definition select_error :: "cpp_error \<Rightarrow> bool" where
  "select_error e \<longleftrightarrow>
     e \<in> {Exit 1, Undefined OutOfBoundsWrite, Undefined OutOfBoundsRead, Undefined PopBackEmpty}"

lemma select_error_exit: "select_error (Exit 1)"
  by (simp add: select_error_def)

lemma strip_crlf_error: "strip_crlf oob s = Inl e \<Longrightarrow> e = Undefined OutOfBoundsRead \<or> e = Undefined PopBackEmpty"
  by (induction oob s rule: strip_crlf.induct)
    (subst (asm) (2) strip_crlf.simps, auto split: option.splits if_splits)

lemma select_read_wp:
  assumes "fd \<in> open_from F w" "fd \<noteq> l" "used_from all_open l F w"
  shows "wp (SelectEngine_read oob fd)
    (\<lambda>_ w'. open_from F w' = open_from F w \<and> used_from all_open l F w' \<and> fresh_from F w' = fresh_from F w)
    (\<lambda>e w'. select_error e \<and> used_from all_open l F w') (\<lambda>w'. used_from all_open l F w') w"
  using assms
  by (auto simp: SelectEngine_read_def wp_syscall select_error_def terminated_buf_def
      split: list.splits sum.splits dest: strip_crlf_error)

text \<open>What a scan has done when it ends, on a trace with fresh descriptors.\<close>

definition scanned ::
  "int set \<Rightarrow> int \<Rightarrow> int list \<Rightarrow> client list \<Rightarrow> world \<Rightarrow> client list \<times> int list \<Rightarrow> world \<Rightarrow> bool" where
  "scanned F l disc cs w = (\<lambda>(new, disc') w'. fresh_from F w' \<longrightarrow>
     fresh_from F w \<and> used_from all_open l F w' \<and>
     (\<exists>ds. disc' = disc @ ds \<and> set ds \<subseteq> cl_sd ` set cs - {l} \<and> distinct ds) \<and>
     (new = [] \<and> open_from F w' = open_from F w \<or>
      (\<exists>fd. new = [Client fd] \<and> fd \<notin> open_from F w \<and> in_fd_set fd \<and>
         open_from F w' = insert fd (open_from F w))))"

lemma scanned_Cons:
  assumes "scanned F l (if g then disc @ [cl_sd c] else disc) cs w1 r w'"
    and "open_from F w1 = open_from F w \<and> fresh_from F w1 = fresh_from F w"
    and "g \<longrightarrow> cl_sd c \<noteq> l" "distinct (map cl_sd (c # cs))"
  shows "scanned F l disc (c # cs) w r w'"
  using assms by (cases r) (fastforce simp: scanned_def split: if_splits)

lemma select_scan_wp:
  assumes "cl_sd ` set cs \<subseteq> open_from F w" "distinct (map cl_sd cs)" "used_from all_open l F w"
    "l \<in> open_from F w"
  shows "wp (SelectEngine_scan oob l ready cs disc) (scanned F l disc cs w)
    (\<lambda>e w'. select_error e \<and> used_from all_open l F w') (\<lambda>w'. used_from all_open l F w') w"
  using assms
proof (induction oob l ready cs disc arbitrary: w rule: SelectEngine_scan.induct)
  case (1 oob listener ready disconnected)
  then show ?case by (auto simp: scanned_def)
next
  case (2 oob listener ready c cs disconnected)
  consider (skip) "cl_sd c \<notin> set ready" | (acc) "cl_sd c \<in> set ready" "cl_sd c = listener"
    | (rd) "cl_sd c \<in> set ready" "cl_sd c \<noteq> listener" by blast
  then show ?case
  proof cases
    case skip
    have "wp (SelectEngine_scan oob listener ready cs disconnected) (scanned F listener disconnected cs w)
      (\<lambda>e w'. select_error e \<and> used_from all_open listener F w') (\<lambda>w'. used_from all_open listener F w') w"
      using skip 2(3-) by (intro 2(1)) auto
    then show ?thesis
      using skip 2(4) scanned_Cons [of F listener False disconnected c cs w _ _ w]
      by (auto elim!: wp_mono)
  next
    case acc
    with 2(3-) show ?thesis
      by (auto simp: wp_syscall in_fd_set_def scanned_def split: list.splits)
  next
    case rd
    have "wp (SelectEngine_read oob (cl_sd c))
      (\<lambda>_ w'. open_from F w' = open_from F w \<and> used_from all_open listener F w' \<and>
         fresh_from F w' = fresh_from F w)
      (\<lambda>e w'. select_error e \<and> used_from all_open listener F w') (\<lambda>w'. used_from all_open listener F w') w"
      using 2(3-) rd by (intro select_read_wp) auto
    moreover have "wp (SelectEngine_scan oob listener ready cs
         (if g then disconnected @ [cl_sd c] else disconnected)) (scanned F listener disconnected (c # cs) w)
       (\<lambda>e w'. select_error e \<and> used_from all_open listener F w') (\<lambda>w'. used_from all_open listener F w') w1"
      if w1: "open_from F w1 = open_from F w \<and> used_from all_open listener F w1 \<and>
        fresh_from F w1 = fresh_from F w" for g w1
      using w1 rd 2(3-)
      by (intro wp_mono [OF 2(2)] scanned_Cons [of F listener g disconnected c cs w1 _ _ w]) auto
    ultimately show ?thesis using rd by (auto elim!: wp_mono)
  qed
qed

lemma select_remove_wp:
  assumes "distinct fds" "set fds \<subseteq> cl_sd ` set cs - {l}" "distinct (map cl_sd cs)"
    "cl_sd ` set cs = open_from F w" "used_from all_open l F w"
  shows "wp (SelectEngine_remove fds cs)
    (\<lambda>cs' w'. distinct (map cl_sd cs') \<and> cl_sd ` set cs' = open_from F w' \<and>
       open_from F w' = open_from F w - set fds \<and> used_from all_open l F w' \<and>
       fresh_from F w' = fresh_from F w)
    (\<lambda>e w'. False) (\<lambda>w'. used_from all_open l F w') w"
  using assms
proof (induction fds cs arbitrary: w rule: SelectEngine_remove.induct)
  case (1 clients)
  then show ?case by simp
next
  case (2 fd fds clients)
  from drop_client_in [of fd clients] 2(2-) obtain cs' where
    cs': "drop_client fd clients = Inr cs'" "cl_sd ` set cs' = cl_sd ` set clients - {fd}"
    "distinct (map cl_sd cs')" by auto
  show ?case
  proof (cases "script w")
    case Nil
    with cs' 2(2-) show ?thesis by (simp add: wp_syscall)
  next
    case (Cons r rs)
    let ?w = "after_call w rs (SysClose fd, norm_ret (SysClose fd) r)"
    have "open_from F ?w = open_from F w - {fd}" "used_from all_open l F ?w" "fresh_from F ?w = fresh_from F w"
      using 2(2-) by auto
    moreover have "set fds \<subseteq> cl_sd ` set cs' - {l}" "open_from F w - {fd} - set fds = open_from F w - set (fd # fds)"
      using 2(2,3) cs'(2) by auto
    ultimately show ?thesis using 2(1) [of cs' ?w] cs' 2(2-) Cons by (simp add: wp_syscall)
  qed
qed

lemma select_round_wp:
  assumes "fresh_from {l} w" "clients_ok l cs w"
  shows "wp (SelectEngine_round oob l cs)
    (\<lambda>r w'. fresh_from {l} w' \<longrightarrow> (case r of Inl cs' \<Rightarrow> clients_ok l cs' w' | Inr x \<Rightarrow> False))
    (\<lambda>e w'. fresh_from {l} w' \<longrightarrow> select_error e \<and> used_from all_open l {l} w')
    (\<lambda>w'. fresh_from {l} w' \<longrightarrow> used_from all_open l {l} w') w"
proof (cases "script w")
  case Nil
  with assms show ?thesis
    by (auto simp: SelectEngine_round_def clients_ok_def list_all_iff wp_syscall select_error_def)
next
  case (Cons r rs)
  let ?c = "SysSelect (l # map cl_sd cs) []" and ?F = "{l}"
  let ?r = "norm_ret ?c r"
  let ?w = "after_call w rs (?c, ?r)"
  have sets: "in_fd_set l" "list_all (\<lambda>c. in_fd_set (cl_sd c)) cs"
    using assms(2) by (auto simp: clients_ok_def list_all_iff)
  have w1: "open_from ?F ?w = open_from ?F w" "used_from all_open l ?F ?w" "clients_ok l cs ?w"
    using assms(2) by (auto simp: clients_ok_def all_open_def)
  have scan: "wp (SelectEngine_scan oob l (marks ?r) cs []) (scanned ?F l [] cs ?w)
      (\<lambda>e w'. select_error e \<and> used_from all_open l ?F w') (\<lambda>w'. used_from all_open l ?F w') ?w"
    using w1(3) by (intro select_scan_wp) (auto simp: clients_ok_def)
  have remove: "wp (SelectEngine_remove disc (cs @ new))
      (\<lambda>cs' w'. fresh_from ?F w' \<longrightarrow> clients_ok l cs' w')
      (\<lambda>e w'. fresh_from ?F w' \<longrightarrow> select_error e \<and> used_from all_open l ?F w')
      (\<lambda>w'. fresh_from ?F w' \<longrightarrow> used_from all_open l ?F w') w2"
    if sc: "scanned ?F l [] cs ?w (new, disc) w2" for new disc w2
  proof (rule wp_guard [OF fresh_from_later SelectEngine_remove_shrinks])
    assume fr: "fresh_from ?F w2"
    with sc have "distinct disc" "set disc \<subseteq> cl_sd ` set cs - {l}"
      "used_from all_open l ?F w2" "cl_sd ` set (cs @ new) = open_from ?F w2" "distinct (map cl_sd (cs @ new))"
      "\<forall>fd \<in> open_from ?F w2. in_fd_set fd" "l \<in> open_from ?F w2"
      using w1(3) by (auto simp: scanned_def clients_ok_def)
    then show "wp (SelectEngine_remove disc (cs @ new))
      (\<lambda>cs' w'. fresh_from ?F w' \<longrightarrow> clients_ok l cs' w')
      (\<lambda>e w'. fresh_from ?F w' \<longrightarrow> select_error e \<and> used_from all_open l ?F w')
      (\<lambda>w'. fresh_from ?F w' \<longrightarrow> used_from all_open l ?F w') w2"
      by (intro wp_mono [OF select_remove_wp [of disc "cs @ new" l ?F w2]]) (auto simp: clients_ok_def)
  qed auto
  have "wp (bindIO (SelectEngine_scan oob l (marks ?r) cs []) (\<lambda>(new, disconnected).
          bindIO (SelectEngine_remove disconnected (cs @ new)) (\<lambda>clients'. returnIO (Inl clients'))))
    (\<lambda>r w'. fresh_from {l} w' \<longrightarrow> (case r of Inl cs' \<Rightarrow> clients_ok l cs' w' | Inr x \<Rightarrow> False))
    (\<lambda>e w'. fresh_from {l} w' \<longrightarrow> select_error e \<and> used_from all_open l {l} w')
    (\<lambda>w'. fresh_from {l} w' \<longrightarrow> used_from all_open l {l} w') ?w"
    unfolding wp_bind by (rule wp_mono [OF scan]) (auto simp del: norm_ret.simps intro!: remove)
  then show ?thesis
    using sets w1 Cons select_error_exit by (auto simp: SelectEngine_round_def wp_syscall simp del: norm_ret.simps)
qed

section \<open>Properties\<close>

text \<open>
  C25: for a listener that fits into an \<open>fd_set\<close>, on every behaviour of the kernel in which
  \<open>accept\<close> gives new descriptors that fit too: the loop never ends normally and never
  fails the \<open>assert\<close>; \<open>select\<close> is always given exactly the open descriptors (so no
  client is leaked or forgotten), only open client descriptors are read, written and
  closed, and the listener is only accepted on.
\<close>

theorem SelectEngine_descriptors:
  assumes "0 \<le> l" and "l < 1024"
  shows "wp (SelectEngine_run oob l)
    (\<lambda>_ w. fresh_from {l} w \<longrightarrow> False)
    (\<lambda>e w. fresh_from {l} w \<longrightarrow> select_error e \<and> used_from all_open l {l} w)
    (\<lambda>w. fresh_from {l} w \<longrightarrow> used_from all_open l {l} w)
    \<lparr>script = rs, trace = []\<rparr>"
  unfolding SelectEngine_run_def SelectEngine_manageConnections_def
  by (rule select_loop.loop_wp_guard [where I = "clients_ok l", OF fresh_from_later])
    (use assms select_round_wp in \<open>auto simp: clients_ok_def in_fd_set_def\<close>)

theorem SelectEngine_descriptors_witness:
  "\<exists>w. run (SelectEngine_run None 3)
       [(ret 1)\<lparr>marks := [3]\<rparr>, ret 5, (ret 1)\<lparr>marks := [5]\<rparr>, ret_data (''hi'' @ crlf), ret 9] = (Blocked, w) \<and>
     fresh_from {3} w \<and> used_from all_open 3 {3} w \<and> sent_bytes 5 (trace w) = ''echo: hi'' @ lf"
proof -
  let ?rs = "[(ret 1)\<lparr>marks := [3]\<rparr>, ret 5, (ret 1)\<lparr>marks := [5]\<rparr>, ret_data (''hi'' @ crlf), ret 9]"
  obtain w where w: "run (SelectEngine_run None 3) ?rs = (Blocked, w)" "fresh_from {3} w"
    "sent_bytes 5 (trace w) = ''echo: hi'' @ lf"
    by (simp add: run_def SelectEngine_run_def SelectEngine_manageConnections_def loop_io_def SelectEngine_round_def
      in_fd_set_def bindIO_def syscall_Cons syscall_Nil returnIO_def SelectEngine_read_def liftE_def
      terminated_buf_def strip_crlf.simps is_crlf_def ret_def ret_data_def count_ret_def fresh_from_def Client_def)
  from SelectEngine_descriptors [of 3 None ?rs] have "used_from all_open 3 {3} w"
    using w(1,2) by (simp add: wp_def run_def)
  with w show ?thesis by blast
qed

text \<open>
  what the engine does with a client that is ready: a line of fewer than 256 bytes is
  answered by its text, without the trailing CR and LF, behind \<open>echo:\<close>; a read error
  and the end of the stream disconnect the client, the latter after a read outside of
  an empty string; a full buffer makes the engine write its terminator outside of it.
\<close>

theorem SelectEngine_read_cases:
  "run (SelectEngine_read oob fd) [r, r'] =
     (let bs = take 256 (payload r); e = (SysRead fd 256, count_ret 256 r) in
      if rc r < 0 then (Ok True, \<lparr>script = [r'], trace = [e]\<rparr>)
      else if length bs = 256 then (Fail (Undefined OutOfBoundsWrite), \<lparr>script = [r'], trace = [e]\<rparr>)
      else case strip_crlf oob (takeWhile (\<lambda>c. c \<noteq> CHR 0x00) bs) of
             Inl u \<Rightarrow> (Fail u, \<lparr>script = [r'], trace = [e]\<rparr>)
           | Inr line \<Rightarrow>
               if bs = [] then (Ok True, \<lparr>script = [r'], trace = [e]\<rparr>)
               else (Ok False,
                 \<lparr>script = [], trace = [e, (SysWrite fd (''echo: '' @ line @ lf),
                    norm_ret (SysWrite fd (''echo: '' @ line @ lf)) r')]\<rparr>))"
proof -
  have "length (take 256 (payload r)) < 256 \<longleftrightarrow> length (take 256 (payload r)) \<noteq> 256" by auto
  moreover have "0 < int (length (take 256 (payload r))) \<longleftrightarrow> take 256 (payload r) \<noteq> []" by auto
  ultimately show ?thesis
    by (simp add: run_def SelectEngine_read_def bindIO_def syscall_Cons returnIO_def failIO_def liftE_def
        terminated_buf_def count_ret_def Let_def del: length_take split: sum.splits)
qed

end
