(* ===== verification/Poll_Engine.thy ===== *)
theory Poll_Engine
  imports Select_Engine
begin

text \<open>
  \<open>PollEngine\<close> of \<open>net/libtpevent/src/poll.cpp\<close>: two threads, \<open>acceptNewConnections\<close> and
  \<open>manageConnections\<close>, that share \<open>m_Clients\<close> without a lock. Each thread is a small-step machine
  with its own program counter. A step of the managing thread is: the loop that fills \<open>fds\<close>; one
  call of \<open>poll\<close>; the body of the scan for one client; the removal of one client. A step of the
  accepting thread is one \<open>poll\<close>, one \<open>accept\<close> or one \<open>push_back\<close>. \<open>poll_step\<close> interleaves them in
  every order. The other thread does nothing but open descriptors and append to \<open>m_Clients\<close>, so an
  action of it inside one of these steps is the same as one before or after it; the exception, a
  reallocation of the vector while the other thread reads it, is a data race inside
  \<open>std::vector\<close> and is not modelled.

  The array \<open>fds\<close> is declared outside the loop: an entry that this round did not fill has
  what an earlier round left in it. \<open>ps_fds\<close> is the part of the array that was ever filled.
\<close>

section \<open>Definitions\<close>

definition hello_from_server :: string where
  "hello_from_server = ''hello from server!'' @ lf @ [CHR 0x00]"

record fds_entry =
  fe_fd :: int
  fe_events :: int
  fe_revents :: int

text \<open>
  Where the threads are. \<open>Filled n\<close>: the loop has filled \<open>n\<close> entries. \<open>Scan n i disconnected\<close>: \<open>poll\<close> was
  given \<open>n\<close> entries and the scan is at \<open>i\<close>. \<open>Remove fds\<close>: these are still to be removed.
\<close>

datatype manager_pc = Top | Filled nat | Scan nat nat "int list" | Remove "int list"

datatype acceptor_pc = Waiting | Ready | Accepted int

record poll_state =
  ps_clients :: "client list"
  ps_fds :: "fds_entry list"
  ps_manager :: manager_pc
  ps_acceptor :: acceptor_pc

text \<open>A step of \<open>acceptNewConnections\<close>.\<close>

definition PollEngine_accept_step :: "int \<Rightarrow> poll_state \<Rightarrow> poll_state io" where
  "PollEngine_accept_step listener s =
     (case ps_acceptor s of
        Waiting \<Rightarrow>
          bindIO (syscall (SysPoll [(listener, POLLIN)])) (\<lambda>poll_ret.
          if rc poll_ret = 0 then returnIO s
          else if rc poll_ret = - 1 then failIO (Throw ''poll: '')
          else returnIO (s\<lparr>ps_acceptor := Ready\<rparr>))
      | Ready \<Rightarrow>
          bindIO (syscall (SysAccept listener)) (\<lambda>cli_sd.
          returnIO (s\<lparr>ps_acceptor := Accepted (rc cli_sd)\<rparr>))
      | Accepted cli_sd \<Rightarrow>
          returnIO (s\<lparr>ps_clients := ps_clients s @ [Client cli_sd], ps_acceptor := Waiting\<rparr>))"

text \<open>
  The body of the scan for one entry of \<open>fds\<close> and the client at the same index: the client
  afterwards, and whether the descriptor of the entry goes on the list of disconnected ones.
\<close>

definition PollEngine_client :: "char option \<Rightarrow> fds_entry \<Rightarrow> client \<Rightarrow> (client \<times> bool) io" where
  "PollEngine_client oob e c =
     (if fe_revents e = 0 then returnIO (c, False)
      else if has_bit (fe_revents e) POLLHUP then returnIO (c, True)
      else if has_bit (fe_revents e) POLLIN then
        (if cl_state c \<noteq> WANT_READ then returnIO (c, False)
         else
           bindIO (syscall (SysRead (fe_fd e) 256)) (\<lambda>r.
           if rc r < 0 then
             bindIO (syscall (SysClose (fe_fd e))) (\<lambda>_. returnIO (c, True))
           else
             bindIO (liftE (terminated_buf 256 (payload r))) (\<lambda>buf.
             bindIO (liftE (strip_crlf oob buf)) (\<lambda>tmp.
             if rc r > 0 then returnIO (c\<lparr>cl_state := WANT_WRITE\<rparr>, False)
             else bindIO (syscall (SysClose (fe_fd e))) (\<lambda>_. returnIO (c, True))))))
      else if has_bit (fe_revents e) POLLOUT then
        (if cl_state c \<noteq> WANT_WRITE then returnIO (c, False)
         else
           bindIO (syscall (SysWrite (fe_fd e) hello_from_server)) (\<lambda>_.
           returnIO (c\<lparr>cl_state := WANT_READ\<rparr>, False)))
      else if has_bit (fe_revents e) POLLNVAL then returnIO (c, True)
      else returnIO (c, False))"

text \<open>The entry for a client, and the array after the loop that fills it.\<close>

definition entry_of :: "client \<Rightarrow> fds_entry" where
  "entry_of c =
     \<lparr>fe_fd = cl_sd c, fe_events = if cl_state c = WANT_READ then POLLIN else POLLOUT, fe_revents = 0\<rparr>"

definition fill_fds :: "client list \<Rightarrow> fds_entry list \<Rightarrow> fds_entry list" where
  "fill_fds clients fds = map entry_of clients @ drop (length clients) fds"

text \<open>The array after \<open>poll(fds, n, ...)\<close>.\<close>

definition polled_fds :: "nat \<Rightarrow> sys_ret \<Rightarrow> fds_entry list \<Rightarrow> fds_entry list" where
  "polled_fds n r fds =
     map (\<lambda>(e, v). e\<lparr>fe_revents := v\<rparr>) (zip (take n fds) (revents_of n r)) @ drop n fds"

definition entry_at :: "fds_entry list \<Rightarrow> nat \<Rightarrow> cpp_error + fds_entry" where
  "entry_at fds i =
     (if i < length fds then Inr (fds ! i)
      else if i < 32768 then Inl (Undefined UninitialisedRead)
      else Inl (Undefined OutOfBoundsRead))"

text \<open>A step of \<open>manageConnections\<close>.\<close>

definition PollEngine_manage_step :: "char option \<Rightarrow> poll_state \<Rightarrow> poll_state io" where
  "PollEngine_manage_step oob s =
     (case ps_manager s of
        Top \<Rightarrow>
          if ps_clients s = [] then bindIO (syscall (SysSleep 1000)) (\<lambda>_. returnIO s)
          else if length (ps_clients s) > 32768 then failIO (Undefined OutOfBoundsWrite)
          else
            returnIO (s\<lparr>ps_fds := fill_fds (ps_clients s) (ps_fds s), ps_manager := Filled (length (ps_clients s))\<rparr>)
      | Filled _ \<Rightarrow>
          let n = length (ps_clients s) in
          if n > length (ps_fds s) then failIO (Undefined UninitialisedRead)
          else
            bindIO (syscall (SysPoll (map (\<lambda>e. (fe_fd e, fe_events e)) (take n (ps_fds s))))) (\<lambda>poll_ret.
            if rc poll_ret = 0 then returnIO (s\<lparr>ps_fds := polled_fds n poll_ret (ps_fds s), ps_manager := Top\<rparr>)
            else if rc poll_ret = - 1 then failIO (Throw ''poll: '')
            else returnIO (s\<lparr>ps_fds := polled_fds n poll_ret (ps_fds s), ps_manager := Scan n 0 []\<rparr>))
      | Scan n i disconnected \<Rightarrow>
          if i < length (ps_clients s) then
            bindIO (liftE (entry_at (ps_fds s) i)) (\<lambda>e.
            bindIO (PollEngine_client oob e (ps_clients s ! i)) (\<lambda>(c, gone).
            returnIO (s\<lparr>ps_clients := (ps_clients s)[i := c],
              ps_manager := Scan n (Suc i) (if gone then disconnected @ [fe_fd e] else disconnected)\<rparr>)))
          else returnIO (s\<lparr>ps_manager := Remove disconnected\<rparr>)
      | Remove [] \<Rightarrow> returnIO (s\<lparr>ps_manager := Top\<rparr>)
      | Remove (fd # disconnected) \<Rightarrow>
          bindIO (liftE (drop_client fd (ps_clients s))) (\<lambda>clients.
          returnIO (s\<lparr>ps_clients := clients, ps_manager := Remove disconnected\<rparr>)))"

text \<open>\<open>run\<close>: the two threads, as an interleaving of their steps.\<close>

definition poll_init :: poll_state where
  "poll_init = \<lparr>ps_clients = [], ps_fds = [], ps_manager = Top, ps_acceptor = Waiting\<rparr>"

inductive poll_step :: "char option \<Rightarrow> int \<Rightarrow> poll_state \<times> world \<Rightarrow> poll_state \<times> world \<Rightarrow> bool"
  for oob listener where
  accepting: "PollEngine_accept_step listener s w = (Ok s', w') \<Longrightarrow> poll_step oob listener (s, w) (s', w')"
| managing: "PollEngine_manage_step oob s w = (Ok s', w') \<Longrightarrow> poll_step oob listener (s, w) (s', w')"

inductive_cases poll_step_cases: "poll_step oob listener (s, w) (s', w')"

text \<open>
  The race on \<open>m_Clients\<close>: the managing thread is about to use an entry of \<open>fds\<close> that it has not
  filled, or not given to \<open>poll\<close>, in this round, since a client was added in the meantime.
\<close>

fun stale_next :: "manager_pc \<Rightarrow> nat \<Rightarrow> bool" where
  "stale_next (Filled n) clients \<longleftrightarrow> n < clients"
| "stale_next (Scan n i disconnected) clients \<longleftrightarrow> n \<le> i \<and> i < clients"
| "stale_next _ clients \<longleftrightarrow> False"

definition races :: "poll_state \<Rightarrow> bool" where
  "races s \<longleftrightarrow> stale_next (ps_manager s) (length (ps_clients s))"

text \<open>The states that the threads reach before a race has happened.\<close>

inductive poll_reach :: "char option \<Rightarrow> int \<Rightarrow> sys_ret list \<Rightarrow> poll_state \<Rightarrow> world \<Rightarrow> bool" for oob listener rs where
  poll_start: "poll_reach oob listener rs poll_init \<lparr>script = rs, trace = []\<rparr>"
| poll_accepts: "poll_reach oob listener rs s w \<Longrightarrow> PollEngine_accept_step listener s w = (Ok s', w') \<Longrightarrow>
     poll_reach oob listener rs s' w'"
| poll_manages: "poll_reach oob listener rs s w \<Longrightarrow> \<not> races s \<Longrightarrow> PollEngine_manage_step oob s w = (Ok s', w') \<Longrightarrow>
     poll_reach oob listener rs s' w'"

lemma poll_reach_steps:
  "poll_reach oob l rs s w \<Longrightarrow> (poll_step oob l)\<^sup>*\<^sup>* (poll_init, \<lparr>script = rs, trace = []\<rparr>) (s, w)"
  by (induction rule: poll_reach.induct) (auto intro: rtranclp.rtrancl_into_rtrancl poll_step.intros)

section \<open>Steps\<close>

lemma PollEngine_client_shrinks [shrinks_intros]: "shrinks (PollEngine_client oob e c)"
  unfolding PollEngine_client_def by (intro shrinks_intros)

lemma PollEngine_accept_step_shrinks [shrinks_intros]: "shrinks (PollEngine_accept_step l s)"
  unfolding PollEngine_accept_step_def by (cases "ps_acceptor s") (auto intro!: shrinks_intros)

lemma PollEngine_manage_step_shrinks [shrinks_intros]: "shrinks (PollEngine_manage_step oob s)"
  unfolding PollEngine_manage_step_def Let_def
  by (auto intro!: shrinks_intros split: manager_pc.split list.split)

text \<open>The errors of a step of the managing thread that is not a race: never the \<open>assert\<close>.\<close>

definition poll_error :: "cpp_error \<Rightarrow> bool" where
  "poll_error e \<longleftrightarrow>
     e \<in> {Throw ''poll: '', Undefined OutOfBoundsWrite, Undefined OutOfBoundsRead, Undefined PopBackEmpty}"

text \<open>What attending to one client does to the descriptors.\<close>

lemma poll_client_wp:
  assumes "fe_fd e = cl_sd c" "cl_sd c \<in> open_from F w" "cl_sd c \<noteq> l" "used_from only_open l F w"
  shows "wp (PollEngine_client oob e c)
    (\<lambda>(c', gone) w'. cl_sd c' = cl_sd c \<and> used_from only_open l F w' \<and> fresh_from F w' = fresh_from F w \<and>
       (open_from F w' = open_from F w \<or> gone \<and> open_from F w' = open_from F w - {cl_sd c}))
    (\<lambda>e w'. poll_error e \<and> used_from only_open l F w') (\<lambda>w'. used_from only_open l F w') w"
  using assms
  by (auto simp: PollEngine_client_def wp_syscall poll_error_def terminated_buf_def
      split: list.splits sum.splits dest: strip_crlf_error)

lemma length_fill_fds [simp]: "length (fill_fds cs fds) = max (length cs) (length fds)"
  by (simp add: fill_fds_def max_def)

lemma take_fill_fds [simp]: "take (length cs) (fill_fds cs fds) = map entry_of cs"
  by (simp add: fill_fds_def)

lemma length_polled_fds [simp]: "length (polled_fds n r fds) = length fds"
  by (simp add: polled_fds_def)

lemma nth_polled_fds:
  "i < length fds \<Longrightarrow>
   polled_fds n r fds ! i = (if i < n then (fds ! i)\<lparr>fe_revents := revents_of n r ! i\<rparr> else fds ! i)"
  by (auto simp: polled_fds_def nth_append)

lemma fe_fd_polled_fds [simp]: "map fe_fd (polled_fds n r fds) = map fe_fd fds"
  by (rule nth_equalityI) (simp_all add: nth_polled_fds)

section \<open>Properties\<close>

end
