(* ===== verification/Poll_Async.thy ===== *)
theory Poll_Async
  imports Poll_Engine
begin

text \<open>
  \<open>net/libtpevent/src/poll_async.hpp\<close> and \<open>poll_async.cpp\<close>: the connections, the event loop
  and \<open>AsyncPollEngine\<close>. A connection lives in a store, its address is its position. An
  event names the connection that its callback has captured and the handler that the
  callback calls; its buffer is the read or the write buffer of that connection. The captured
  \<open>shared_ptr\<close> keeps the connection alive: when the last object that refers to it goes, be it an event of
  one of the queues, the event a worker works on, one that it is about to queue, or the variable
  \<open>conn\<close> of the accepting thread, then \<open>~Connection\<close> closes the descriptor (\<open>release_conn\<close>).

  The threads are the connection manager, the workers and the accepting main thread. Each is a small-step
  machine; a step is one system call, one critical section of one of the two
  mutexes, the filling of \<open>fds\<close>, or an access to the buffers of one connection. So \<open>AsyncPollEngine_step\<close> has the other threads
  queue events while the manager fills, polls, scans and deletes; the manager reads the queue without its
  mutex, as in the source. \<open>fds\<close> keeps its entries from round to round, see \<open>Poll_Engine\<close>. Races inside one operation
  of a container are not modelled.
\<close>

section \<open>State\<close>

record connection =
  cn_sd :: int
  cn_ReadBuf :: string
  cn_WriteBuf :: string

datatype handler = ReadHandler | WriteHandler

record event =
  ev_client :: client
  ev_conn :: nat
  ev_handler :: handler

text \<open>
  Where the threads are. The manager: \<open>MMoved i disconnected fd\<close> has pushed the event at \<open>i\<close> to the other queue
  and is about to call \<open>deleteClient(fd)\<close>. A worker: \<open>WHas\<close> has taken an event, \<open>WCall\<close> is about to call back, \<open>WPush\<close>
  is in \<open>asyncRead\<close> or \<open>asyncWrite\<close> with an event to queue, \<open>WFailed\<close> and \<open>WClosing\<close> follow a read error, and
  after \<open>WDone\<close> the event goes out of scope. The acceptor: \<open>AConn\<close> has made a connection, \<open>AQueue\<close> is in
  \<open>asyncRead\<close>, and after \<open>ADone\<close> the variable \<open>conn\<close> goes out of scope.
\<close>

datatype manage_pc =
    MTop | MFilled | MScan nat "int list" | MMoved nat "int list" int | MDrop "int list" | MStopped

datatype worker_pc =
    WIdle | WHas event | WCall event | WPush event event | WFailed event | WClosing event | WDone event

datatype accept_pc = AWaiting | AReady | AConn nat | AQueue nat event | ADone nat

record async_state =
  as_want :: "event list"
  as_have :: "event list"
  as_conns :: "connection option list"
  as_fds :: "fds_entry list"
  as_manager :: manage_pc
  as_workers :: "worker_pc list"
  as_acceptor :: accept_pc

text \<open>The events that exist, and the connections that something refers to.\<close>

fun worker_events :: "worker_pc \<Rightarrow> event list" where
  "worker_events WIdle = []"
| "worker_events (WHas e) = [e]"
| "worker_events (WCall e) = [e]"
| "worker_events (WPush e e') = [e, e']"
| "worker_events (WFailed e) = [e]"
| "worker_events (WClosing e) = [e]"
| "worker_events (WDone e) = [e]"

fun accept_events :: "accept_pc \<Rightarrow> event list" where
  "accept_events (AQueue conn e) = [e]"
| "accept_events _ = []"

fun accept_conn :: "accept_pc \<Rightarrow> nat list" where
  "accept_conn (AConn conn) = [conn]"
| "accept_conn (AQueue conn e) = [conn]"
| "accept_conn (ADone conn) = [conn]"
| "accept_conn _ = []"

definition events :: "async_state \<Rightarrow> event set" where
  "events s = set (as_want s) \<union> set (as_have s) \<union> (\<Union>p \<in> set (as_workers s). set (worker_events p)) \<union>
     set (accept_events (as_acceptor s))"

definition refs :: "async_state \<Rightarrow> nat set" where
  "refs s = ev_conn ` events s \<union> set (accept_conn (as_acceptor s))"

definition conn_at :: "async_state \<Rightarrow> nat \<Rightarrow> connection io" where
  "conn_at s cid =
     (if cid < length (as_conns s) then
        (case as_conns s ! cid of None \<Rightarrow> failIO (Undefined UseAfterFree) | Some c \<Rightarrow> returnIO c)
      else failIO (Undefined UseAfterFree))"

definition set_conn :: "nat \<Rightarrow> connection \<Rightarrow> async_state \<Rightarrow> async_state" where
  "set_conn cid c s = s\<lparr>as_conns := (as_conns s)[cid := Some c]\<rparr>"

text \<open>
  The end of a reference to a connection, which the given state does not have any more. The last one
  calls \<open>~Connection\<close>.
\<close>

definition release_conn :: "nat \<Rightarrow> async_state \<Rightarrow> async_state io" where
  "release_conn cid s =
     (if cid \<in> refs s then returnIO s
      else
        bindIO (conn_at s cid) (\<lambda>c.
        bindIO (syscall (SysClose (cn_sd c))) (\<lambda>_.
        returnIO (s\<lparr>as_conns := (as_conns s)[cid := None]\<rparr>))))"

section \<open>Connection\<close>

definition Connection_ctor :: "int \<Rightarrow> async_state \<Rightarrow> async_state \<times> nat" where
  "Connection_ctor fd s =
     (s\<lparr>as_conns := as_conns s @ [Some \<lparr>cn_sd = fd, cn_ReadBuf = [], cn_WriteBuf = []\<rparr>]\<rparr>, length (as_conns s))"

text \<open>
  \<open>asyncRead\<close> and \<open>asyncWrite\<close> up to the lock give an event, \<open>EventLoop_emplace\<close> is what they do
  under the lock.
\<close>

definition EventLoop_asyncRead :: "int \<Rightarrow> nat \<Rightarrow> event" where
  "EventLoop_asyncRead fd cid = \<lparr>ev_client = Client_in fd WANT_READ, ev_conn = cid, ev_handler = ReadHandler\<rparr>"

definition EventLoop_asyncWrite :: "int \<Rightarrow> nat \<Rightarrow> event" where
  "EventLoop_asyncWrite fd cid = \<lparr>ev_client = Client_in fd WANT_WRITE, ev_conn = cid, ev_handler = WriteHandler\<rparr>"

definition EventLoop_emplace :: "event \<Rightarrow> async_state \<Rightarrow> async_state" where
  "EventLoop_emplace e s = s\<lparr>as_want := as_want s @ [e]\<rparr>"

text \<open>The members give the state afterwards and the event that they queue as their last action, if any.\<close>

definition Connection_read :: "nat \<Rightarrow> async_state \<Rightarrow> (async_state \<times> event option) io" where
  "Connection_read cid s =
     bindIO (conn_at s cid) (\<lambda>c. returnIO (s, Some (EventLoop_asyncRead (cn_sd c) cid)))"

definition Connection_write :: "nat \<Rightarrow> string \<Rightarrow> async_state \<Rightarrow> (async_state \<times> event option) io" where
  "Connection_write cid str s =
     bindIO (conn_at s cid) (\<lambda>c.
     returnIO (set_conn cid (c\<lparr>cn_WriteBuf := str\<rparr>) s, Some (EventLoop_asyncWrite (cn_sd c) cid)))"

definition Connection_readHandler :: "char option \<Rightarrow> nat \<Rightarrow> async_state \<Rightarrow> (async_state \<times> event option) io" where
  "Connection_readHandler oob cid s =
     bindIO (conn_at s cid) (\<lambda>c.
     if cn_ReadBuf c = [] then returnIO (s, None)
     else
       bindIO (liftE (strip_crlf oob (cn_ReadBuf c))) (\<lambda>tmp.
       Connection_write cid (''server: '' @ tmp @ lf) s))"

definition Connection_writeHandler :: "nat \<Rightarrow> async_state \<Rightarrow> (async_state \<times> event option) io" where
  "Connection_writeHandler cid s = Connection_read cid s"

text \<open>\<open>event._callback(errno)\<close>\<close>

definition call_back :: "char option \<Rightarrow> event \<Rightarrow> async_state \<Rightarrow> (async_state \<times> event option) io" where
  "call_back oob e s =
     (case ev_handler e of
        ReadHandler \<Rightarrow> Connection_readHandler oob (ev_conn e) s
      | WriteHandler \<Rightarrow> Connection_writeHandler (ev_conn e) s)"

section \<open>The connection manager\<close>

fun drop_event :: "int \<Rightarrow> event list \<Rightarrow> (event \<times> event list) option" where
  "drop_event fd [] = None"
| "drop_event fd (e # es) =
     (if cl_sd (ev_client e) = fd then Some (e, es)
      else map_option (\<lambda>(d, es'). (d, e # es')) (drop_event fd es))"

definition EventLoop_deleteClient :: "int \<Rightarrow> async_state \<Rightarrow> async_state io" where
  "EventLoop_deleteClient fd s =
     (case drop_event fd (as_want s) of
        None \<Rightarrow> failIO (Abort ''iterator != m_ClientsWantWork.end()'')
      | Some (e, want) \<Rightarrow> release_conn (ev_conn e) (s\<lparr>as_want := want\<rparr>))"

text \<open>The body of the scan for the entry and the event at \<open>i\<close>, up to \<open>deleteClient\<close>.\<close>

definition EventLoop_scan :: "nat \<Rightarrow> int list \<Rightarrow> fds_entry \<Rightarrow> async_state \<Rightarrow> async_state" where
  "EventLoop_scan i disconnected f s =
     (let e = as_want s ! i;
          next = s\<lparr>as_manager := MScan (Suc i) disconnected\<rparr>;
          gone = s\<lparr>as_manager := MScan (Suc i) (disconnected @ [fe_fd f])\<rparr>;
          move = s\<lparr>as_have := as_have s @ [e], as_manager := MMoved i disconnected (fe_fd f)\<rparr>
      in
      if fe_revents f = 0 then next
      else if has_bit (fe_revents f) POLLHUP then gone
      else if has_bit (fe_revents f) POLLIN then
        (if cl_state (ev_client e) \<noteq> WANT_READ then next else move)
      else if has_bit (fe_revents f) POLLOUT then
        (if cl_state (ev_client e) \<noteq> WANT_WRITE then next else move)
      else if has_bit (fe_revents f) POLLNVAL then gone
      else next)"

text \<open>A step of \<open>manageConnections\<close>, which ends when \<open>poll\<close> fails.\<close>

definition EventLoop_manage_step :: "async_state \<Rightarrow> async_state io" where
  "EventLoop_manage_step s =
     (case as_manager s of
        MTop \<Rightarrow>
          if as_want s = [] then bindIO (syscall (SysSleep 1000)) (\<lambda>_. returnIO s)
          else if length (as_want s) > 32768 then failIO (Undefined OutOfBoundsWrite)
          else returnIO (s\<lparr>as_fds := fill_fds (map ev_client (as_want s)) (as_fds s), as_manager := MFilled\<rparr>)
      | MFilled \<Rightarrow>
          let n = length (as_want s) in
          if n > length (as_fds s) then failIO (Undefined UninitialisedRead)
          else
            bindIO (syscall (SysPoll (map (\<lambda>f. (fe_fd f, fe_events f)) (take n (as_fds s))))) (\<lambda>poll_ret.
            let s' = s\<lparr>as_fds := polled_fds n poll_ret (as_fds s)\<rparr> in
            if rc poll_ret = 0 then returnIO (s'\<lparr>as_manager := MTop\<rparr>)
            else if rc poll_ret = - 1 then returnIO (s\<lparr>as_manager := MStopped\<rparr>)
            else returnIO (s'\<lparr>as_manager := MScan 0 []\<rparr>))
      | MScan i disconnected \<Rightarrow>
          if i < length (as_want s) then
            bindIO (liftE (entry_at (as_fds s) i)) (\<lambda>f. returnIO (EventLoop_scan i disconnected f s))
          else returnIO (s\<lparr>as_manager := MDrop disconnected\<rparr>)
      | MMoved i disconnected fd \<Rightarrow>
          EventLoop_deleteClient fd (s\<lparr>as_manager := MScan (Suc i) disconnected\<rparr>)
      | MDrop [] \<Rightarrow> returnIO (s\<lparr>as_manager := MTop\<rparr>)
      | MDrop (fd # disconnected) \<Rightarrow>
          EventLoop_deleteClient fd (s\<lparr>as_manager := MDrop disconnected\<rparr>)
      | MStopped \<Rightarrow> returnIO s)"

section \<open>Workers\<close>

definition goto_worker :: "nat \<Rightarrow> worker_pc \<Rightarrow> async_state \<Rightarrow> async_state" where
  "goto_worker k p s = s\<lparr>as_workers := (as_workers s)[k := p]\<rparr>"

text \<open>A step of the loop of \<open>EventLoop::run\<close> in worker \<open>k\<close>.\<close>

definition EventLoop_worker_step :: "char option \<Rightarrow> nat \<Rightarrow> async_state \<Rightarrow> async_state io" where
  "EventLoop_worker_step oob k s =
     (case as_workers s ! k of
        WIdle \<Rightarrow>
          (case as_have s of
             [] \<Rightarrow> bindIO (syscall (SysSleep 1000)) (\<lambda>_. returnIO s)
           | e # have \<Rightarrow> returnIO (goto_worker k (WHas e) (s\<lparr>as_have := have\<rparr>)))
      | WHas e \<Rightarrow>
          if cl_state (ev_client e) = WANT_READ then
            bindIO (syscall (SysRead (cl_sd (ev_client e)) 256)) (\<lambda>r.
            if rc r < 0 then returnIO (goto_worker k (WFailed e) s)
            else
              bindIO (liftE (terminated_buf 256 (payload r))) (\<lambda>_.
              bindIO (conn_at s (ev_conn e)) (\<lambda>c.
              returnIO (goto_worker k (WCall e) (set_conn (ev_conn e) (c\<lparr>cn_ReadBuf := payload r\<rparr>) s)))))
          else
            bindIO (conn_at s (ev_conn e)) (\<lambda>c.
            bindIO (syscall (SysWrite (cl_sd (ev_client e)) (cn_WriteBuf c))) (\<lambda>_.
            returnIO (goto_worker k (WCall e) s)))
      | WCall e \<Rightarrow>
          bindIO (call_back oob e s) (\<lambda>(s', queued).
          returnIO (goto_worker k (case queued of None \<Rightarrow> WDone e | Some e' \<Rightarrow> WPush e e') s'))
      | WPush e e' \<Rightarrow> returnIO (goto_worker k (WDone e) (EventLoop_emplace e' s))
      | WFailed e \<Rightarrow> bindIO (syscall (SysSleep 1000000)) (\<lambda>_. returnIO (goto_worker k (WClosing e) s))
      | WClosing e \<Rightarrow> bindIO (syscall (SysClose (cl_sd (ev_client e)))) (\<lambda>_. returnIO (goto_worker k (WDone e) s))
      | WDone e \<Rightarrow> release_conn (ev_conn e) (goto_worker k WIdle s))"

section \<open>AsyncPollEngine\<close>

text \<open>
  The loop of \<open>AsyncPollEngine::run\<close> in the main thread: \<open>accept_work\<close> up to the connection that it makes, and
  \<open>conn->read()\<close>. (A connection that \<open>accept\<close> refuses is made all the same, with descriptor -1.)
\<close>

definition accept_work :: "int \<Rightarrow> async_state \<Rightarrow> async_state io" where
  "accept_work listener s =
     (if as_acceptor s = AWaiting then
        bindIO (syscall (SysPoll [(listener, POLLIN)])) (\<lambda>poll_ret.
        if rc poll_ret = 0 then returnIO s
        else if rc poll_ret = - 1 then failIO (Throw ''poll error'')
        else returnIO (s\<lparr>as_acceptor := AReady\<rparr>))
      else
        bindIO (syscall (SysAccept listener)) (\<lambda>cli_sd.
        let (s', conn) = Connection_ctor (rc cli_sd) s in returnIO (s'\<lparr>as_acceptor := AConn conn\<rparr>)))"

definition AsyncPollEngine_accept_step :: "int \<Rightarrow> async_state \<Rightarrow> async_state io" where
  "AsyncPollEngine_accept_step listener s =
     (case as_acceptor s of
        AConn conn \<Rightarrow>
          bindIO (Connection_read conn s) (\<lambda>(s', queued).
          returnIO (s'\<lparr>as_acceptor := case queued of None \<Rightarrow> ADone conn | Some e \<Rightarrow> AQueue conn e\<rparr>))
      | AQueue conn e \<Rightarrow> returnIO (EventLoop_emplace e (s\<lparr>as_acceptor := ADone conn\<rparr>))
      | ADone conn \<Rightarrow> release_conn conn (s\<lparr>as_acceptor := AWaiting\<rparr>)
      | _ \<Rightarrow> accept_work listener s)"

text \<open>The threads of \<open>AsyncPollEngine::run\<close>: the manager, the workers and the main thread.\<close>

datatype async_thread = Manager | Worker nat | Acceptor

definition AsyncPollEngine_step :: "char option \<Rightarrow> int \<Rightarrow> async_thread \<Rightarrow> async_state \<Rightarrow> async_state io" where
  "AsyncPollEngine_step oob listener t s =
     (case t of
        Manager \<Rightarrow> EventLoop_manage_step s
      | Worker k \<Rightarrow> if k < length (as_workers s) then EventLoop_worker_step oob k s else returnIO s
      | Acceptor \<Rightarrow> AsyncPollEngine_accept_step listener s)"

definition async_init :: async_state where
  "async_init = \<lparr>as_want = [], as_have = [], as_conns = [], as_fds = [], as_manager = MTop,
     as_workers = replicate 4 WIdle, as_acceptor = AWaiting\<rparr>"

inductive async_reach :: "char option \<Rightarrow> int \<Rightarrow> sys_ret list \<Rightarrow> async_state \<Rightarrow> world \<Rightarrow> bool" for oob listener rs where
  async_start: "async_reach oob listener rs async_init \<lparr>script = rs, trace = []\<rparr>"
| async_more: "async_reach oob listener rs s w \<Longrightarrow> AsyncPollEngine_step oob listener t s w = (Ok s', w') \<Longrightarrow>
     async_reach oob listener rs s' w'"

inductive_cases async_reach_cases: "async_reach oob listener rs s w"

text \<open>The same under a schedule.\<close>

fun AsyncPollEngine_sched :: "char option \<Rightarrow> int \<Rightarrow> async_thread list \<Rightarrow> async_state \<Rightarrow> async_state io" where
  "AsyncPollEngine_sched oob listener [] s = returnIO s"
| "AsyncPollEngine_sched oob listener (t # ts) s =
     bindIO (AsyncPollEngine_step oob listener t s) (\<lambda>s'. AsyncPollEngine_sched oob listener ts s')"

section \<open>Shapes\<close>

lemma UN_update:
  "k < length ws \<Longrightarrow> (\<Union>p \<in> set (ws[k := q]). f p) = (\<Union>j \<in> {..<length ws} - {k}. f (ws ! j)) \<union> f q"
  by (auto simp: set_conv_nth nth_list_update split: if_splits)

text \<open>The events of all threads but worker \<open>k\<close>.\<close>

definition other_events :: "nat \<Rightarrow> async_state \<Rightarrow> event set" where
  "other_events k s = set (as_want s) \<union> set (as_have s) \<union>
     (\<Union>j \<in> {..<length (as_workers s)} - {k}. set (worker_events (as_workers s ! j))) \<union>
     set (accept_events (as_acceptor s))"

lemma events_goto:
  "k < length (as_workers s) \<Longrightarrow> events (goto_worker k p s) = other_events k s \<union> set (worker_events p)"
  by (auto simp: events_def other_events_def goto_worker_def UN_update)

lemma events_worker:
  assumes "k < length (as_workers s)"
  shows "events s = other_events k s \<union> set (worker_events (as_workers s ! k))"
proof -
  have "goto_worker k (as_workers s ! k) s = s" by (simp add: goto_worker_def)
  with events_goto [OF assms, of "as_workers s ! k"] show ?thesis by simp
qed

lemma refs_goto:
  "k < length (as_workers s) \<Longrightarrow>
   refs (goto_worker k p s) = ev_conn ` (other_events k s \<union> set (worker_events p)) \<union> set (accept_conn (as_acceptor s))"
  by (simp add: refs_def events_goto) (simp add: goto_worker_def)

lemma refs_worker:
  "k < length (as_workers s) \<Longrightarrow>
   refs s = ev_conn ` (other_events k s \<union> set (worker_events (as_workers s ! k))) \<union> set (accept_conn (as_acceptor s))"
  by (simp add: refs_def events_worker [of k])

lemma goto_worker_simps [simp]:
  "as_conns (goto_worker k p s) = as_conns s" "as_acceptor (goto_worker k p s) = as_acceptor s"
  by (simp_all add: goto_worker_def)

lemma set_conn_simps [simp]:
  "events (set_conn cid c s) = events s" "refs (set_conn cid c s) = refs s"
  "other_events k (set_conn cid c s) = other_events k s"
  "as_conns (set_conn cid c s) = (as_conns s)[cid := Some c]" "as_workers (set_conn cid c s) = as_workers s"
  "as_acceptor (set_conn cid c s) = as_acceptor s"
  by (simp_all add: set_conn_def events_def refs_def other_events_def)

lemma drop_event_set: "drop_event fd es = Some (e, es') \<Longrightarrow> set es = insert e (set es')"
  by (induction fd es arbitrary: e es' rule: drop_event.induct) (auto split: if_splits)

section \<open>The invariant of the threads\<close>

text \<open>An answer to something that was read from the descriptor before.\<close>

definition answers_read :: "char option \<Rightarrow> (sys_call \<times> sys_ret) list \<Rightarrow> int \<Rightarrow> string \<Rightarrow> bool" where
  "answers_read oob tr fd s \<longleftrightarrow>
     (\<exists>r line. (SysRead fd 256, r) \<in> set tr \<and> payload r \<noteq> [] \<and> strip_crlf oob (payload r) = Inr line \<and>
        s = ''server: '' @ line @ lf)"

definition only_answers :: "char option \<Rightarrow> (sys_call \<times> sys_ret) list \<Rightarrow> bool" where
  "only_answers oob tr \<longleftrightarrow>
     (\<forall>i < length tr. \<forall>fd s r. tr ! i = (SysWrite fd s, r) \<longrightarrow> answers_read oob (take i tr) fd s)"

lemma only_answers_Nil [simp]: "only_answers oob []"
  by (simp add: only_answers_def)

lemma only_answers_snoc:
  "only_answers oob (tr @ [e]) \<longleftrightarrow>
     only_answers oob tr \<and> (\<forall>fd s r. e = (SysWrite fd s, r) \<longrightarrow> answers_read oob tr fd s)"
  by (auto simp: only_answers_def nth_append less_Suc_eq)

lemma answers_read_snoc: "answers_read oob tr fd s \<Longrightarrow> answers_read oob (tr @ [e]) fd s"
  by (auto simp: answers_read_def)

text \<open>What holds of a live connection and of an event.\<close>

definition conn_ok :: "(sys_call \<times> sys_ret) list \<Rightarrow> connection \<Rightarrow> bool" where
  "conn_ok tr c \<longleftrightarrow> cn_ReadBuf c = [] \<or> (\<exists>r. (SysRead (cn_sd c) 256, r) \<in> set tr \<and> payload r = cn_ReadBuf c)"

definition event_ok :: "char option \<Rightarrow> (sys_call \<times> sys_ret) list \<Rightarrow> connection option list \<Rightarrow> event \<Rightarrow> bool" where
  "event_ok oob tr conns e \<longleftrightarrow>
     (ev_handler e = ReadHandler \<longleftrightarrow> cl_state (ev_client e) = WANT_READ) \<and>
     (\<forall>c. conns ! ev_conn e = Some c \<longrightarrow> cn_sd c = cl_sd (ev_client e) \<and>
        (cl_state (ev_client e) = WANT_WRITE \<longrightarrow> answers_read oob tr (cl_sd (ev_client e)) (cn_WriteBuf c)))"

definition is_live :: "async_state \<Rightarrow> nat \<Rightarrow> bool" where
  "is_live s cid \<longleftrightarrow> cid < length (as_conns s) \<and> as_conns s ! cid \<noteq> None"

text \<open>
  With a set of connections that are kept alive by what is not in the state any more; between two
  steps there are none.
\<close>

definition async_held :: "char option \<Rightarrow> nat set \<Rightarrow> async_state \<Rightarrow> (sys_call \<times> sys_ret) list \<Rightarrow> bool" where
  "async_held oob held s tr \<longleftrightarrow>
     (\<forall>cid. is_live s cid \<longleftrightarrow> cid \<in> refs s \<union> held) \<and> (\<forall>e \<in> events s. event_ok oob tr (as_conns s) e) \<and>
     (\<forall>c. Some c \<in> set (as_conns s) \<longrightarrow> conn_ok tr c) \<and> only_answers oob tr"

abbreviation async_inv :: "char option \<Rightarrow> async_state \<Rightarrow> (sys_call \<times> sys_ret) list \<Rightarrow> bool" where
  "async_inv oob \<equiv> async_held oob {}"

lemma event_ok_snoc: "event_ok oob tr conns e \<Longrightarrow> event_ok oob (tr @ [x]) conns e"
  unfolding event_ok_def using answers_read_snoc by blast

lemma conn_ok_snoc: "conn_ok tr c \<Longrightarrow> conn_ok (tr @ [x]) c"
  by (auto simp: conn_ok_def)

lemma async_held_call:
  assumes "async_held oob held s tr" "\<And>fd str r. x = (SysWrite fd str, r) \<Longrightarrow> answers_read oob tr fd str"
  shows "async_held oob held s (tr @ [x])"
  using assms by (auto simp: async_held_def only_answers_snoc intro: event_ok_snoc conn_ok_snoc)

text \<open>A state with the same connections and references, and no event that is not known.\<close>

lemma async_held_frame:
  assumes "async_held oob held s tr" "as_conns s' = as_conns s" "refs s' \<union> held' = refs s \<union> held" "events s' \<subseteq> events s"
  shows "async_held oob held' s' tr"
  using assms by (auto simp: async_held_def is_live_def)

definition async_safe :: "char option \<Rightarrow> cpp_error \<Rightarrow> world \<Rightarrow> bool" where
  "async_safe oob e w \<longleftrightarrow> e \<noteq> Undefined UseAfterFree \<and> only_answers oob (trace w)"

lemma conn_at_live: "is_live s cid \<Longrightarrow> conn_at s cid = returnIO (the (as_conns s ! cid))"
  by (auto simp: conn_at_def is_live_def)

lemma release_kept:
  assumes "async_held oob {cid} s (trace w)"
  shows "wp (release_conn cid s) (\<lambda>s' w'. async_inv oob s' (trace w')) (async_safe oob)
    (\<lambda>w'. only_answers oob (trace w')) w"
proof (cases "cid \<in> refs s")
  case True
  with assms have "async_inv oob s (trace w)" by (elim async_held_frame) auto
  with True show ?thesis by (simp add: release_conn_def)
next
  case False
  have live: "is_live s cid" using assms by (simp add: async_held_def)
  let ?s = "s\<lparr>as_conns := (as_conns s)[cid := None]\<rparr>"
  have parts: "refs ?s = refs s" "events ?s = events s" by (simp_all add: refs_def events_def)
  have l: "is_live s c \<longleftrightarrow> c = cid \<or> c \<in> refs s" for c using assms by (auto simp: async_held_def)
  have "is_live ?s c \<longleftrightarrow> c \<in> refs s" for c
    using l [of c] False by (cases "c = cid") (auto simp: is_live_def)
  moreover have "event_ok oob (trace w) (as_conns ?s) e" if "e \<in> events s" for e
  proof -
    have "ev_conn e \<noteq> cid" using that False by (auto simp: refs_def)
    then have "as_conns ?s ! ev_conn e = as_conns s ! ev_conn e" by simp
    moreover have "event_ok oob (trace w) (as_conns s) e" using assms that by (simp add: async_held_def)
    ultimately show ?thesis by (simp add: event_ok_def)
  qed
  moreover have "Some c \<in> set (as_conns s)" if "Some c \<in> set (as_conns ?s)" for c
    using that set_update_subset_insert [of "as_conns s" cid None] by auto
  ultimately have "async_inv oob ?s (trace w)" using assms by (auto simp: async_held_def parts)
  then have "async_inv oob ?s (trace w @ [(SysClose fd, r)])" for fd r by (rule async_held_call) simp
  with False live assms show ?thesis
    by (simp add: release_conn_def conn_at_live wp_syscall async_held_def async_safe_def split: list.split)
qed

lemma delete_kept:
  assumes "async_inv oob s (trace w)" "as_want s' = as_want s" "as_have s' = as_have s" "as_conns s' = as_conns s"
    "as_workers s' = as_workers s" "as_acceptor s' = as_acceptor s"
  shows "wp (EventLoop_deleteClient fd s') (\<lambda>s' w'. async_inv oob s' (trace w')) (async_safe oob)
    (\<lambda>w'. only_answers oob (trace w')) w"
proof (cases "drop_event fd (as_want s')")
  case None
  with assms(1) show ?thesis by (simp add: EventLoop_deleteClient_def async_safe_def async_held_def)
next
  case (Some p)
  obtain e want where p: "p = (e, want)" by (cases p)
  from Some p have "set (as_want s) = insert e (set want)" using assms(2) drop_event_set by metis
  then have "async_held oob {ev_conn e} (s'\<lparr>as_want := want\<rparr>) (trace w)"
    using assms by (intro async_held_frame [OF assms(1)]) (auto simp: events_def refs_def)
  from release_kept [OF this] show ?thesis by (simp add: EventLoop_deleteClient_def Some p)
qed

lemma scan_kept:
  assumes "async_inv oob s tr" "i < length (as_want s)"
  shows "async_inv oob (EventLoop_scan i disconnected f s) tr"
proof -
  have e: "as_want s ! i \<in> set (as_want s)" using assms(2) by simp
  have "async_inv oob (s\<lparr>as_have := as_have s @ [as_want s ! i], as_manager := m\<rparr>) tr" for m
    by (rule async_held_frame [OF assms(1)]) (use e in \<open>auto simp: events_def refs_def\<close>)
  moreover have "async_inv oob (s\<lparr>as_manager := m\<rparr>) tr" for m
    by (rule async_held_frame [OF assms(1)]) (auto simp: events_def refs_def)
  ultimately show ?thesis by (simp add: EventLoop_scan_def Let_def)
qed

lemma manage_step_kept:
  assumes "async_inv oob s (trace w)"
  shows "wp (EventLoop_manage_step s) (\<lambda>s' w'. async_inv oob s' (trace w')) (async_safe oob)
    (\<lambda>w'. only_answers oob (trace w')) w"
proof -
  have ok: "only_answers oob (trace w)" using assms by (simp add: async_held_def)
  have frame: "async_inv oob (s\<lparr>as_fds := fds, as_manager := m\<rparr>) tr" "async_inv oob (s\<lparr>as_manager := m\<rparr>) tr"
    if "async_inv oob s tr" for fds m tr
    by (rule async_held_frame [OF that]; simp add: events_def refs_def)+
  have call: "async_inv oob s (trace w @ [(c, r)])" if "\<And>fd str. c \<noteq> SysWrite fd str" for c r
    by (rule async_held_call [OF assms]) (use that in auto)
  show ?thesis
  proof (cases "as_manager s")
    case MTop
    then show ?thesis
      using ok assms by (auto simp: EventLoop_manage_step_def wp_syscall async_safe_def intro!: frame call split: list.split)
  next
    case MFilled
    then show ?thesis
      using ok by (auto simp: EventLoop_manage_step_def wp_syscall async_safe_def Let_def intro!: frame call
          split: list.split simp del: norm_ret.simps)
  next
    case (MScan i disc)
    then show ?thesis
      using ok assms by (auto simp: EventLoop_manage_step_def entry_at_def async_safe_def intro!: frame scan_kept split: sum.split)
  next
    case (MMoved i disc fd)
    then show ?thesis
      using delete_kept [OF assms, of "s\<lparr>as_manager := MScan (Suc i) disc\<rparr>" fd] by (simp add: EventLoop_manage_step_def)
  next
    case (MDrop ds)
    then show ?thesis
      using delete_kept [OF assms, of "s\<lparr>as_manager := MDrop (tl ds)\<rparr>"] assms
      by (cases ds) (auto simp: EventLoop_manage_step_def intro!: frame)
  next
    case MStopped
    with assms show ?thesis by (simp add: EventLoop_manage_step_def)
  qed
qed

text \<open>A new event, and a change to the buffers of a live connection.\<close>

lemma async_held_event:
  assumes "async_held oob held s tr" "as_conns s' = as_conns s" "refs s' \<union> held' = refs s \<union> held"
    "events s' \<subseteq> insert e (events s)" "event_ok oob tr (as_conns s) e"
  shows "async_held oob held' s' tr"
  using assms by (auto simp: async_held_def is_live_def)

lemma async_held_set_conn:
  assumes "async_held oob held s tr" "is_live s cid" "as_conns s ! cid = Some c" "cn_sd c' = cn_sd c" "conn_ok tr c'"
    and "cn_WriteBuf c' = cn_WriteBuf c \<or> answers_read oob tr (cn_sd c) (cn_WriteBuf c')"
  shows "async_held oob held (set_conn cid c' s) tr"
proof -
  have len: "cid < length (as_conns s)" using assms(2) by (simp add: is_live_def)
  have "is_live (set_conn cid c' s) d \<longleftrightarrow> is_live s d" for d
    using assms(3) len by (cases "d = cid") (auto simp: is_live_def)
  moreover have "event_ok oob tr ((as_conns s)[cid := Some c']) e" if "e \<in> events s" for e
  proof -
    have "event_ok oob tr (as_conns s) e" using assms(1) that by (simp add: async_held_def)
    then show ?thesis using assms(3,4,6) len by (cases "ev_conn e = cid") (auto simp: event_ok_def)
  qed
  moreover have "conn_ok tr d" if "Some d \<in> set ((as_conns s)[cid := Some c'])" for d
    using that assms(1,5) set_update_subset_insert [of "as_conns s" cid "Some c'"] by (auto simp: async_held_def)
  ultimately show ?thesis using assms(1) by (auto simp: async_held_def)
qed

lemma live_conn:
  assumes "async_held oob held s tr" "cid \<in> refs s"
  obtains c where "as_conns s ! cid = Some c" "is_live s cid" "conn_at s cid = returnIO c" "conn_ok tr c"
proof -
  have live: "is_live s cid" using assms by (simp add: async_held_def)
  then obtain c where c: "as_conns s ! cid = Some c" by (auto simp: is_live_def)
  moreover have "Some c \<in> set (as_conns s)" using live c nth_mem by (metis is_live_def)
  ultimately show ?thesis using that [of c] live assms(1) conn_at_live [OF live] by (simp add: async_held_def)
qed

text \<open>The callback: what it queues answers what was read.\<close>

definition called_back ::
  "char option \<Rightarrow> event \<Rightarrow> async_state \<Rightarrow> (sys_call \<times> sys_ret) list \<Rightarrow> async_state \<times> event option \<Rightarrow> bool" where
  "called_back oob e s tr = (\<lambda>(s', queued).
     async_inv oob s' tr \<and> events s' = events s \<and> as_workers s' = as_workers s \<and>
     as_acceptor s' = as_acceptor s \<and> (\<forall>k. other_events k s' = other_events k s) \<and>
     (\<forall>e'. queued = Some e' \<longrightarrow> ev_conn e' = ev_conn e \<and> event_ok oob tr (as_conns s') e'))"

lemma call_back_kept:
  assumes "async_inv oob s (trace w)" "ev_conn e \<in> refs s"
  shows "wp (call_back oob e s) (\<lambda>x w'. w' = w \<and> called_back oob e s (trace w) x) (async_safe oob)
    (\<lambda>w'. only_answers oob (trace w')) w"
proof -
  obtain c where c: "as_conns s ! ev_conn e = Some c" "is_live s (ev_conn e)" "conn_at s (ev_conn e) = returnIO c"
    "conn_ok (trace w) c" using live_conn [OF assms] by blast
  have ok: "only_answers oob (trace w)" using assms(1) by (simp add: async_held_def)
  have ans: "answers_read oob (trace w) (cn_sd c) (''server: '' @ tmp @ lf)"
    if "cn_ReadBuf c \<noteq> []" "strip_crlf oob (cn_ReadBuf c) = Inr tmp" for tmp
    using that c(4) by (auto simp: answers_read_def conn_ok_def)
  have len: "ev_conn e < length (as_conns s)" using c(2) by (simp add: is_live_def)
  have "called_back oob e s (trace w) (set_conn (ev_conn e) (c\<lparr>cn_WriteBuf := ''server: '' @ tmp @ lf\<rparr>) s,
      Some (EventLoop_asyncWrite (cn_sd c) (ev_conn e)))"
    if "cn_ReadBuf c \<noteq> []" "strip_crlf oob (cn_ReadBuf c) = Inr tmp" for tmp
    using async_held_set_conn [OF assms(1) c(2,1), of "c\<lparr>cn_WriteBuf := ''server: '' @ tmp @ lf\<rparr>"] ans [OF that] c(4) len
    by (simp add: called_back_def EventLoop_asyncWrite_def event_ok_def Client_in_def conn_ok_def)
  moreover have "called_back oob e s (trace w) (s, Some (EventLoop_asyncRead (cn_sd c) (ev_conn e)))"
    using assms(1) c(1) by (simp add: called_back_def EventLoop_asyncRead_def event_ok_def Client_in_def)
  moreover have "called_back oob e s (trace w) (s, None)" using assms(1) by (simp add: called_back_def)
  ultimately show ?thesis
    using ok by (auto simp: call_back_def Connection_readHandler_def Connection_writeHandler_def Connection_read_def
        Connection_write_def c(3) async_safe_def split: handler.split sum.split dest: strip_crlf_error)
qed

text \<open>A step of a worker, one lemma for each place in its loop that needs more than the frame.\<close>

lemma async_inv_goto:
  assumes "async_inv oob s tr" "k < length (as_workers s)" "set (worker_events p) = set (worker_events (as_workers s ! k))"
  shows "async_inv oob (goto_worker k p s) tr"
  by (rule async_held_frame [OF assms(1)])
    (simp_all add: events_goto [OF assms(2)] events_worker [OF assms(2)] refs_goto [OF assms(2)] refs_worker [OF assms(2)] assms(3))

lemma worker_ref:
  "k < length (as_workers s) \<Longrightarrow> e \<in> set (worker_events (as_workers s ! k)) \<Longrightarrow> e \<in> events s \<and> ev_conn e \<in> refs s"
  by (auto simp: events_worker refs_def)

lemma async_inv_call:
  "async_inv oob s (trace w) \<Longrightarrow> (\<And>fd str. c \<noteq> SysWrite fd str) \<Longrightarrow> async_inv oob s (trace w @ [(c, r)])"
  by (rule async_held_call) auto

lemma worker_has_kept:
  assumes "async_inv oob s (trace w)" "k < length (as_workers s)" "as_workers s ! k = WHas e"
  shows "wp (EventLoop_worker_step oob k s) (\<lambda>s' w'. async_inv oob s' (trace w')) (async_safe oob)
    (\<lambda>w'. only_answers oob (trace w')) w"
proof -
  let ?fd = "cl_sd (ev_client e)"
  have e: "e \<in> events s" "ev_conn e \<in> refs s" using worker_ref [OF assms(2), of e] assms(3) by simp_all
  obtain c where c: "as_conns s ! ev_conn e = Some c" "is_live s (ev_conn e)" "conn_at s (ev_conn e) = returnIO c"
    "conn_ok (trace w) c" using live_conn [OF assms(1) e(2)] by blast
  have eok: "event_ok oob (trace w) (as_conns s) e" and ok: "only_answers oob (trace w)"
    using assms(1) e(1) by (simp_all add: async_held_def)
  have goto: "async_inv oob (goto_worker k p s') tr"
    if "async_inv oob s' tr" "as_workers s' = as_workers s" "set (worker_events p) = {e}" for p s' tr
    using async_inv_goto [OF that(1), of k p] that(2,3) assms(2,3) by simp
  have read: "async_inv oob (set_conn (ev_conn e) (c\<lparr>cn_ReadBuf := payload r\<rparr>) s) (trace w @ [(SysRead ?fd 256, r)])" for r
  proof (rule async_held_set_conn [OF async_inv_call [OF assms(1)] c(2,1)])
    show "conn_ok (trace w @ [(SysRead ?fd 256, r)]) (c\<lparr>cn_ReadBuf := payload r\<rparr>)"
      using eok c(1) by (auto simp: conn_ok_def event_ok_def)
  qed simp_all
  have wrote: "async_inv oob s (trace w @ [(SysWrite ?fd (cn_WriteBuf c), r)])" if "cl_state (ev_client e) \<noteq> WANT_READ" for r
    using that eok c(1) client_state_t.exhaust [of "cl_state (ev_client e)"]
    by (intro async_held_call [OF assms(1)]) (auto simp: event_ok_def)
  have failed: "async_inv oob s (trace w @ [(SysRead ?fd 256, r)])" for r by (rule async_inv_call [OF assms(1)]) simp
  show ?thesis
    using ok
    by (auto simp: EventLoop_worker_step_def assms(3) c(3) wp_syscall async_safe_def terminated_buf_def only_answers_snoc
        simp del: norm_ret.simps split: list.split sum.split intro!: goto read wrote failed)
qed

lemma worker_call_kept:
  assumes "async_inv oob s (trace w)" "k < length (as_workers s)" "as_workers s ! k = WCall e"
  shows "wp (EventLoop_worker_step oob k s) (\<lambda>s' w'. async_inv oob s' (trace w')) (async_safe oob)
    (\<lambda>w'. only_answers oob (trace w')) w"
proof -
  have e: "ev_conn e \<in> refs s" using worker_ref [OF assms(2), of e] assms(3) by simp
  have next': "async_inv oob (goto_worker k (case queued of None \<Rightarrow> WDone e | Some e' \<Rightarrow> WPush e e') s') (trace w)"
    if "called_back oob e s (trace w) (s', queued)" for s' queued
  proof -
    have s': "async_inv oob s' (trace w)" "as_workers s' = as_workers s" "k < length (as_workers s')"
      "as_workers s' ! k = WCall e"
      using that assms(2,3) by (simp_all add: called_back_def)
    show ?thesis
    proof (cases queued)
      case None
      with s' async_inv_goto [OF s'(1,3), of "WDone e"] show ?thesis by simp
    next
      case (Some e')
      with that have e': "ev_conn e' = ev_conn e" "event_ok oob (trace w) (as_conns s') e'" by (simp_all add: called_back_def)
      have "async_inv oob (goto_worker k (WPush e e') s') (trace w)"
        by (rule async_held_event [OF s'(1) _ _ _ e'(2)])
          (auto simp: events_goto [OF s'(3)] events_worker [OF s'(3)] refs_goto [OF s'(3)] refs_worker [OF s'(3)] s'(4) e'(1))
      with Some show ?thesis by simp
    qed
  qed
  have "wp (call_back oob e s)
    (\<lambda>x w'. async_inv oob (goto_worker k (case snd x of None \<Rightarrow> WDone e | Some e' \<Rightarrow> WPush e e') (fst x)) (trace w'))
    (async_safe oob) (\<lambda>w'. only_answers oob (trace w')) w"
    by (rule wp_mono [OF call_back_kept [OF assms(1) e]]) (auto intro: next')
  then show ?thesis by (simp add: EventLoop_worker_step_def assms(3) split_beta)
qed

lemma worker_step_kept:
  assumes "async_inv oob s (trace w)" "k < length (as_workers s)"
  shows "wp (EventLoop_worker_step oob k s) (\<lambda>s' w'. async_inv oob s' (trace w')) (async_safe oob)
    (\<lambda>w'. only_answers oob (trace w')) w"
proof -
  have ok: "only_answers oob (trace w)" using assms by (simp add: async_held_def)
  note parts = events_worker [OF assms(2)] refs_worker [OF assms(2)]
  have goto: "async_inv oob (goto_worker k p s) (trace w @ [(c, r)])"
    if "\<And>fd str. c \<noteq> SysWrite fd str" "set (worker_events p) = set (worker_events (as_workers s ! k))" for p c r
    by (rule async_inv_goto [OF async_inv_call [OF assms(1) that(1)] assms(2) that(2)])
  show ?thesis
  proof (cases "as_workers s ! k")
    case WIdle
    have "async_inv oob (goto_worker k (WHas e) (s\<lparr>as_have := es\<rparr>)) (trace w)" if "as_have s = e # es" for e es
      using assms(2) that WIdle
      by (intro async_held_frame [OF assms(1)]) (auto simp: events_goto refs_goto parts other_events_def)
    with WIdle ok assms(1) show ?thesis
      by (auto simp: EventLoop_worker_step_def wp_syscall split: list.split intro!: async_inv_call)
  next
    case (WPush e e')
    have "async_inv oob (goto_worker k (WDone e) (EventLoop_emplace e' s)) (trace w)"
      using assms(2) WPush
      by (intro async_held_frame [OF assms(1)])
        (auto simp: EventLoop_emplace_def events_goto refs_goto parts other_events_def)
    with WPush show ?thesis by (simp add: EventLoop_worker_step_def)
  next
    case (WFailed e)
    with ok goto [of _ "WClosing e"] show ?thesis
      by (auto simp: EventLoop_worker_step_def wp_syscall split: list.split)
  next
    case (WClosing e)
    with ok goto [of _ "WDone e"] show ?thesis
      by (auto simp: EventLoop_worker_step_def wp_syscall split: list.split)
  next
    case (WDone e)
    have "async_held oob {ev_conn e} (goto_worker k WIdle s) (trace w)"
      using assms(2) WDone by (intro async_held_frame [OF assms(1)]) (auto simp: events_goto refs_goto parts)
    from release_kept [OF this] WDone show ?thesis by (simp add: EventLoop_worker_step_def)
  qed (use worker_has_kept [OF assms] worker_call_kept [OF assms] in auto)
qed

lemma accept_kept:
  assumes "async_inv oob s (trace w)" "as_acceptor s = AReady"
  shows "async_inv oob (s\<lparr>as_conns := as_conns s @ [Some \<lparr>cn_sd = fd, cn_ReadBuf = [], cn_WriteBuf = []\<rparr>],
    as_acceptor := AConn (length (as_conns s))\<rparr>) (trace w @ [(SysAccept l, r)])" (is "async_inv oob ?s _")
proof -
  have parts: "events ?s = events s" "refs ?s = insert (length (as_conns s)) (refs s)"
    using assms(2) by (auto simp: events_def refs_def)
  have "is_live ?s cid \<longleftrightarrow> cid = length (as_conns s) \<or> is_live s cid" for cid
    by (auto simp: is_live_def nth_append)
  moreover have "event_ok oob (trace w) (as_conns ?s) e" if "e \<in> events s" for e
  proof -
    have "is_live s (ev_conn e)" using assms(1) that by (simp add: async_held_def refs_def)
    moreover have "event_ok oob (trace w) (as_conns s) e" using assms(1) that by (simp add: async_held_def)
    ultimately show ?thesis by (simp add: event_ok_def is_live_def nth_append)
  qed
  ultimately have "async_inv oob ?s (trace w)"
    using assms(1) by (auto simp: async_held_def parts conn_ok_def)
  then show ?thesis by (rule async_held_call) simp
qed

lemma accept_step_kept:
  assumes "async_inv oob s (trace w)"
  shows "wp (AsyncPollEngine_accept_step l s) (\<lambda>s' w'. async_inv oob s' (trace w')) (async_safe oob)
    (\<lambda>w'. only_answers oob (trace w')) w"
proof -
  have ok: "only_answers oob (trace w)" using assms by (simp add: async_held_def)
  note call = async_inv_call [OF assms(1)]
  show ?thesis
  proof (cases "as_acceptor s")
    case AWaiting
    have "async_inv oob (s\<lparr>as_acceptor := AReady\<rparr>) (trace w @ [(SysPoll ps, r)])" for ps r
      by (rule async_held_frame [OF call]) (simp_all add: events_def refs_def AWaiting)
    with AWaiting ok call show ?thesis
      by (auto simp: AsyncPollEngine_accept_step_def accept_work_def wp_syscall async_safe_def only_answers_snoc
          split: list.split simp del: norm_ret.simps)
  next
    case AReady
    with ok accept_kept [OF assms AReady] show ?thesis
      by (simp add: AsyncPollEngine_accept_step_def accept_work_def Connection_ctor_def wp_syscall split: list.split del: norm_ret.simps)
  next
    case (AConn conn)
    then have "conn \<in> refs s" by (simp add: refs_def)
    with live_conn [OF assms] obtain c where c: "as_conns s ! conn = Some c" "conn_at s conn = returnIO c" by blast
    then have "event_ok oob (trace w) (as_conns s) (EventLoop_asyncRead (cn_sd c) conn)"
      by (simp add: event_ok_def EventLoop_asyncRead_def Client_in_def)
    then have "async_inv oob (s\<lparr>as_acceptor := AQueue conn (EventLoop_asyncRead (cn_sd c) conn)\<rparr>) (trace w)"
      using AConn by (intro async_held_event [OF assms]) (auto simp: events_def refs_def EventLoop_asyncRead_def)
    with AConn c(2) show ?thesis by (simp add: AsyncPollEngine_accept_step_def Connection_read_def)
  next
    case (AQueue conn e)
    have "async_inv oob (EventLoop_emplace e (s\<lparr>as_acceptor := ADone conn\<rparr>)) (trace w)"
      by (rule async_held_frame [OF assms]) (auto simp: EventLoop_emplace_def events_def refs_def AQueue)
    with AQueue show ?thesis by (simp add: AsyncPollEngine_accept_step_def)
  next
    case (ADone conn)
    have "async_held oob {conn} (s\<lparr>as_acceptor := AWaiting\<rparr>) (trace w)"
      by (rule async_held_frame [OF assms]) (auto simp: events_def refs_def ADone)
    from release_kept [OF this] ADone show ?thesis by (simp add: AsyncPollEngine_accept_step_def)
  qed
qed

lemma async_step_kept:
  assumes "async_inv oob s (trace w)"
  shows "wp (AsyncPollEngine_step oob l t s) (\<lambda>s' w'. async_inv oob s' (trace w')) (async_safe oob)
    (\<lambda>w'. only_answers oob (trace w')) w"
  using assms manage_step_kept [OF assms] worker_step_kept [OF assms] accept_step_kept [OF assms]
  by (auto simp: AsyncPollEngine_step_def split: async_thread.split)

lemma async_inv_init: "async_inv oob async_init []"
  by (simp add: async_held_def async_init_def events_def refs_def is_live_def)

lemma async_reach_inv: "async_reach oob l rs s w \<Longrightarrow> async_inv oob s (trace w)"
proof (induction rule: async_reach.induct)
  case async_start
  show ?case using async_inv_init by simp
next
  case (async_more s w t s' w')
  from wp_Ok [OF async_step_kept [OF async_more.IH] async_more.hyps(2)] show ?case .
qed

lemma sched_reaches:
  "AsyncPollEngine_sched oob l ts s w = (Ok s', w') \<Longrightarrow> async_reach oob l rs s w \<Longrightarrow> async_reach oob l rs s' w'"
proof (induction ts arbitrary: s w)
  case (Cons t ts)
  then obtain s1 w1 where "AsyncPollEngine_step oob l t s w = (Ok s1, w1)" "AsyncPollEngine_sched oob l ts s1 w1 = (Ok s', w')"
    by (auto simp: bindIO_def split: prod.splits outcome.splits)
  with Cons.IH Cons.prems(2) show ?case by (blast intro: async_more)
qed (simp add: returnIO_def)

lemmas async_eval = AsyncPollEngine_step_def EventLoop_manage_step_def EventLoop_worker_step_def AsyncPollEngine_accept_step_def
  accept_work_def Connection_ctor_def Connection_read_def Connection_write_def Connection_readHandler_def
  Connection_writeHandler_def call_back_def EventLoop_asyncRead_def EventLoop_asyncWrite_def EventLoop_emplace_def
  EventLoop_scan_def EventLoop_deleteClient_def release_conn_def conn_at_def set_conn_def goto_worker_def refs_def events_def
  fill_fds_def entry_of_def polled_fds_def entry_at_def revents_of_def Client_in_def Let_def bindIO_def syscall_Cons
  returnIO_def liftE_def terminated_buf_def strip_crlf.simps is_crlf_def ret_def ret_data_def ret_err_def count_ret_def has_bit_def

section \<open>Properties\<close>


lemma async_example:
  "\<exists>s w. async_reach None 3 [ret 1, ret 5, (ret 1)\<lparr>marks := [POLLIN]\<rparr>, ret_data (''hi'' @ lf), (ret 1)\<lparr>marks := [POLLOUT]\<rparr>, ret 11] s w \<and>
     trace w = [(SysPoll [(3, POLLIN)], ret 1), (SysAccept 3, ret 5), (SysPoll [(5, POLLIN)], (ret 1)\<lparr>marks := [POLLIN]\<rparr>),
       (SysRead 5 256, ret_data (''hi'' @ lf)), (SysPoll [(5, POLLOUT)], (ret 1)\<lparr>marks := [POLLOUT]\<rparr>)] @
       (SysWrite 5 (''server: '' @ ''hi'' @ lf), ret 11) # [] \<and> is_live s 0"
proof -
  let ?rs = "[ret 1, ret 5, (ret 1)\<lparr>marks := [POLLIN]\<rparr>, ret_data (''hi'' @ lf), (ret 1)\<lparr>marks := [POLLOUT]\<rparr>, ret 11]"
  let ?ts = "[Acceptor, Acceptor, Acceptor, Acceptor, Acceptor, Manager, Manager, Manager, Manager, Worker 2, Worker 2,
    Worker 2, Worker 2, Worker 2, Manager, Manager, Manager, Manager, Manager, Manager, Worker 0, Worker 0]"
  obtain s w where "AsyncPollEngine_sched None 3 ?ts async_init \<lparr>script = ?rs, trace = []\<rparr> = (Ok s, w)"
    "trace w = [(SysPoll [(3, POLLIN)], ret 1), (SysAccept 3, ret 5), (SysPoll [(5, POLLIN)], (ret 1)\<lparr>marks := [POLLIN]\<rparr>),
       (SysRead 5 256, ret_data (''hi'' @ lf)), (SysPoll [(5, POLLOUT)], (ret 1)\<lparr>marks := [POLLOUT]\<rparr>)] @
       (SysWrite 5 (''server: '' @ ''hi'' @ lf), ret 11) # []" "is_live s 0"
    by (simp add: async_eval async_init_def is_live_def)
  with sched_reaches [OF this(1) async_start] show ?thesis by blast
qed


text \<open>
  C28: shared ownership in \<open>AsyncPollEngine\<close>, under every interleaving of its threads and on every behaviour of the kernel: in
  every state they reach, a connection is alive exactly when an event in a queue, an event in the hands of a worker or the
  acceptor refers to it (so none is leaked and none is destroyed under an event), every event carries the descriptor of its
  connection and the handler for what it waits for, and the next step of any thread keeps this
  and does not use a destroyed connection.
\<close>

theorem Async_connections_owned:
  assumes "async_reach oob l rs s w"
  shows "(\<forall>cid. is_live s cid \<longleftrightarrow> cid \<in> refs s) \<and>
    (\<forall>e \<in> events s. \<exists>c. as_conns s ! ev_conn e = Some c \<and> cn_sd c = cl_sd (ev_client e) \<and>
       (ev_handler e = ReadHandler \<longleftrightarrow> cl_state (ev_client e) = WANT_READ)) \<and>
    wp (AsyncPollEngine_step oob l t s) (\<lambda>s' _. \<forall>cid. is_live s' cid \<longleftrightarrow> cid \<in> refs s')
      (\<lambda>e _. e \<noteq> Undefined UseAfterFree) (\<lambda>_. True) w"
proof -
  have inv: "async_inv oob s (trace w)" by (rule async_reach_inv [OF assms])
  have "\<exists>c. as_conns s ! ev_conn e = Some c \<and> cn_sd c = cl_sd (ev_client e) \<and>
       (ev_handler e = ReadHandler \<longleftrightarrow> cl_state (ev_client e) = WANT_READ)" if "e \<in> events s" for e
  proof -
    have "ev_conn e \<in> refs s" "event_ok oob (trace w) (as_conns s) e" using that inv by (auto simp: refs_def async_held_def)
    moreover obtain c where "as_conns s ! ev_conn e = Some c" using live_conn [OF inv calculation(1)] by blast
    ultimately show ?thesis by (simp add: event_ok_def)
  qed
  moreover have "wp (AsyncPollEngine_step oob l t s) (\<lambda>s' _. \<forall>cid. is_live s' cid \<longleftrightarrow> cid \<in> refs s')
      (\<lambda>e _. e \<noteq> Undefined UseAfterFree) (\<lambda>_. True) w"
    by (rule wp_mono [OF async_step_kept [OF inv]]) (auto simp: async_held_def async_safe_def)
  ultimately show ?thesis using inv by (simp add: async_held_def)
qed

theorem Async_connections_owned_witness:
  "\<exists>s w. async_reach None 3
     [ret 1, ret 5, (ret 1)\<lparr>marks := [POLLIN]\<rparr>, ret_data (''hi'' @ lf), (ret 1)\<lparr>marks := [POLLOUT]\<rparr>, ret 11] s w \<and>
     is_live s 0 \<and> 0 \<in> refs s"
  using async_example Async_connections_owned [of None 3] by blast

text \<open>
  the scan of \<open>manageConnections\<close> erases from \<open>m_ClientsWantWork\<close> while it indexes it and
  \<open>fds\<close> with the same \<open>i\<close>. With three connections that all have data, the first is
  handed over; then the third is handed over in place of the second, and it
  is the second that is erased: its connection is closed with its data unread, and the
  third is both waiting and being worked on.
\<close>

theorem Async_scan_misaligned:
  assumes "distinct [a, b, c]"
    and "s = async_init\<lparr>as_want := [EventLoop_asyncRead a 0, EventLoop_asyncRead b 1, EventLoop_asyncRead c 2],
      as_conns := map (\<lambda>fd. Some \<lparr>cn_sd = fd, cn_ReadBuf = [], cn_WriteBuf = []\<rparr>) [a, b, c]\<rparr>"
  shows "\<exists>s' w. run (AsyncPollEngine_sched oob l [Manager, Manager, Manager, Manager, Manager, Manager] s)
      [(ret 3)\<lparr>marks := [POLLIN, POLLIN, POLLIN]\<rparr>, ret 0] = (Ok s', w) \<and>
    as_have s' = [EventLoop_asyncRead a 0, EventLoop_asyncRead c 2] \<and> as_want s' = [EventLoop_asyncRead c 2] \<and>
    as_conns s' ! 1 = None \<and> map fst (trace w) = [SysPoll [(a, POLLIN), (b, POLLIN), (c, POLLIN)], SysClose b]"
  using assms(1) unfolding assms(2)
  by (simp add: run_def async_eval async_init_def)

theorem Async_scan_misaligned_witness:
  "\<exists>s' w. run (AsyncPollEngine_sched None 3 [Manager, Manager, Manager, Manager, Manager, Manager]
       (async_init\<lparr>as_want := [EventLoop_asyncRead 5 0, EventLoop_asyncRead 6 1, EventLoop_asyncRead 7 2],
        as_conns := map (\<lambda>fd. Some \<lparr>cn_sd = fd, cn_ReadBuf = [], cn_WriteBuf = []\<rparr>) [5, 6, 7]\<rparr>))
       [(ret 3)\<lparr>marks := [POLLIN, POLLIN, POLLIN]\<rparr>, ret 0] = (Ok s', w) \<and>
     as_have s' = [EventLoop_asyncRead 5 0, EventLoop_asyncRead 7 2] \<and> as_want s' = [EventLoop_asyncRead 7 2]"
  using Async_scan_misaligned [OF _ refl, of 5 6 7 None 3] by auto

text \<open>
  After a read error the worker closes the descriptor, and the destructor of the connection,
  whose last reference was the event, closes it again.
\<close>

theorem Async_read_error_closes_twice:
  assumes "s = async_init\<lparr>as_workers := [WHas (EventLoop_asyncRead fd 0)],
      as_conns := [Some \<lparr>cn_sd = fd, cn_ReadBuf = [], cn_WriteBuf = []\<rparr>]\<rparr>"
  shows "\<exists>s' w. run (AsyncPollEngine_sched oob l [Worker 0, Worker 0, Worker 0, Worker 0] s) [ret_err e, ret 0, ret 0, ret 0] = (Ok s', w) \<and>
    map fst (trace w) = [SysRead fd 256, SysSleep 1000000, SysClose fd, SysClose fd]"
  unfolding assms by (simp add: run_def async_eval async_init_def)

end
