(* ===== verification/Epoll_Engine.thy ===== *)
theory Epoll_Engine
  imports Poll_Engine
begin

text \<open>
  \<open>EpollEngine\<close> of \<open>net/libtpevent/src/epoll.cpp\<close>. The \<open>Client\<close> objects it allocates live in
  a store: the address of a client is its position, a deleted client is an empty
  cell. An event of \<open>epoll_wait\<close> carries what was registered with the descriptor: the
  listener, or the address of a client (\<open>marks\<close> of the response lists the pairs of
  address and event bits, -1 for the listener).
\<close>

section \<open>Definitions\<close>

abbreviation EPOLLIN :: int where "EPOLLIN \<equiv> 1"
abbreviation EPOLLOUT :: int where "EPOLLOUT \<equiv> 4"
abbreviation EPOLLERR :: int where "EPOLLERR \<equiv> 8"
abbreviation EPOLLHUP :: int where "EPOLLHUP \<equiv> 16"

type_synonym client_store = "client option list"

fun event_pairs :: "int list \<Rightarrow> (int \<times> int) list" where
  "event_pairs (a # ev # rest) = (a, ev) # event_pairs rest"
| "event_pairs _ = []"

text \<open>\<open>cs->...\<close>: the client at an address.\<close>

definition client_at :: "client_store \<Rightarrow> int \<Rightarrow> client io" where
  "client_at st a =
     (if 0 \<le> a \<and> nat a < length st then
        (case st ! nat a of None \<Rightarrow> failIO (Undefined UseAfterFree) | Some c \<Rightarrow> returnIO c)
      else failIO (Undefined UseAfterFree))"

definition set_desire_events :: "int \<Rightarrow> int \<Rightarrow> int \<Rightarrow> int \<Rightarrow> bool io" where
  "set_desire_events epfd cli_fd events c =
     bindIO (syscall (SysEpollMod epfd cli_fd events)) (\<lambda>r. returnIO (rc r = 0))"

definition accept_action :: "int \<Rightarrow> int \<Rightarrow> client_store \<Rightarrow> client_store io" where
  "accept_action epfd listener st =
     bindIO (syscall (SysAccept listener)) (\<lambda>cli_sd.
     bindIO (syscall (SysEpollAdd epfd (rc cli_sd))) (\<lambda>_.
     returnIO (st @ [Some (Client (rc cli_sd))])))"

text \<open>
  The branches of the event loop for one event; the result is the store and whether the client goes on
  the list of disconnected ones.
\<close>

definition EpollEngine_in :: "char option \<Rightarrow> int \<Rightarrow> client_store \<Rightarrow> int \<Rightarrow> (client_store \<times> bool) io" where
  "EpollEngine_in oob epfd st a =
     bindIO (client_at st a) (\<lambda>cs.
     if cl_state cs \<noteq> WANT_READ then returnIO (st, False)
     else
       bindIO (syscall (SysRead (cl_sd cs) 256)) (\<lambda>r.
       if rc r < 0 then returnIO (st, True)
       else
         bindIO (liftE (terminated_buf 256 (payload r))) (\<lambda>buf.
         bindIO (liftE (strip_crlf oob buf)) (\<lambda>tmp.
         if rc r > 0 then
           bindIO (set_desire_events epfd (cl_sd cs) EPOLLOUT a) (\<lambda>ret.
           if \<not> ret then failIO (Throw ''epoll_ctl error: '')
           else returnIO (st[nat a := Some (cs\<lparr>cl_state := WANT_WRITE\<rparr>)], False))
         else returnIO (st, True)))))"

definition EpollEngine_out :: "int \<Rightarrow> client_store \<Rightarrow> int \<Rightarrow> (client_store \<times> bool) io" where
  "EpollEngine_out epfd st a =
     bindIO (client_at st a) (\<lambda>cs.
     if cl_state cs \<noteq> WANT_WRITE then returnIO (st, False)
     else
       bindIO (syscall (SysWrite (cl_sd cs) hello_from_server)) (\<lambda>_.
       bindIO (set_desire_events epfd (cl_sd cs) EPOLLIN a) (\<lambda>ret.
       if \<not> ret then failIO (Throw ''epoll_ctl error: '')
       else returnIO (st[nat a := Some (cs\<lparr>cl_state := WANT_READ\<rparr>)], False))))"

definition EpollEngine_event ::
  "char option \<Rightarrow> int \<Rightarrow> int \<Rightarrow> client_store \<Rightarrow> int \<times> int \<Rightarrow> (client_store \<times> bool) io" where
  "EpollEngine_event oob epfd listener st = (\<lambda>(a, ev).
     if a = - 1 then bindIO (accept_action epfd listener st) (\<lambda>st'. returnIO (st', False))
     else if has_bit ev EPOLLHUP then returnIO (st, True)
     else if has_bit ev EPOLLIN then EpollEngine_in oob epfd st a
     else if has_bit ev EPOLLOUT then EpollEngine_out epfd st a
     else bindIO (client_at st a) (\<lambda>_. returnIO (st, False)))"

fun EpollEngine_events ::
  "char option \<Rightarrow> int \<Rightarrow> int \<Rightarrow> client_store \<Rightarrow> (int \<times> int) list \<Rightarrow> (client_store \<times> int list) io" where
  "EpollEngine_events oob epfd listener st [] = returnIO (st, [])"
| "EpollEngine_events oob epfd listener st (e # es) =
     bindIO (EpollEngine_event oob epfd listener st e) (\<lambda>(st', gone).
     bindIO (EpollEngine_events oob epfd listener st' es) (\<lambda>(st'', disconnected).
     returnIO (st'', if gone then fst e # disconnected else disconnected)))"

text \<open>The removal of the disconnected clients: \<open>close\<close> and \<open>delete\<close>.\<close>

fun EpollEngine_gc :: "client_store \<Rightarrow> int list \<Rightarrow> client_store io" where
  "EpollEngine_gc st [] = returnIO st"
| "EpollEngine_gc st (a # as) =
     bindIO (client_at st a) (\<lambda>c.
     bindIO (syscall (SysClose (cl_sd c))) (\<lambda>_.
     EpollEngine_gc (st[nat a := None]) as))"

definition EpollEngine_round ::
  "char option \<Rightarrow> int \<Rightarrow> int \<Rightarrow> client_store \<Rightarrow> (client_store + unit) io" where
  "EpollEngine_round oob epfd listener st =
     bindIO (syscall (SysEpollWait epfd)) (\<lambda>epoll_ret.
     if rc epoll_ret = 0 then returnIO (Inl st)
     else if rc epoll_ret = - 1 then failIO (Throw ''epoll: '')
     else
       bindIO (EpollEngine_events oob epfd listener st (event_pairs (marks epoll_ret))) (\<lambda>(st', disconnected).
       bindIO (EpollEngine_gc st' disconnected) (\<lambda>st''.
       returnIO (Inl st''))))"

definition EpollEngine_eventLoop :: "char option \<Rightarrow> int \<Rightarrow> unit io" where
  "EpollEngine_eventLoop oob listener =
     bindIO (syscall SysEpollCreate) (\<lambda>epfd.
     bindIO (syscall (SysEpollAdd (rc epfd) listener)) (\<lambda>_.
     loop_io (EpollEngine_round oob (rc epfd) listener) []))"

definition EpollEngine_run :: "char option \<Rightarrow> int \<Rightarrow> unit io" where
  "EpollEngine_run oob listener = EpollEngine_eventLoop oob listener"

section \<open>The loop\<close>

lemma shrinks_client_at [shrinks_intros]: "shrinks (client_at st a)"
  unfolding client_at_def by (intro shrinks_intros)

lemma shrinks_EpollEngine_event [shrinks_intros]: "shrinks (EpollEngine_event oob epfd l st e)"
  unfolding EpollEngine_event_def EpollEngine_in_def EpollEngine_out_def set_desire_events_def accept_action_def
  by (cases e) (auto intro!: shrinks_intros)

lemma shrinks_EpollEngine_events [shrinks_intros]: "shrinks (EpollEngine_events oob epfd l st es)"
  by (induction oob epfd l st es rule: EpollEngine_events.induct) (auto intro!: shrinks_intros)

lemma shrinks_EpollEngine_gc [shrinks_intros]: "shrinks (EpollEngine_gc st as)"
  by (induction st as rule: EpollEngine_gc.induct) (auto intro!: shrinks_intros)

interpretation epoll_loop: sys_loop "EpollEngine_round oob epfd l" for oob epfd l
  by unfold_locales (unfold EpollEngine_round_def, intro progress_intros shrinks_intros)

section \<open>Clients and descriptors\<close>

text \<open>The descriptors of the cells, in which a change of a client's state does not show.\<close>

definition cell_fds :: "client_store \<Rightarrow> int option list" where
  "cell_fds st = map (map_option cl_sd) st"

definition live_at :: "client_store \<Rightarrow> int \<Rightarrow> bool" where
  "live_at st a \<longleftrightarrow> 0 \<le> a \<and> nat a < length st \<and> st ! nat a \<noteq> None"

definition store_fds :: "client_store \<Rightarrow> int set" where
  "store_fds st = {fd. Some fd \<in> set (cell_fds st)}"

definition store_ok :: "int set \<Rightarrow> int \<Rightarrow> client_store \<Rightarrow> world \<Rightarrow> bool" where
  "store_ok F l st w \<longleftrightarrow>
     distinct (filter (\<lambda>d. d \<noteq> None) (cell_fds st)) \<and>
     store_fds st \<union> F = open_from F w \<and> store_fds st \<inter> F = {} \<and> l \<in> F \<and> used_from only_open l F w"

text \<open>
  What \<open>epoll_wait\<close> promises: each event is for the listener or for a client that is still
  there, and a client has at most one event.
\<close>

definition events_ok :: "client_store \<Rightarrow> (int \<times> int) list \<Rightarrow> bool" where
  "events_ok st es \<longleftrightarrow>
     (\<forall>e \<in> set es. fst e = - 1 \<or> live_at st (fst e)) \<and>
     distinct (filter (\<lambda>a. a \<noteq> - 1) (map fst es))"

lemma live_atE:
  assumes "live_at st a"
  obtains c where "0 \<le> a" "nat a < length st" "st ! nat a = Some c" "client_at st a = returnIO c"
    "cl_sd c \<in> store_fds st"
  using assms by (force simp: live_at_def client_at_def store_fds_def cell_fds_def image_iff set_conv_nth)

lemma cell_fds_update:
  "i < length st \<Longrightarrow> st ! i = Some c \<Longrightarrow> cl_sd c' = cl_sd c \<Longrightarrow> cell_fds (st[i := Some c']) = cell_fds st"
  by (simp add: cell_fds_def map_update list_update_same_conv)

lemma live_at_update: "live_at st b \<Longrightarrow> live_at (st[i := Some c]) b"
  by (cases "i = nat b") (auto simp: live_at_def)

lemma live_at_delete: "live_at st b \<Longrightarrow> live_at st a \<Longrightarrow> b \<noteq> a \<Longrightarrow> live_at (st[nat a := None]) b"
  by (auto simp: live_at_def nth_list_update)

lemma store_ok_cong: "cell_fds st' = cell_fds st \<Longrightarrow> store_ok F l st' w = store_ok F l st w"
  by (simp add: store_ok_def store_fds_def)

lemma store_ok_snoc:
  assumes "store_ok F l st w" "fd \<notin> open_from F w" "open_from F w' = insert fd (open_from F w)"
    "used_from only_open l F w'"
  shows "store_ok F l (st @ [Some (Client fd)]) w'"
  using assms by (auto simp: store_ok_def store_fds_def cell_fds_def)

lemma store_ok_call:
  assumes "store_ok F l st w" "fd_step (open_from F w) e = open_from F w" "use_ok only_open l (open_from F w) e"
  shows "store_ok F l st (after_call w rs e)"
  using assms by (simp add: store_ok_def)

text \<open>Errors of a round: never the use or the deletion of a client that is gone.\<close>

definition epoll_error :: "cpp_error \<Rightarrow> bool" where
  "epoll_error e \<longleftrightarrow>
     e \<in> {Throw ''epoll: '', Throw ''epoll_ctl error: '', Undefined OutOfBoundsWrite,
          Undefined OutOfBoundsRead, Undefined PopBackEmpty}"

definition handled ::
  "int set \<Rightarrow> int \<Rightarrow> client_store \<Rightarrow> int \<Rightarrow> world \<Rightarrow> client_store \<times> bool \<Rightarrow> world \<Rightarrow> bool" where
  "handled F l st a w = (\<lambda>(st', gone) w'. fresh_from F w' \<longrightarrow>
     fresh_from F w \<and> store_ok F l st' w' \<and> (\<forall>b. live_at st b \<longrightarrow> live_at st' b) \<and>
     (gone \<longrightarrow> a \<noteq> - 1 \<and> live_at st' a))"

lemma epoll_in_wp:
  assumes "live_at st a" "store_ok F l st w"
  shows "wp (EpollEngine_in oob epfd st a) (handled F l st a w)
    (\<lambda>e w'. epoll_error e \<and> used_from only_open l F w') (used_from only_open l F) w"
proof -
  from assms(1) obtain c where c: "0 \<le> a" "nat a < length st" "st ! nat a = Some c"
    "client_at st a = returnIO c" "cl_sd c \<in> store_fds st" by (rule live_atE)
  have fd: "cl_sd c \<in> open_from F w" "cl_sd c \<noteq> l" using c(5) assms(2) by (auto simp: store_ok_def)
  have used: "used_from only_open l F w" using assms(2) by (simp add: store_ok_def)
  have upd: "cell_fds (st[nat a := Some (c\<lparr>cl_state := x\<rparr>)]) = cell_fds st" for x
    using c(2,3) by (intro cell_fds_update) auto
  show ?thesis
    using assms fd c(1) used
    by (auto simp: EpollEngine_in_def set_desire_events_def c(4) wp_syscall epoll_error_def handled_def
        terminated_buf_def store_ok_cong [OF upd] live_at_update intro!: store_ok_call
        split: list.splits sum.splits dest: strip_crlf_error)
qed

lemma epoll_out_wp:
  assumes "live_at st a" "store_ok F l st w"
  shows "wp (EpollEngine_out epfd st a) (handled F l st a w)
    (\<lambda>e w'. epoll_error e \<and> used_from only_open l F w') (used_from only_open l F) w"
proof -
  from assms(1) obtain c where c: "0 \<le> a" "nat a < length st" "st ! nat a = Some c"
    "client_at st a = returnIO c" "cl_sd c \<in> store_fds st" by (rule live_atE)
  have fd: "cl_sd c \<in> open_from F w" "cl_sd c \<noteq> l" using c(5) assms(2) by (auto simp: store_ok_def)
  have used: "used_from only_open l F w" using assms(2) by (simp add: store_ok_def)
  have upd: "cell_fds (st[nat a := Some (c\<lparr>cl_state := x\<rparr>)]) = cell_fds st" for x
    using c(2,3) by (intro cell_fds_update) auto
  show ?thesis
    using assms fd c(1) used
    by (auto simp: EpollEngine_out_def set_desire_events_def c(4) wp_syscall epoll_error_def handled_def
        store_ok_cong [OF upd] live_at_update intro!: store_ok_call split: list.splits)
qed

lemma epoll_event_wp:
  assumes "a = - 1 \<or> live_at st a" "store_ok F l st w"
  shows "wp (EpollEngine_event oob epfd l st (a, ev)) (handled F l st a w)
    (\<lambda>e w'. epoll_error e \<and> used_from only_open l F w') (used_from only_open l F) w"
proof (cases "a = - 1")
  case True
  have "live_at st b \<Longrightarrow> live_at (st @ [x]) b" for b x by (auto simp: live_at_def nth_append)
  moreover have "l \<in> open_from F w" "used_from only_open l F w" using assms(2) by (auto simp: store_ok_def)
  ultimately show ?thesis
    using True assms(2)
    by (auto simp: EpollEngine_event_def accept_action_def wp_syscall handled_def
        intro!: store_ok_snoc [of F l st w] split: list.splits if_splits)
next
  case False
  with assms have live: "live_at st a" by simp
  then obtain c where c: "client_at st a = returnIO c" by (rule live_atE)
  have same: "handled F l st a w (st, g) w" for g using False live assms(2) by (simp add: handled_def)
  show ?thesis
    using False same assms(2) epoll_in_wp [OF live assms(2)] epoll_out_wp [OF live assms(2)]
    by (simp add: EpollEngine_event_def c)
qed

definition all_handled ::
  "int set \<Rightarrow> int \<Rightarrow> client_store \<Rightarrow> (int \<times> int) list \<Rightarrow> world \<Rightarrow> client_store \<times> int list \<Rightarrow> world \<Rightarrow> bool" where
  "all_handled F l st es w = (\<lambda>(st', disc) w'. fresh_from F w' \<longrightarrow>
     fresh_from F w \<and> store_ok F l st' w' \<and> distinct disc \<and>
     set disc \<subseteq> set (filter (\<lambda>a. a \<noteq> - 1) (map fst es)) \<and> (\<forall>a \<in> set disc. live_at st' a) \<and>
     (\<forall>b. live_at st b \<longrightarrow> live_at st' b))"

lemma epoll_events_wp:
  assumes "events_ok st es" "store_ok F l st w"
  shows "wp (EpollEngine_events oob epfd l st es) (all_handled F l st es w)
    (\<lambda>e w'. fresh_from F w' \<longrightarrow> epoll_error e \<and> used_from only_open l F w')
    (\<lambda>w'. fresh_from F w' \<longrightarrow> used_from only_open l F w') w"
  using assms
proof (induction oob epfd l st es arbitrary: w rule: EpollEngine_events.induct)
  case (1 oob epfd listener st)
  then show ?case by (simp add: all_handled_def)
next
  case (2 oob epfd l st e es)
  have e: "fst e = - 1 \<or> live_at st (fst e)" using 2(2) by (simp add: events_ok_def)
  have ev: "wp (EpollEngine_event oob epfd l st e) (handled F l st (fst e) w)
      (\<lambda>e w'. epoll_error e \<and> used_from only_open l F w') (used_from only_open l F) w"
    using epoll_event_wp [OF e 2(3), of oob epfd "snd e"] by simp
  have rest: "wp (EpollEngine_events oob epfd l st' es)
      (\<lambda>r w'. fresh_from F w' \<longrightarrow> all_handled F l st (e # es) w
        (fst r, if gone then fst e # snd r else snd r) w')
      (\<lambda>e w'. fresh_from F w' \<longrightarrow> epoll_error e \<and> used_from only_open l F w')
      (\<lambda>w'. fresh_from F w' \<longrightarrow> used_from only_open l F w') w1"
    if h: "handled F l st (fst e) w (st', gone) w1" for st' gone w1
  proof (rule wp_guard [OF fresh_from_later shrinks_EpollEngine_events])
    assume fr: "fresh_from F w1"
    with h have st': "store_ok F l st' w1" "\<forall>b. live_at st b \<longrightarrow> live_at st' b"
      "gone \<longrightarrow> fst e \<noteq> - 1 \<and> live_at st' (fst e)" "fresh_from F w" by (auto simp: handled_def)
    have "events_ok st' es" using 2(2) st'(2) by (auto simp: events_ok_def split: if_splits)
    from 2(1) [OF this st'(1)] show "wp (EpollEngine_events oob epfd l st' es)
      (\<lambda>r w'. fresh_from F w' \<longrightarrow> all_handled F l st (e # es) w
        (fst r, if gone then fst e # snd r else snd r) w')
      (\<lambda>e w'. fresh_from F w' \<longrightarrow> epoll_error e \<and> used_from only_open l F w')
      (\<lambda>w'. fresh_from F w' \<longrightarrow> used_from only_open l F w') w1"
    proof (rule wp_mono, goal_cases)
      case (1 r w')
      moreover have "fst e \<notin> set (filter (\<lambda>a. a \<noteq> - 1) (map fst es))" if "fst e \<noteq> - 1"
        using 2(2) that by (auto simp: events_ok_def)
      ultimately show ?case using st' by (cases r) (auto simp: all_handled_def)
    qed auto
  qed auto
  show ?case
    unfolding EpollEngine_events.simps wp_bind
  proof (rule wp_mono [OF ev], goal_cases)
    case (1 x w1)
    then show ?case
      using rest [of "fst x" "snd x" w1] by (cases x) (auto elim!: wp_mono simp: all_handled_def split_beta)
  qed auto
qed

lemma filter_update_None:
  assumes "i < length xs" "xs ! i \<noteq> None" "distinct (filter (\<lambda>d. d \<noteq> None) xs)"
  shows "distinct (filter (\<lambda>d. d \<noteq> None) (xs[i := None])) \<and> set (xs[i := None]) - {None} = set xs - {xs ! i, None}"
proof -
  have e: "xs = take i xs @ xs ! i # drop (Suc i) xs" "xs[i := None] = take i xs @ None # drop (Suc i) xs"
    using assms(1) by (simp_all add: id_take_nth_drop upd_conv_take_nth_drop)
  have "xs ! i \<notin> set (take i xs) \<union> set (drop (Suc i) xs)"
    using assms(2,3) by (subst (asm) (2) e(1)) auto
  moreover have "set xs = insert (xs ! i) (set (take i xs) \<union> set (drop (Suc i) xs))"
    by (subst e(1)) auto
  moreover have "set (xs[i := None]) = insert None (set (take i xs) \<union> set (drop (Suc i) xs))"
    unfolding e(2) by auto
  moreover have "distinct (filter (\<lambda>d. d \<noteq> None) (xs[i := None]))"
    using assms(2,3) unfolding e(2) by (subst (asm) (2) e(1)) auto
  ultimately show ?thesis using assms(2) by auto
qed

lemma store_ok_delete:
  assumes "store_ok F l st w" "i < length st" "st ! i = Some c"
    "open_from F w' = open_from F w - {cl_sd c}" "used_from only_open l F w'"
  shows "store_ok F l (st[i := None]) w'"
proof -
  have ds: "cell_fds (st[i := None]) = (cell_fds st)[i := None]" "cell_fds st ! i = Some (cl_sd c)"
    "i < length (cell_fds st)" using assms(2,3) by (auto simp: cell_fds_def map_update)
  have f: "distinct (filter (\<lambda>d. d \<noteq> None) ((cell_fds st)[i := None]))"
    "set ((cell_fds st)[i := None]) - {None} = set (cell_fds st) - {Some (cl_sd c), None}"
    using filter_update_None [OF ds(3)] ds(2) assms(1) by (auto simp: store_ok_def)
  have "store_fds (st[i := None]) = store_fds st - {cl_sd c}"
    using f(2) unfolding store_fds_def ds(1) by auto
  moreover have "cl_sd c \<notin> F" using assms(1) ds(2,3) nth_mem [OF ds(3)] by (auto simp: store_ok_def store_fds_def)
  ultimately show ?thesis using assms(1,4,5) f(1) by (auto simp: store_ok_def ds(1))
qed

lemma epoll_gc_wp:
  assumes "distinct as" "\<forall>a \<in> set as. live_at st a" "store_ok F l st w"
  shows "wp (EpollEngine_gc st as) (\<lambda>st' w'. store_ok F l st' w' \<and> (\<forall>a \<in> set as. \<not> live_at st' a) \<and>
      (\<forall>b. \<not> live_at st b \<longrightarrow> \<not> live_at st' b))
    (\<lambda>_ _. False) (used_from only_open l F) w"
  using assms
proof (induction st as arbitrary: w rule: EpollEngine_gc.induct)
  case (1 st)
  then show ?case by simp
next
  case (2 st a as)
  then obtain c where c: "0 \<le> a" "nat a < length st" "st ! nat a = Some c" "client_at st a = returnIO c"
    "cl_sd c \<in> store_fds st" by (auto elim: live_atE)
  show ?case
  proof (cases "script w")
    case Nil
    then show ?thesis using 2(4) by (simp add: c(4) wp_syscall store_ok_def)
  next
    case (Cons r rs)
    let ?w = "after_call w rs (SysClose (cl_sd c), norm_ret (SysClose (cl_sd c)) r)"
    have "cl_sd c \<in> open_from F w" "cl_sd c \<noteq> l" "used_from only_open l F w"
      using c(5) 2(4) by (auto simp: store_ok_def)
    then have ok: "store_ok F l (st[nat a := None]) ?w"
      using c by (intro store_ok_delete [OF 2(4)]) auto
    have dead: "\<not> live_at (st[nat a := None]) b" if "b = a \<or> \<not> live_at st b" for b
      using that c(2) by (cases "nat b = nat a") (auto simp: live_at_def)
    have live: "\<forall>b \<in> set as. live_at (st[nat a := None]) b"
      using 2(2,3) by (auto intro: live_at_delete)
    from 2(1) [OF _ live ok] 2(2) have "wp (EpollEngine_gc (st[nat a := None]) as)
      (\<lambda>st' w'. store_ok F l st' w' \<and> (\<forall>a \<in> set as. \<not> live_at st' a) \<and>
         (\<forall>b. \<not> live_at (st[nat a := None]) b \<longrightarrow> \<not> live_at st' b)) (\<lambda>_ _. False) (used_from only_open l F) ?w"
      by simp
    then show ?thesis
      using Cons dead by (auto simp: c(4) wp_syscall simp del: norm_ret.simps elim!: wp_mono)
  qed
qed

section \<open>A round\<close>

text \<open>
  A round, when \<open>epoll_wait\<close> reports events for the listener and for clients that are
  there, each at most once.
\<close>

lemma epoll_round_wp:
  assumes "store_ok F l st w" and "script w = r # rs" and "events_ok st (event_pairs (marks r))"
  shows "wp (EpollEngine_round oob epfd l st)
    (\<lambda>x w'. fresh_from F w' \<longrightarrow> (case x of Inl st' \<Rightarrow> store_ok F l st' w' | Inr _ \<Rightarrow> False))
    (\<lambda>e w'. fresh_from F w' \<longrightarrow> epoll_error e \<and> used_from only_open l F w')
    (\<lambda>w'. fresh_from F w' \<longrightarrow> used_from only_open l F w') w"
proof -
  let ?c = "SysEpollWait epfd"
  let ?w = "after_call w rs (?c, norm_ret ?c r)"
  have ok: "store_ok F l st ?w" using assms(1) by (intro store_ok_call) auto
  have err: "epoll_error (Throw ''epoll: '')" "used_from only_open l F w"
    using assms(1) by (simp_all add: epoll_error_def store_ok_def)
  have evs: "wp (EpollEngine_events oob epfd l st (event_pairs (marks r)))
      (all_handled F l st (event_pairs (marks r)) ?w)
      (\<lambda>e w'. fresh_from F w' \<longrightarrow> epoll_error e \<and> used_from only_open l F w')
      (\<lambda>w'. fresh_from F w' \<longrightarrow> used_from only_open l F w') ?w"
    by (rule epoll_events_wp [OF assms(3) ok])
  have gc: "wp (EpollEngine_gc st' disc) (\<lambda>st'' w'. fresh_from F w' \<longrightarrow> store_ok F l st'' w')
      (\<lambda>e w'. fresh_from F w' \<longrightarrow> epoll_error e \<and> used_from only_open l F w')
      (\<lambda>w'. fresh_from F w' \<longrightarrow> used_from only_open l F w') w1"
    if h: "all_handled F l st (event_pairs (marks r)) ?w (st', disc) w1" for st' disc w1
  proof (rule wp_guard [OF fresh_from_later shrinks_EpollEngine_gc])
    assume "fresh_from F w1"
    with h have "distinct disc" "\<forall>a \<in> set disc. live_at st' a" "store_ok F l st' w1"
      by (auto simp: all_handled_def)
    from epoll_gc_wp [OF this] show "wp (EpollEngine_gc st' disc) (\<lambda>st'' w'. fresh_from F w' \<longrightarrow> store_ok F l st'' w')
      (\<lambda>e w'. fresh_from F w' \<longrightarrow> epoll_error e \<and> used_from only_open l F w')
      (\<lambda>w'. fresh_from F w' \<longrightarrow> used_from only_open l F w') w1"
      by (elim wp_mono) auto
  qed auto
  have "wp (bindIO (EpollEngine_events oob epfd l st (event_pairs (marks r))) (\<lambda>(st', disconnected).
       bindIO (EpollEngine_gc st' disconnected) (\<lambda>st''. returnIO (Inl st''))))
    (\<lambda>x w'. fresh_from F w' \<longrightarrow> (case x of Inl st' \<Rightarrow> store_ok F l st' w' | Inr _ \<Rightarrow> False))
    (\<lambda>e w'. fresh_from F w' \<longrightarrow> epoll_error e \<and> used_from only_open l F w')
    (\<lambda>w'. fresh_from F w' \<longrightarrow> used_from only_open l F w') ?w"
    unfolding wp_bind
  proof (rule wp_mono [OF evs], goal_cases)
    case (1 x w1)
    then show ?case using gc [of "fst x" "snd x" w1] by (cases x) auto
  qed auto
  with assms(2) ok err show ?thesis
    by (auto simp: EpollEngine_round_def wp_syscall simp del: norm_ret.simps)
qed

end
