(* ===== verification/Conversation.thy ===== *)
theory Conversation
  imports Epoll_Engine
begin

text \<open>
  What a client of the engines of \<open>net/libtpevent\<close> sees: an abstract conversation, one small
  automaton for each descriptor. A client is \<open>Idle\<close> until it has sent something; from then
  on the engine is \<open>Owing\<close> an answer to these bytes, and may neither read more from the
  client nor write anything but this answer. What it waits for has to fit: with \<open>poll\<close> and
  \<open>epoll_ctl\<close> it asks for an idle client to become readable and for one that is owed an answer to
  become writable, and with \<open>select\<close>, for which it asks for readable ones only, it may not wait while
  it owes an answer. A trace in which an engine does anything else is \<open>Broken\<close>. The automaton is the specification; the engines' client records, whose state is
  \<open>WANT_READ\<close> or \<open>WANT_WRITE\<close>, and the engine without such a state refine it.

  The answer is what the engine offers to \<open>write\<close>: none of the engines looks at the number
  of bytes that were taken.
\<close>

section \<open>The abstract conversation\<close>

datatype talk = Idle | Owing string | Broken

fun talk_step :: "(string \<Rightarrow> string \<Rightarrow> bool) \<Rightarrow> int \<Rightarrow> talk \<Rightarrow> sys_call \<times> sys_ret \<Rightarrow> talk" where
  "talk_step ans fd t (SysRead f n, r) =
     (if f \<noteq> fd then t
      else case t of Idle \<Rightarrow> if 0 < rc r then Owing (payload r) else Idle | _ \<Rightarrow> Broken)"
| "talk_step ans fd t (SysWrite f s, r) =
     (if f \<noteq> fd then t
      else case t of Owing bs \<Rightarrow> if ans bs s then Idle else Broken | _ \<Rightarrow> Broken)"
| "talk_step ans fd t (SysAccept l, r) = (if rc r = fd \<and> t \<noteq> Broken then Idle else t)"
| "talk_step ans fd t (SysClose f, r) = (if f = fd \<and> t \<noteq> Broken then Idle else t)"
| "talk_step ans fd t (SysSelect rd wr, r) = (case t of Owing bs \<Rightarrow> Broken | _ \<Rightarrow> t)"
| "talk_step ans fd t (SysPoll ps, r) =
     (case t of
        Idle \<Rightarrow> if (fd, POLLOUT) \<in> set ps then Broken else Idle
      | Owing bs \<Rightarrow> if (fd, POLLIN) \<in> set ps then Broken else Owing bs
      | Broken \<Rightarrow> Broken)"
| "talk_step ans fd t (SysEpollMod ep f ev, r) =
     (if f \<noteq> fd then t
      else case t of
        Idle \<Rightarrow> if ev = EPOLLIN then Idle else Broken
      | Owing bs \<Rightarrow> if ev = EPOLLOUT then Owing bs else Broken
      | Broken \<Rightarrow> Broken)"
| "talk_step ans fd t e = t"

text \<open>The state of the conversation on a descriptor after a trace.\<close>

definition talk_of :: "(string \<Rightarrow> string \<Rightarrow> bool) \<Rightarrow> int \<Rightarrow> world \<Rightarrow> talk" where
  "talk_of ans fd w = foldl (talk_step ans fd) Idle (trace w)"

definition talks_kept :: "(string \<Rightarrow> string \<Rightarrow> bool) \<Rightarrow> world \<Rightarrow> bool" where
  "talks_kept ans w \<longleftrightarrow> (\<forall>fd. talk_of ans fd w \<noteq> Broken)"

text \<open>The abstraction of a client record.\<close>

definition client_talks :: "(string \<Rightarrow> string \<Rightarrow> bool) \<Rightarrow> world \<Rightarrow> client \<Rightarrow> bool" where
  "client_talks ans w c \<longleftrightarrow>
     (case cl_state c of
        WANT_READ \<Rightarrow> talk_of ans (cl_sd c) w = Idle
      | WANT_WRITE \<Rightarrow> \<exists>bs. bs \<noteq> [] \<and> talk_of ans (cl_sd c) w = Owing bs)"

lemma talk_of_start [simp]: "talk_of ans fd \<lparr>script = rs, trace = []\<rparr> = Idle"
  by (simp add: talk_of_def)

lemma talk_of_snoc [simp]: "talk_of ans fd (after_call w rs e) = talk_step ans fd (talk_of ans fd w) e"
  by (simp add: talk_of_def)

lemma talks_call:
  assumes "\<And>fd. talk_step ans fd (talk_of ans fd w) e = talk_of ans fd w"
  shows "client_talks ans (after_call w rs e) = client_talks ans w"
    "talks_kept ans (after_call w rs e) = talks_kept ans w"
    "talk_of ans fd (after_call w rs e) = talk_of ans fd w"
  using assms by (auto simp: client_talks_def talks_kept_def fun_eq_iff split: client_state_t.splits)

lemma client_talks_not_Broken: "client_talks ans w c \<Longrightarrow> talk_of ans (cl_sd c) w \<noteq> Broken"
  by (auto simp: client_talks_def split: client_state_t.splits)

lemma client_talks_iff:
  "client_talks ans w c \<longleftrightarrow>
     (cl_state c = WANT_READ \<longleftrightarrow> talk_of ans (cl_sd c) w = Idle) \<and>
     (cl_state c = WANT_WRITE \<longleftrightarrow> (\<exists>bs. bs \<noteq> [] \<and> talk_of ans (cl_sd c) w = Owing bs))"
  by (cases "cl_state c") (auto simp: client_talks_def)

lemma client_talks_Client [simp]: "client_talks ans w (Client fd) \<longleftrightarrow> talk_of ans fd w = Idle"
  by (simp add: client_talks_def)

text \<open>
  The contract of the code that attends to one client: it changes no other conversation,
  does not break this one, and the client afterwards is again in the state of its
  conversation.
\<close>

definition attends ::
  "(string \<Rightarrow> string \<Rightarrow> bool) \<Rightarrow> client \<Rightarrow> ('a \<Rightarrow> client) \<Rightarrow> 'a io \<Rightarrow> bool" where
  "attends ans c result m \<longleftrightarrow> (\<forall>w. client_talks ans w c \<longrightarrow>
     (let kept = (\<lambda>w'. talk_of ans (cl_sd c) w' \<noteq> Broken \<and>
        (\<forall>fd. fd \<noteq> cl_sd c \<longrightarrow> talk_of ans fd w' = talk_of ans fd w))
      in wp m (\<lambda>x w'. kept w' \<and>
           cl_sd (result x) = cl_sd c \<and> client_talks ans w' (result x))
         (\<lambda>_ w'. kept w') kept w))"

lemma attendsD:
  assumes "attends ans c result m" "client_talks ans w c" "talks_kept ans w"
  shows "wp m
    (\<lambda>x w'. talks_kept ans w' \<and> (\<forall>fd. fd \<noteq> cl_sd c \<longrightarrow> talk_of ans fd w' = talk_of ans fd w) \<and>
       cl_sd (result x) = cl_sd c \<and> client_talks ans w' (result x))
    (\<lambda>_ w'. talks_kept ans w') (\<lambda>w'. talks_kept ans w') w"
proof -
  have "talks_kept ans w'" if "talk_of ans (cl_sd c) w' \<noteq> Broken"
    "\<forall>fd. fd \<noteq> cl_sd c \<longrightarrow> talk_of ans fd w' = talk_of ans fd w" for w'
    using that assms(3) unfolding talks_kept_def by metis
  then show ?thesis
    using assms(1,2) unfolding attends_def Let_def by (auto elim!: wp_mono)
qed

lemma client_talks_other:
  "cl_sd d \<noteq> cl_sd c \<Longrightarrow> (\<forall>fd. fd \<noteq> cl_sd c \<longrightarrow> talk_of ans fd w' = talk_of ans fd w) \<Longrightarrow>
   client_talks ans w' d = client_talks ans w d"
  by (simp add: client_talks_def split: client_state_t.split)

section \<open>The answers\<close>

text \<open>
  \<open>SelectEngine\<close> answers with the text before the first zero byte, without the trailing CR
  and LF; the other two engines answer everything with the same greeting.
\<close>

definition answers_echo :: "char option \<Rightarrow> string \<Rightarrow> string \<Rightarrow> bool" where
  "answers_echo oob bs s \<longleftrightarrow>
     (case strip_crlf oob (takeWhile (\<lambda>c. c \<noteq> CHR 0x00) bs) of
        Inl e \<Rightarrow> False
      | Inr line \<Rightarrow> s = ''echo: '' @ line @ lf)"

definition answers_hello :: "string \<Rightarrow> string \<Rightarrow> bool" where
  "answers_hello bs s \<longleftrightarrow> s = hello_from_server"

section \<open>The select engine\<close>

text \<open>Between its steps this engine owes no answer at all.\<close>

definition all_idle :: "(string \<Rightarrow> string \<Rightarrow> bool) \<Rightarrow> world \<Rightarrow> bool" where
  "all_idle ans w \<longleftrightarrow> (\<forall>fd. talk_of ans fd w = Idle)"

lemma all_idle_kept: "all_idle ans w \<Longrightarrow> talks_kept ans w"
  by (simp add: all_idle_def talks_kept_def)

lemma all_idle_call:
  "all_idle ans w \<Longrightarrow> (\<And>fd. talk_step ans fd Idle e = Idle) \<Longrightarrow> all_idle ans (after_call w rs e)"
  by (simp add: all_idle_def)

lemma select_read_talk:
  assumes "all_idle (answers_echo oob) w"
  shows "wp (SelectEngine_read oob fd) (\<lambda>_. all_idle (answers_echo oob))
    (\<lambda>_. talks_kept (answers_echo oob)) (talks_kept (answers_echo oob)) w"
  using assms
  by (auto simp: SelectEngine_read_def wp_syscall terminated_buf_def all_idle_def talks_kept_def answers_echo_def
      count_ret_def split: list.splits sum.splits)

lemma select_scan_talk:
  assumes "all_idle (answers_echo oob) w"
  shows "wp (SelectEngine_scan oob l ready cs disc) (\<lambda>_. all_idle (answers_echo oob))
    (\<lambda>_. talks_kept (answers_echo oob)) (talks_kept (answers_echo oob)) w"
  using assms
proof (induction oob l ready cs disc arbitrary: w rule: SelectEngine_scan.induct)
  case (2 oob listener ready c cs disconnected)
  have "all_idle (answers_echo oob) w \<Longrightarrow> wp (syscall (SysAccept listener)) (\<lambda>_. all_idle (answers_echo oob))
    (\<lambda>_. talks_kept (answers_echo oob)) (talks_kept (answers_echo oob)) w"
    by (auto simp: wp_syscall all_idle_kept intro!: all_idle_call split: list.splits)
  then show ?case
    using 2 by (auto elim!: wp_mono intro!: wp_mono [OF select_read_talk])
qed simp

lemma select_remove_talk:
  assumes "all_idle ans w"
  shows "wp (SelectEngine_remove fds cs) (\<lambda>_. all_idle ans) (\<lambda>_. talks_kept ans) (talks_kept ans) w"
  using assms
  by (induction fds cs arbitrary: w rule: SelectEngine_remove.induct)
    (auto simp: wp_syscall all_idle_kept all_idle_call split: list.splits sum.splits)

lemma select_round_talk:
  assumes "all_idle (answers_echo oob) w"
  shows "wp (SelectEngine_round oob l cs)
    (\<lambda>r w'. case r of Inl cs' \<Rightarrow> all_idle (answers_echo oob) w' | Inr _ \<Rightarrow> False)
    (\<lambda>_. talks_kept (answers_echo oob)) (talks_kept (answers_echo oob)) w"
proof -
  have served: "wp (SelectEngine_scan oob l ready cs [])
     (\<lambda>(new, disc). wp (SelectEngine_remove disc (cs @ new)) (\<lambda>_. all_idle (answers_echo oob))
        (\<lambda>_. talks_kept (answers_echo oob)) (talks_kept (answers_echo oob)))
     (\<lambda>_. talks_kept (answers_echo oob)) (talks_kept (answers_echo oob)) w1"
    if "all_idle (answers_echo oob) w1" for ready w1
    by (rule wp_mono [OF select_scan_talk [OF that]]) (auto intro: select_remove_talk)
  have idle: "all_idle (answers_echo oob) (after_call w rs (SysSelect rd wr, r))" for rs rd wr r
    using assms by (rule all_idle_call) simp
  show ?thesis
    using assms idle
    by (auto simp: SelectEngine_round_def wp_syscall all_idle_kept split: list.splits simp del: norm_ret.simps
        elim!: wp_mono intro!: wp_mono [OF served [OF idle]])
qed

section \<open>The epoll engine\<close>

text \<open>
  What the kernel knows: the clients in the order in which they were registered, and which of
  them are closed since. Its promise is that \<open>epoll_create\<close> gives a descriptor and that the events of a
  wait are for the listener or for registered clients that are not closed, each at most once.
\<close>

fun reg_step :: "int \<Rightarrow> int option list \<Rightarrow> sys_call \<times> sys_ret \<Rightarrow> int option list" where
  "reg_step l cells (SysEpollAdd ep fd, r) = (if fd = l then cells else cells @ [Some fd])"
| "reg_step l cells (SysClose fd, r) = map (\<lambda>d. if d = Some fd then None else d) cells"
| "reg_step l cells e = cells"

definition reg_of :: "int \<Rightarrow> world \<Rightarrow> int option list" where
  "reg_of l w = foldl (reg_step l) [] (trace w)"

definition wait_ok :: "int option list \<Rightarrow> (int \<times> int) list \<Rightarrow> bool" where
  "wait_ok cells es \<longleftrightarrow>
     (\<forall>e \<in> set es. fst e = - 1 \<or> 0 \<le> fst e \<and> nat (fst e) < length cells \<and> cells ! nat (fst e) \<noteq> None) \<and>
     distinct (filter (\<lambda>a. a \<noteq> - 1) (map fst es))"

fun epoll_promise :: "int \<Rightarrow> int option list \<Rightarrow> (sys_call \<times> sys_ret) list \<Rightarrow> bool" where
  "epoll_promise l cells [] \<longleftrightarrow> True"
| "epoll_promise l cells (e # tr) \<longleftrightarrow>
     (case e of
        (SysEpollWait ep, r) \<Rightarrow> wait_ok cells (event_pairs (marks r))
      | (SysEpollCreate, r) \<Rightarrow> 0 \<le> rc r \<and> rc r \<noteq> l
      | _ \<Rightarrow> True) \<and> epoll_promise l (reg_step l cells e) tr"

definition promised :: "int \<Rightarrow> world \<Rightarrow> bool" where
  "promised l w \<longleftrightarrow> epoll_promise l [] (trace w)"

lemma epoll_promise_append:
  "epoll_promise l cells (tr @ tr') \<longleftrightarrow>
     epoll_promise l cells tr \<and> epoll_promise l (foldl (reg_step l) cells tr) tr'"
  by (induction tr arbitrary: cells) auto

lemma promised_later: "later w w' \<Longrightarrow> promised l w' \<Longrightarrow> promised l w"
  by (auto simp: later_def promised_def epoll_promise_append)

lemma reg_of_snoc [simp]: "reg_of l (after_call w rs e) = reg_step l (reg_of l w) e"
  by (simp add: reg_of_def)

lemma wait_ok_events: "wait_ok (cell_fds st) es \<longleftrightarrow> events_ok st es"
proof -
  have "live_at st a \<longleftrightarrow> 0 \<le> a \<and> nat a < length (cell_fds st) \<and> cell_fds st ! nat a \<noteq> None" for a
    by (auto simp: live_at_def cell_fds_def)
  then show ?thesis by (simp add: wait_ok_def events_ok_def)
qed

text \<open>What is true of the store between two events, beside \<open>store_ok\<close>.\<close>

definition epoll_talks :: "int \<Rightarrow> client_store \<Rightarrow> world \<Rightarrow> bool" where
  "epoll_talks l st w \<longleftrightarrow> cell_fds st = reg_of l w \<and> talks_kept answers_hello w \<and>
     (\<forall>c. Some c \<in> set st \<longrightarrow> client_talks answers_hello w c)"

text \<open>A handler that attends to the client of one cell.\<close>

definition cell_attended :: "client_store \<Rightarrow> int \<Rightarrow> client_store \<times> bool \<Rightarrow> client" where
  "cell_attended st a = (\<lambda>(st', gone). the (st' ! nat a))"

lemma epoll_in_attends:
  assumes "client_at st a = returnIO c" "0 \<le> a" "nat a < length st" "st ! nat a = Some c"
  shows "attends answers_hello c (cell_attended st a) (EpollEngine_in oob epfd st a)"
  using assms(2-)
  by (auto simp: attends_def EpollEngine_in_def set_desire_events_def assms(1) wp_syscall terminated_buf_def
      client_talks_def answers_hello_def count_ret_def cell_attended_def split: list.splits sum.splits client_state_t.splits)

lemma epoll_out_attends:
  assumes "client_at st a = returnIO c" "0 \<le> a" "nat a < length st" "st ! nat a = Some c"
  shows "attends answers_hello c (cell_attended st a) (EpollEngine_out epfd st a)"
  using assms(2-)
  by (auto simp: attends_def EpollEngine_out_def set_desire_events_def assms(1) wp_syscall 
      client_talks_def answers_hello_def cell_attended_def split: list.splits sum.splits client_state_t.splits)

text \<open>Both handlers change nothing but the client of their cell, and register or close nothing.\<close>

definition cell_only :: "int \<Rightarrow> client_store \<Rightarrow> int \<Rightarrow> world \<Rightarrow> client_store \<times> bool \<Rightarrow> world \<Rightarrow> bool" where
  "cell_only l st a w = (\<lambda>(st', gone) w'. reg_of l w' = reg_of l w \<and> (\<exists>c. st' = st[nat a := Some c]))"

lemma epoll_cell_only:
  assumes "client_at st a = returnIO c" "nat a < length st" "st ! nat a = Some c"
  shows "wp (EpollEngine_in oob epfd st a) (cell_only l st a w) (\<lambda>_ _. True) (\<lambda>_. True) w"
    and "wp (EpollEngine_out epfd st a) (cell_only l st a w) (\<lambda>_ _. True) (\<lambda>_. True) w"
proof -
  have same: "\<exists>c. st = st[nat a := Some c]" using assms(2,3) by (metis list_update_id)
  then show "wp (EpollEngine_in oob epfd st a) (cell_only l st a w) (\<lambda>_ _. True) (\<lambda>_. True) w"
    by (auto simp: EpollEngine_in_def set_desire_events_def assms(1) wp_syscall cell_only_def
        split: list.splits sum.splits)
  show "wp (EpollEngine_out epfd st a) (cell_only l st a w) (\<lambda>_ _. True) (\<lambda>_. True) w"
    using same by (auto simp: EpollEngine_out_def set_desire_events_def assms(1) wp_syscall cell_only_def
        split: list.splits)
qed

lemma distinct_filter_nth:
  assumes "distinct (filter P xs)" "i < length xs" "j < length xs" "xs ! i = xs ! j" "P (xs ! i)"
  shows "i = j"
  using assms
proof (induction xs arbitrary: i j)
  case (Cons x xs)
  then show ?case by (cases i; cases j) (auto split: if_splits)
qed simp

text \<open>So a handler that attends to the client of its cell keeps what is true of the store.\<close>

lemma attended_cell_talks:
  assumes "attends answers_hello c (cell_attended st a) m"
    and "wp m (cell_only l st a w) (\<lambda>_ _. True) (\<lambda>_. True) w"
    and "nat a < length st" "st ! nat a = Some c" "store_ok F l st w" "epoll_talks l st w"
  shows "wp m (\<lambda>(st', gone) w'. epoll_talks l st' w')
    (\<lambda>_. talks_kept answers_hello) (talks_kept answers_hello) w"
proof -
  have c: "client_talks answers_hello w c" "talks_kept answers_hello w"
    using assms(3,4,6) nth_mem [OF assms(3)] by (auto simp: epoll_talks_def)
  have other: "cl_sd d \<noteq> cl_sd c" if "i < length st" "st ! i = Some d" "i \<noteq> nat a" for i d
    using distinct_filter_nth [of "\<lambda>d. d \<noteq> None" "cell_fds st" i "nat a"] assms(3-5) that
    by (auto simp: store_ok_def cell_fds_def)
  show ?thesis
  proof (rule wp_mono [OF wp_conj [OF attendsD [OF assms(1) c] assms(2)]], goal_cases)
    case (1 x w')
    obtain st' gone where x: "x = (st', gone)" by (cases x)
    with 1 obtain c' where st': "st' = st[nat a := Some c']" "reg_of l w' = reg_of l w" by (auto simp: cell_only_def)
    then have c': "the (st' ! nat a) = c'" using assms(3) by simp
    have "client_talks answers_hello w' d" if "Some d \<in> set st'" for d
    proof -
      from that obtain i where i: "i < length st" "st' ! i = Some d" by (auto simp: st' in_set_conv_nth)
      show ?thesis
      proof (cases "i = nat a")
        case True
        with 1 i x st' c' show ?thesis by (simp add: cell_attended_def)
      next
        case False
        with i st' have "st ! i = Some d" by simp
        with other [OF i(1) this False] i(1) 1 assms(6) client_talks_other [of d c answers_hello w' w] show ?thesis
          by (auto simp: epoll_talks_def dest: nth_mem)
      qed
    qed
    moreover have "cell_fds st' = cell_fds st"
      using 1 x c' assms(3,4) unfolding st' by (intro cell_fds_update) (auto simp: cell_attended_def)
    ultimately show ?case using 1 x st'(2) assms(6) by (simp add: epoll_talks_def)
  qed auto
qed

lemma epoll_event_talk:
  assumes "a = - 1 \<or> live_at st a" "store_ok F l st w" "epoll_talks l st w"
  shows "wp (EpollEngine_event oob epfd l st (a, ev))
    (\<lambda>(st', gone) w'. fresh_from F w' \<longrightarrow> epoll_talks l st' w')
    (\<lambda>_. talks_kept answers_hello) (talks_kept answers_hello) w"
proof (cases "a = - 1")
  case True
  have l: "l \<in> open_from F w" using assms(2) by (auto simp: store_ok_def)
  have fds: "cl_sd c \<in> open_from F w" if "Some c \<in> set st" for c
    using assms(2) that by (force simp: store_ok_def store_fds_def cell_fds_def)
  show ?thesis
    using True l fds assms(3)
    by (auto simp: EpollEngine_event_def accept_action_def wp_syscall epoll_talks_def talks_kept_def cell_fds_def
        client_talks_def split: list.splits client_state_t.splits)
next
  case False
  with assms have live: "live_at st a" by simp
  then obtain c where c: "0 \<le> a" "nat a < length st" "st ! nat a = Some c" "client_at st a = returnIO c"
    by (rule live_atE)
  note cell = attended_cell_talks [OF _ _ c(2,3) assms(2,3)]
  have "wp (EpollEngine_in oob epfd st a) (\<lambda>(st', gone) w'. epoll_talks l st' w')
      (\<lambda>_. talks_kept answers_hello) (talks_kept answers_hello) w"
    by (rule cell [OF epoll_in_attends [OF c(4,1-3)] epoll_cell_only(1) [OF c(4,2,3)]])
  moreover have "wp (EpollEngine_out epfd st a) (\<lambda>(st', gone) w'. epoll_talks l st' w')
      (\<lambda>_. talks_kept answers_hello) (talks_kept answers_hello) w"
    by (rule cell [OF epoll_out_attends [OF c(4,1-3)] epoll_cell_only(2) [OF c(4,2,3)]])
  ultimately show ?thesis
    using False assms(3) by (auto simp: EpollEngine_event_def c(4) elim!: wp_mono)
qed

lemma epoll_events_talk:
  assumes "events_ok st es" "store_ok F l st w" "epoll_talks l st w"
  shows "wp (EpollEngine_events oob epfd l st es)
    (\<lambda>(st', disc) w'. fresh_from F w' \<longrightarrow> epoll_talks l st' w')
    (\<lambda>_ w'. fresh_from F w' \<longrightarrow> talks_kept answers_hello w')
    (\<lambda>w'. fresh_from F w' \<longrightarrow> talks_kept answers_hello w') w"
  using assms
proof (induction oob epfd l st es arbitrary: w rule: EpollEngine_events.induct)
  case (2 oob epfd l st e es)
  have e: "fst e = - 1 \<or> live_at st (fst e)" using 2(2) by (simp add: events_ok_def)
  have ev: "wp (EpollEngine_event oob epfd l st e)
      (\<lambda>x w'. handled F l st (fst e) w x w' \<and> (fresh_from F w' \<longrightarrow> epoll_talks l (fst x) w'))
      (\<lambda>_. talks_kept answers_hello) (talks_kept answers_hello) w"
    using wp_conj [OF epoll_event_wp [OF e 2(3), of oob epfd "snd e"] epoll_event_talk [OF e 2(3,4), of oob epfd "snd e"]]
    by (auto elim!: wp_mono)
  have rest: "wp (EpollEngine_events oob epfd l st' es)
      (\<lambda>r w'. fresh_from F w' \<longrightarrow> epoll_talks l (fst r) w')
      (\<lambda>_ w'. fresh_from F w' \<longrightarrow> talks_kept answers_hello w')
      (\<lambda>w'. fresh_from F w' \<longrightarrow> talks_kept answers_hello w') w1"
    if h: "handled F l st (fst e) w (st', gone) w1" "fresh_from F w1 \<longrightarrow> epoll_talks l st' w1" for st' gone w1
  proof (rule wp_guard [OF fresh_from_later shrinks_EpollEngine_events])
    assume fr: "fresh_from F w1"
    with h have st': "store_ok F l st' w1" "\<forall>b. live_at st b \<longrightarrow> live_at st' b" "epoll_talks l st' w1"
      by (auto simp: handled_def)
    have "events_ok st' es" using 2(2) st'(2) by (auto simp: events_ok_def split: if_splits)
    from 2(1) [OF this st'(1,3)] show "wp (EpollEngine_events oob epfd l st' es)
      (\<lambda>r w'. fresh_from F w' \<longrightarrow> epoll_talks l (fst r) w')
      (\<lambda>_ w'. fresh_from F w' \<longrightarrow> talks_kept answers_hello w')
      (\<lambda>w'. fresh_from F w' \<longrightarrow> talks_kept answers_hello w') w1"
      by (auto elim!: wp_mono)
  qed auto
  show ?case
    unfolding EpollEngine_events.simps wp_bind
  proof (rule wp_mono [OF ev], goal_cases)
    case (1 x w1)
    then show ?case using rest [of "fst x" "snd x" w1] by (cases x) (auto elim!: wp_mono)
  qed auto
qed auto

lemma epoll_talks_delete:
  assumes "store_ok F l st w" "epoll_talks l st w" "i < length st" "st ! i = Some c"
  shows "epoll_talks l (st[i := None]) (after_call w rs (SysClose (cl_sd c), r))"
proof -
  have d: "distinct (filter (\<lambda>d. d \<noteq> None) (cell_fds st))" using assms(1) by (simp add: store_ok_def)
  have other: "cl_sd d \<noteq> cl_sd c" if "j < length st" "st ! j = Some d" "j \<noteq> i" for j d
    using distinct_filter_nth [OF d, of j i] that assms(3,4) by (auto simp: cell_fds_def)
  have cells: "cell_fds (st[i := None]) = map (\<lambda>d. if d = Some (cl_sd c) then None else d) (cell_fds st)"
  proof (rule nth_equalityI, simp add: cell_fds_def)
    fix j assume j: "j < length (cell_fds (st[i := None]))"
    show "cell_fds (st[i := None]) ! j = map (\<lambda>d. if d = Some (cl_sd c) then None else d) (cell_fds st) ! j"
      using j assms(3,4) other [of j] by (cases "j = i"; cases "st ! j") (auto simp: cell_fds_def)
  qed
  let ?w = "after_call w rs (SysClose (cl_sd c), r)"
  have "client_talks answers_hello ?w d" if "Some d \<in> set (st[i := None])" for d
  proof -
    from that obtain j where j: "j < length st" "st[i := None] ! j = Some d" by (auto simp: in_set_conv_nth)
    then have "j < length st" "st ! j = Some d" "j \<noteq> i" by (cases "j = i"; simp)+
    with other [of j d] assms(2) nth_mem [of j st] have "cl_sd d \<noteq> cl_sd c" "client_talks answers_hello w d"
      by (auto simp: epoll_talks_def)
    then show ?thesis by (subst client_talks_other [of d c]) auto
  qed
  with assms(2) cells show ?thesis by (simp add: epoll_talks_def talks_kept_def)
qed

lemma epoll_gc_talk:
  assumes "distinct as" "\<forall>a \<in> set as. live_at st a" "store_ok F l st w" "epoll_talks l st w"
  shows "wp (EpollEngine_gc st as) (\<lambda>st' w'. epoll_talks l st' w')
    (\<lambda>_. talks_kept answers_hello) (talks_kept answers_hello) w"
  using assms
proof (induction st as arbitrary: w rule: EpollEngine_gc.induct)
  case (2 st a as)
  then obtain c where c: "0 \<le> a" "nat a < length st" "st ! nat a = Some c" "client_at st a = returnIO c"
    "cl_sd c \<in> store_fds st" by (auto elim: live_atE)
  show ?case
  proof (cases "script w")
    case Nil
    then show ?thesis using 2(5) by (simp add: c(4) wp_syscall epoll_talks_def)
  next
    case (Cons r rs)
    let ?w = "after_call w rs (SysClose (cl_sd c), norm_ret (SysClose (cl_sd c)) r)"
    have "cl_sd c \<in> open_from F w" "cl_sd c \<noteq> l" "used_from only_open l F w"
      using c(5) 2(4) by (auto simp: store_ok_def)
    then have ok: "store_ok F l (st[nat a := None]) ?w"
      using c by (intro store_ok_delete [OF 2(4)]) auto
    have live: "\<forall>b \<in> set as. live_at (st[nat a := None]) b"
      using 2(2,3) by (auto intro: live_at_delete)
    from 2(1) [OF _ live ok epoll_talks_delete [OF 2(4,5) c(2,3)]] 2(2) Cons show ?thesis
      by (simp add: c(4) wp_syscall del: norm_ret.simps)
  qed
qed (simp add: epoll_talks_def)

text \<open>The guard of the whole run, and the invariant of its loop.\<close>

definition epoll_kernel :: "int \<Rightarrow> int set \<Rightarrow> world \<Rightarrow> bool" where
  "epoll_kernel l F w \<longleftrightarrow> fresh_from F w \<and> promised l w"

lemma epoll_kernel_later: "later w w' \<Longrightarrow> epoll_kernel l F w' \<Longrightarrow> epoll_kernel l F w"
  by (auto simp: epoll_kernel_def dest: fresh_from_later promised_later)

lemma epoll_round_talk:
  assumes "store_ok F l st w" "epoll_talks l st w" "script w = r # rs" "events_ok st (event_pairs (marks r))"
  shows "wp (EpollEngine_round oob epfd l st)
    (\<lambda>x w'. fresh_from F w' \<longrightarrow> (case x of Inl st' \<Rightarrow> epoll_talks l st' w' | Inr _ \<Rightarrow> False))
    (\<lambda>_ w'. fresh_from F w' \<longrightarrow> talks_kept answers_hello w')
    (\<lambda>w'. fresh_from F w' \<longrightarrow> talks_kept answers_hello w') w"
proof -
  let ?es = "event_pairs (marks r)" and ?c = "SysEpollWait epfd"
  let ?w = "after_call w rs (?c, norm_ret ?c r)"
  have ok: "store_ok F l st ?w" "epoll_talks l st ?w" "talks_kept answers_hello ?w"
    using assms(1,2) by (auto intro!: store_ok_call simp: epoll_talks_def talks_kept_def client_talks_def
        split: client_state_t.splits)
  have gc: "wp (EpollEngine_gc st' disc) (\<lambda>st'' w'. fresh_from F w' \<longrightarrow> epoll_talks l st'' w')
      (\<lambda>_ w'. fresh_from F w' \<longrightarrow> talks_kept answers_hello w')
      (\<lambda>w'. fresh_from F w' \<longrightarrow> talks_kept answers_hello w') w1"
    if h: "all_handled F l st ?es ?w (st', disc) w1" "fresh_from F w1 \<longrightarrow> epoll_talks l st' w1" for st' disc w1
  proof (rule wp_guard [OF fresh_from_later shrinks_EpollEngine_gc])
    assume "fresh_from F w1"
    with h have "distinct disc" "\<forall>a \<in> set disc. live_at st' a" "store_ok F l st' w1" "epoll_talks l st' w1"
      by (auto simp: all_handled_def)
    from epoll_gc_talk [OF this] show "wp (EpollEngine_gc st' disc)
      (\<lambda>st'' w'. fresh_from F w' \<longrightarrow> epoll_talks l st'' w')
      (\<lambda>_ w'. fresh_from F w' \<longrightarrow> talks_kept answers_hello w')
      (\<lambda>w'. fresh_from F w' \<longrightarrow> talks_kept answers_hello w') w1"
      by (elim wp_mono) auto
  qed auto
  have "wp (EpollEngine_events oob epfd l st ?es)
    (\<lambda>x. wp (EpollEngine_gc (fst x) (snd x)) (\<lambda>st'' w'. fresh_from F w' \<longrightarrow> epoll_talks l st'' w')
      (\<lambda>_ w'. fresh_from F w' \<longrightarrow> talks_kept answers_hello w')
      (\<lambda>w'. fresh_from F w' \<longrightarrow> talks_kept answers_hello w'))
    (\<lambda>_ w'. fresh_from F w' \<longrightarrow> talks_kept answers_hello w')
    (\<lambda>w'. fresh_from F w' \<longrightarrow> talks_kept answers_hello w') ?w"
    by (rule wp_mono [OF wp_conj [OF epoll_events_wp [OF assms(4) ok(1)] epoll_events_talk [OF assms(4) ok(1,2)]]])
      (auto intro: gc)
  with assms(3) ok show ?thesis
    by (auto simp: EpollEngine_round_def wp_syscall split_beta simp del: norm_ret.simps elim!: wp_mono)
qed

definition epoll_loop_inv :: "int \<Rightarrow> int set \<Rightarrow> client_store \<Rightarrow> world \<Rightarrow> bool" where
  "epoll_loop_inv l F st w \<longleftrightarrow> store_ok F l st w \<and> epoll_talks l st w"

definition epoll_safe :: "int \<Rightarrow> int set \<Rightarrow> world \<Rightarrow> bool" where
  "epoll_safe l F w \<longleftrightarrow> used_from only_open l F w \<and> talks_kept answers_hello w"

lemma epoll_round_kept:
  assumes "epoll_kernel l F w" "epoll_loop_inv l F st w"
  shows "wp (EpollEngine_round oob epfd l st)
    (\<lambda>x w'. epoll_kernel l F w' \<longrightarrow> (case x of Inl st' \<Rightarrow> epoll_loop_inv l F st' w' | Inr _ \<Rightarrow> False))
    (\<lambda>e w'. epoll_kernel l F w' \<longrightarrow> epoll_error e \<and> epoll_safe l F w')
    (\<lambda>w'. epoll_kernel l F w' \<longrightarrow> epoll_safe l F w') w"
proof (cases "script w")
  case Nil
  with assms(2) show ?thesis
    by (simp add: EpollEngine_round_def wp_syscall epoll_loop_inv_def epoll_safe_def store_ok_def epoll_talks_def)
next
  case (Cons r rs)
  let ?c = "SysEpollWait epfd"
  let ?w = "after_call w rs (?c, norm_ret ?c r)"
  have inv: "store_ok F l st w" "epoll_talks l st w" using assms(2) by (simp_all add: epoll_loop_inv_def)
  show ?thesis
    unfolding EpollEngine_round_def
  proof (rule wp_guard_call [where G = "epoll_kernel l F", OF epoll_kernel_later _ Cons], goal_cases)
    case 4
    then have "wait_ok (reg_of l w) (event_pairs (marks r))"
      by (simp add: epoll_kernel_def promised_def epoll_promise_append reg_of_def del: norm_ret.simps)
    then have ev: "events_ok st (event_pairs (marks r))" using inv(2) by (simp add: epoll_talks_def flip: wait_ok_events)
    show ?case
      unfolding EpollEngine_round_def [symmetric]
      by (rule wp_mono [OF wp_conj [OF epoll_round_wp [OF inv(1) Cons ev] epoll_round_talk [OF inv Cons ev]]])
        (auto simp: epoll_kernel_def epoll_loop_inv_def epoll_safe_def split: sum.splits)
  qed (auto intro!: shrinks_intros)
qed

lemma epoll_from_create:
  assumes "trace w = (SysEpollCreate, r) # tr" "0 \<le> rc r"
  shows "fresh_from {l} w = fresh_from {l, rc r} w" "used_from p l {l} w = used_from p l {l, rc r} w"
  using assms by (auto simp: fresh_from_def used_from_def insert_commute)

lemma epoll_registered_run:
  fixes r r' :: sys_ret and rs :: "sys_ret list" and l :: int
  defines "w \<equiv> \<lparr>script = rs, trace = [(SysEpollCreate, r), (SysEpollAdd (rc r) l, r')]\<rparr>"
  assumes "0 \<le> rc r" "rc r \<noteq> l"
  shows "wp (loop_io (EpollEngine_round oob (rc r) l) [])
    (\<lambda>_ w. epoll_kernel l {l} w \<longrightarrow> False)
    (\<lambda>e w. epoll_kernel l {l} w \<longrightarrow> epoll_error e \<and> epoll_safe l {l} w)
    (\<lambda>w. epoll_kernel l {l} w \<longrightarrow> epoll_safe l {l} w) w"
proof -
  let ?F = "{l, rc r}"
  have inv: "epoll_loop_inv l ?F [] w"
    using assms(2,3) by (auto simp: epoll_loop_inv_def store_ok_def epoll_talks_def store_fds_def cell_fds_def w_def
        reg_of_def open_from_def used_from_def talks_kept_def talk_of_def)
  have same: "epoll_kernel l {l} w' = epoll_kernel l ?F w'" "epoll_safe l {l} w' = epoll_safe l ?F w'" if "later w w'" for w'
    using that assms(2) by (auto simp: later_def w_def epoll_kernel_def epoll_safe_def epoll_from_create)
  have "wp (loop_io (EpollEngine_round oob (rc r) l) [])
    (\<lambda>_ w'. epoll_kernel l ?F w' \<longrightarrow> False)
    (\<lambda>e w'. epoll_kernel l ?F w' \<longrightarrow> epoll_error e \<and> epoll_safe l ?F w')
    (\<lambda>w'. epoll_kernel l ?F w' \<longrightarrow> epoll_safe l ?F w') w"
    by (rule epoll_loop.loop_wp_guard [where I = "epoll_loop_inv l ?F", OF epoll_kernel_later])
      (use inv epoll_round_kept in auto)
  from wp_conj [OF this shrinksD [OF epoll_loop.loop_shrinks later_refl]] show ?thesis
    by (rule wp_mono) (auto simp: same)
qed

section \<open>Properties\<close>

text \<open>
  C10: on every behaviour of the kernel, each client of \<open>SelectEngine\<close> has a conversation of
  messages and answers: nothing is read from a client before its last message is answered, what is
  written is the text of that message behind \<open>echo:\<close>, nothing is written that is not an
  answer, and the engine never waits with a message unanswered. The loop never ends normally.
\<close>

theorem SelectEngine_conversation:
  "wp (SelectEngine_run oob l) (\<lambda>_ _. False)
    (\<lambda>_. talks_kept (answers_echo oob)) (talks_kept (answers_echo oob)) \<lparr>script = rs, trace = []\<rparr>"
  unfolding SelectEngine_run_def SelectEngine_manageConnections_def
  by (rule select_loop.loop_wp [where I = "\<lambda>_. all_idle (answers_echo oob)"])
    (auto simp: all_idle_def intro!: wp_mono [OF select_round_talk] split: sum.splits)

text \<open>
  C13: a whole run of \<open>EpollEngine\<close>, on every kernel that keeps its promises: \<open>epoll_create\<close>
  succeeds, \<open>accept\<close> gives new descriptors, \<open>epoll_wait\<close> reports the listener and registered
  clients that are not closed, each at most once. Then no deleted client is ever
  used or deleted again (the run ends, if it does, in one of the errors of a round), only open
  client descriptors are read, written and closed, and every client has its conversation:
  each message is answered by one greeting before the next is read, and \<open>epoll_ctl\<close> asks for the
  event that fits.
\<close>

theorem EpollEngine_conversation:
  "wp (EpollEngine_run oob l)
    (\<lambda>_ w. epoll_kernel l {l} w \<longrightarrow> False)
    (\<lambda>e w. epoll_kernel l {l} w \<longrightarrow> epoll_error e \<and> epoll_safe l {l} w)
    (\<lambda>w. epoll_kernel l {l} w \<longrightarrow> epoll_safe l {l} w) \<lparr>script = rs, trace = []\<rparr>"
proof (cases rs)
  case Nil
  then show ?thesis
    by (simp add: EpollEngine_run_def EpollEngine_eventLoop_def wp_syscall epoll_safe_def talks_kept_def)
next
  case (Cons r rs')
  then have script: "script \<lparr>script = rs, trace = []\<rparr> = r # rs'" by simp
  show ?thesis
    unfolding EpollEngine_run_def EpollEngine_eventLoop_def
  proof (rule wp_guard_call [where G = "epoll_kernel l {l}", OF epoll_kernel_later _ script], goal_cases)
    case 4
    then have "0 \<le> rc r" "rc r \<noteq> l" by (auto simp: epoll_kernel_def promised_def)
    with Cons epoll_registered_run [of r l] show ?case
      by (cases rs') (auto simp: wp_syscall epoll_safe_def talks_kept_def used_from_def talk_of_def)
  qed (auto intro!: shrinks_intros epoll_loop.loop_shrinks)
qed

theorem EpollEngine_conversation_witness:
  "\<exists>w. run (EpollEngine_run None 3)
       [ret 4, ret 0, (ret 1)\<lparr>marks := [- 1, EPOLLIN]\<rparr>, ret 5, ret 0, (ret 1)\<lparr>marks := [0, EPOLLIN]\<rparr>,
        ret_data ''hi'', ret 0, (ret 1)\<lparr>marks := [0, EPOLLOUT]\<rparr>, ret 20, ret 0] = (Blocked, w) \<and>
     epoll_kernel 3 {3} w \<and> epoll_safe 3 {3} w \<and> sent_bytes 5 (trace w) = hello_from_server"
proof -
  let ?rs = "[ret 4, ret 0, (ret 1)\<lparr>marks := [- 1, EPOLLIN]\<rparr>, ret 5, ret 0, (ret 1)\<lparr>marks := [0, EPOLLIN]\<rparr>,
        ret_data ''hi'', ret 0, (ret 1)\<lparr>marks := [0, EPOLLOUT]\<rparr>, ret 20, ret 0]"
  obtain w where w: "run (EpollEngine_run None 3) ?rs = (Blocked, w)" "epoll_kernel 3 {3} w"
    "sent_bytes 5 (trace w) = hello_from_server"
    by (simp add: run_def EpollEngine_run_def EpollEngine_eventLoop_def loop_io_def EpollEngine_round_def
      bindIO_def syscall_Cons syscall_Nil returnIO_def EpollEngine_event_def EpollEngine_in_def EpollEngine_out_def
      accept_action_def client_at_def set_desire_events_def has_bit_def liftE_def
      terminated_buf_def strip_crlf.simps is_crlf_def ret_def ret_data_def count_ret_def Client_def
      epoll_kernel_def fresh_from_def promised_def wait_ok_def hello_from_server_def)
  from EpollEngine_conversation [of None 3 ?rs] have "epoll_safe 3 {3} w"
    using w(1,2) by (simp add: wp_def run_def)
  with w show ?thesis by blast
qed

end
