(* ===== verification/Poll_Conversation.thy ===== *)
theory Poll_Conversation
  imports Conversation
begin

text \<open>
  The two threads of \<open>PollEngine\<close>, under every interleaving of their steps and on every kernel
  whose \<open>accept\<close> gives new descriptors, until the race on \<open>m_Clients\<close>: the invariant of the
  reachable states, the use of descriptors and the conversations of \<open>Conversation\<close>; and what happens in the race.
\<close>

section \<open>Clients that are being served\<close>

text \<open>
  The clients whose descriptors are in use: they are distinct, open, not the listener, and each is
  in the state of its conversation.
\<close>

definition poll_safe :: "int \<Rightarrow> world \<Rightarrow> bool" where
  "poll_safe l w \<longleftrightarrow> used_from only_open l {l} w \<and> talks_kept answers_hello w"

definition serving :: "int \<Rightarrow> client list \<Rightarrow> world \<Rightarrow> bool" where
  "serving l cs w \<longleftrightarrow>
     distinct (map cl_sd cs) \<and> cl_sd ` set cs \<subseteq> open_from {l} w - {l} \<and> l \<in> open_from {l} w \<and>
     talk_of answers_hello l w = Idle \<and> (\<forall>c \<in> set cs. client_talks answers_hello w c) \<and> poll_safe l w"

lemma serving_safe: "serving l cs w \<Longrightarrow> poll_safe l w"
  by (simp add: serving_def)

lemma serving_call:
  assumes "serving l cs w" "\<And>fd. talk_step answers_hello fd (talk_of answers_hello fd w) e = talk_of answers_hello fd w"
    and "fd_step (open_from {l} w) e = open_from {l} w" "use_ok only_open l (open_from {l} w) e"
  shows "serving l cs (after_call w rs e)"
  using assms(1,3,4) by (simp add: serving_def poll_safe_def talks_call [OF assms(2)] del: talk_of_snoc)

lemma poll_listener_fits:
  "talk_of ans l w = Idle \<Longrightarrow>
   talk_step ans fd (talk_of ans fd w) (SysPoll [(l, POLLIN)], r) = talk_of ans fd w"
  by (cases "talk_of ans fd w") auto

lemma serving_poll_listener: "serving l cs w \<Longrightarrow> serving l cs (after_call w rs (SysPoll [(l, POLLIN)], r))"
  by (rule serving_call) (auto simp: serving_def poll_listener_fits only_open_def simp del: talk_step.simps)

lemma poll_interest_fits:
  assumes "\<forall>c \<in> set cs. client_talks ans w c"
  shows "talk_step ans fd (talk_of ans fd w) (SysPoll (map (\<lambda>c. (fe_fd (entry_of c), fe_events (entry_of c))) cs), r) =
    talk_of ans fd w"
proof -
  have "\<exists>bs. talk_of ans (cl_sd c) w = Owing bs" if "c \<in> set cs" "cl_state c \<noteq> WANT_READ" for c
    using bspec [OF assms that(1)] that(2) by (cases "cl_state c") (auto simp: client_talks_def)
  moreover have "talk_of ans (cl_sd c) w = Idle" if "c \<in> set cs" "cl_state c = WANT_READ" for c
    using bspec [OF assms that(1)] that(2) by (simp add: client_talks_def)
  ultimately show ?thesis by (cases "talk_of ans fd w") (fastforce simp: entry_of_def split: if_splits)+
qed

lemma serving_poll:
  "serving l (cs @ ds) w \<Longrightarrow>
   serving l (cs @ ds) (after_call w rs (SysPoll (map (\<lambda>c. (fe_fd (entry_of c), fe_events (entry_of c))) cs), r))"
  by (rule serving_call, assumption, rule poll_interest_fits) (auto simp: serving_def only_open_def entry_of_def)

lemma serving_accept:
  assumes "serving l cs w" "accept_fresh (open_from {l} w) (SysAccept l, r)"
  shows "serving l (cs @ [Client (rc r)]) (after_call w rs (SysAccept l, r))"
proof -
  have new: "rc r \<notin> open_from {l} w" "0 < rc r" using assms(2) by auto
  have "client_talks answers_hello (after_call w rs (SysAccept l, r)) c" if "c \<in> set cs" for c
  proof (subst client_talks_other [of c "Client (rc r)" _ _ w])
    show "cl_sd c \<noteq> cl_sd (Client (rc r))" using assms(1) new(1) that by (auto simp: serving_def)
  qed (use assms(1) that in \<open>auto simp: serving_def\<close>)
  with assms(1) new show ?thesis
    by (auto simp: serving_def poll_safe_def talks_kept_def simp flip: image_iff)
qed

text \<open>Attending to one client, with the entry of \<open>fds\<close> that belongs to it.\<close>

lemma poll_client_attends:
  "fe_fd e = cl_sd c \<Longrightarrow> attends answers_hello c fst (PollEngine_client oob e c)"
  by (auto simp: attends_def PollEngine_client_def wp_syscall terminated_buf_def client_talks_def answers_hello_def
      count_ret_def split: list.splits sum.splits client_state_t.splits)

lemma others_open: "X \<subseteq> A - L \<Longrightarrow> A' = A \<or> A' = A - {x} \<Longrightarrow> x \<notin> X \<Longrightarrow> X \<subseteq> A' - L"
  by blast

lemma serving_client:
  assumes "serving l (as @ c # bs) w" "fe_fd e = cl_sd c"
  shows "wp (PollEngine_client oob e c)
    (\<lambda>(c', gone) w'. cl_sd c' = cl_sd c \<and> serving l (as @ (if gone then [] else [c']) @ bs) w' \<and>
       fresh_from {l} w' = fresh_from {l} w)
    (\<lambda>e w'. poll_error e \<and> poll_safe l w') (poll_safe l) w"
proof -
  have c: "cl_sd c \<in> open_from {l} w" "cl_sd c \<noteq> l" "used_from only_open l {l} w" "client_talks answers_hello w c"
    "talks_kept answers_hello w" using assms(1) by (auto simp: serving_def poll_safe_def)
  have rest: "cl_sd c \<notin> cl_sd ` set (as @ bs)" using assms(1) by (auto simp: serving_def)
  have sub: "cl_sd ` set (as @ bs) \<subseteq> open_from {l} w - {l}" "l \<in> open_from {l} w"
    using assms(1) by (auto simp: serving_def)
  have "serving l (as @ (if gone then [] else [c']) @ bs) w'"
    if h: "cl_sd c' = cl_sd c" "used_from only_open l {l} w'" "talks_kept answers_hello w'" "client_talks answers_hello w' c'"
      "\<forall>fd. fd \<noteq> cl_sd c \<longrightarrow> talk_of answers_hello fd w' = talk_of answers_hello fd w"
      "open_from {l} w' = open_from {l} w \<or> gone \<and> open_from {l} w' = open_from {l} w - {cl_sd c}" for c' gone w'
  proof -
    have "client_talks answers_hello w' d" if d: "d \<in> set (as @ bs)" for d
    proof -
      have "cl_sd d \<noteq> cl_sd c" using d rest by (metis imageI)
      with client_talks_other [OF this h(5)] d assms(1) show ?thesis by (auto simp: serving_def)
    qed
    moreover have o: "open_from {l} w' = open_from {l} w \<or> open_from {l} w' = open_from {l} w - {cl_sd c}"
      using h(6) by blast
    have "cl_sd ` set (as @ bs) \<subseteq> open_from {l} w' - {l}" by (rule others_open [OF sub(1) o rest])
    then have "cl_sd ` set (as @ (if gone then [] else [c']) @ bs) \<subseteq> open_from {l} w' - {l}"
      using h(1,6) c(1,2) by (cases gone) simp_all
    moreover have "l \<in> open_from {l} w'" using o sub(2) c(2) by (elim disjE) simp_all
    moreover have "distinct (map cl_sd (as @ (if gone then [] else [c']) @ bs))" "talk_of answers_hello l w' = Idle"
      using assms(1) h(1,5) c(2) by (simp_all add: serving_def)
    moreover have "\<forall>d \<in> set (as @ (if gone then [] else [c']) @ bs). client_talks answers_hello w' d"
      using calculation(1) h(4) by auto
    ultimately show ?thesis
      using h(2,3) unfolding serving_def poll_safe_def by blast
  qed
  note left = this
  show ?thesis
  proof (rule wp_mono [OF wp_conj [OF poll_client_wp [OF assms(2) c(1-3)]
          attendsD [OF poll_client_attends [OF assms(2)] c(4,5)]]], goal_cases)
    case (1 x w')
    obtain c' gone where "x = (c', gone)" by (cases x)
    with 1 left [of c' w' gone] show ?case by (simp del: if_split)
  qed (simp_all add: poll_safe_def)
qed

section \<open>The invariant of the two threads\<close>

text \<open>
  \<open>m_Clients\<close> is a list of the clients that this round serves, followed by those that were added since.
  A served client that is on the list of disconnected ones is not used any more; a client that
  is accepted but not yet added is in the hands of the accepting thread. The number of a closed descriptor may
  come back with a new client before the old one is removed.
\<close>

fun disconnected :: "manager_pc \<Rightarrow> int list" where
  "disconnected (Scan n i ds) = ds"
| "disconnected (Remove ds) = ds"
| "disconnected _ = []"

fun in_hand :: "acceptor_pc \<Rightarrow> client list" where
  "in_hand (Accepted fd) = [Client fd]"
| "in_hand _ = []"

definition live :: "int list \<Rightarrow> client list \<Rightarrow> client list" where
  "live ds cs = filter (\<lambda>c. cl_sd c \<notin> set ds) cs"

lemma live_Nil [simp]: "live [] cs = cs"
  by (simp add: live_def)

fun round_ok :: "manager_pc \<Rightarrow> fds_entry list \<Rightarrow> client list \<Rightarrow> bool" where
  "round_ok Top fds cs \<longleftrightarrow> True"
| "round_ok (Filled n) fds cs \<longleftrightarrow> n = length cs \<and> take n fds = map entry_of cs"
| "round_ok (Scan n i ds) fds cs \<longleftrightarrow>
     n = length cs \<and> take n (map fe_fd fds) = map cl_sd cs \<and> i \<le> n \<and> distinct ds \<and>
     set ds \<subseteq> cl_sd ` set (take i cs)"
| "round_ok (Remove ds) fds cs \<longleftrightarrow> distinct ds \<and> set ds \<subseteq> cl_sd ` set cs"

definition poll_parts :: "int \<Rightarrow> poll_state \<Rightarrow> client list \<Rightarrow> client list \<Rightarrow> world \<Rightarrow> bool" where
  "poll_parts l s cs new w \<longleftrightarrow>
     ps_clients s = cs @ new \<and> distinct (map cl_sd cs) \<and> round_ok (ps_manager s) (ps_fds s) cs \<and>
     serving l (live (disconnected (ps_manager s)) cs @ new @ in_hand (ps_acceptor s)) w"

definition poll_inv :: "int \<Rightarrow> poll_state \<Rightarrow> world \<Rightarrow> bool" where
  "poll_inv l s w \<longleftrightarrow> (\<exists>cs new. poll_parts l s cs new w)"

lemma poll_invI: "poll_parts l s cs new w \<Longrightarrow> poll_inv l s w"
  by (auto simp: poll_inv_def)

lemma poll_inv_safe: "poll_inv l s w \<Longrightarrow> poll_safe l w"
  by (auto simp: poll_inv_def poll_parts_def dest: serving_safe)

lemma poll_inv_init: "poll_inv l poll_init \<lparr>script = rs, trace = []\<rparr>"
  by (simp add: poll_inv_def poll_parts_def poll_init_def serving_def poll_safe_def talks_kept_def)

lemma poll_accept_kept:
  assumes "poll_inv l s w"
  shows "wp (PollEngine_accept_step l s) (\<lambda>s' w'. fresh_from {l} w' \<longrightarrow> poll_inv l s' w')
    (\<lambda>e w'. e = Throw ''poll: '' \<and> poll_safe l w') (poll_safe l) w"
proof -
  from assms obtain cs new where p: "poll_parts l s cs new w" by (auto simp: poll_inv_def)
  then have sv: "serving l (live (disconnected (ps_manager s)) cs @ new @ in_hand (ps_acceptor s)) w"
    by (simp add: poll_parts_def)
  show ?thesis
  proof (cases "ps_acceptor s")
    case Waiting
    have "poll_inv l s' (after_call w rs (SysPoll [(l, POLLIN)], r))"
      if "s' = s \<or> s' = s\<lparr>ps_acceptor := Ready\<rparr>" for s' r rs
      by (rule poll_invI [of _ _ cs new])
        (use that p serving_poll_listener [OF sv, of rs r] Waiting in \<open>auto simp: poll_parts_def\<close>)
    then show ?thesis
      using poll_inv_safe [OF assms] serving_safe [OF serving_poll_listener [OF sv]]
      by (simp add: PollEngine_accept_step_def Waiting wp_syscall split: list.split del: norm_ret.simps)
  next
    case Ready
    have "poll_inv l (s\<lparr>ps_acceptor := Accepted (rc r)\<rparr>) (after_call w rs (SysAccept l, r))"
      if "fresh_from {l} (after_call w rs (SysAccept l, r))" for r rs
    proof -
      have "accept_fresh (open_from {l} w) (SysAccept l, r)" using that by simp
      from serving_accept [OF sv this] p Ready show ?thesis
        by (intro poll_invI [of _ _ cs new]) (simp add: poll_parts_def)
    qed
    with poll_inv_safe [OF assms] show ?thesis
      by (simp add: PollEngine_accept_step_def Ready wp_syscall split: list.split del: norm_ret.simps fresh_from_snoc)
  next
    case (Accepted fd)
    with p have "poll_parts l (s\<lparr>ps_clients := ps_clients s @ [Client fd], ps_acceptor := Waiting\<rparr>) cs (new @ [Client fd]) w"
      by (simp add: poll_parts_def)
    from poll_invI [OF this] Accepted show ?thesis by (simp add: PollEngine_accept_step_def)
  qed
qed

lemma drop_client_filter:
  assumes "fd \<in> cl_sd ` set cs" "distinct (map cl_sd cs)"
  shows "drop_client fd (cs @ new) = Inr (filter (\<lambda>c. cl_sd c \<noteq> fd) cs @ new)"
  using assms
proof (induction cs)
  case (Cons c cs)
  show ?case
  proof (cases "cl_sd c = fd")
    case True
    with Cons.prems have "\<forall>x \<in> set cs. cl_sd x \<noteq> fd" by (auto simp: image_iff)
    then have "filter (\<lambda>c. cl_sd c \<noteq> fd) cs = cs" by (simp add: filter_id_conv)
    with True show ?thesis by simp
  next
    case False
    with Cons show ?thesis by auto
  qed
qed simp

text \<open>The client at the index of the scan, and the clients that are left after attending to it.\<close>

lemma live_at:
  assumes "i < length cs" "distinct (map cl_sd cs)" "set ds \<subseteq> cl_sd ` set (take i cs)"
  shows "live ds cs = live ds (take i cs) @ cs ! i # live ds (drop (Suc i) cs)" (is ?now)
    and "cl_sd c = cl_sd (cs ! i) \<Longrightarrow>
      live (if gone then ds @ [cl_sd (cs ! i)] else ds) (cs[i := c]) =
      live ds (take i cs) @ (if gone then [] else [c]) @ live ds (drop (Suc i) cs)" (is "?eq \<Longrightarrow> ?next")
    and "cl_sd (cs ! i) \<notin> set ds"
proof -
  have cs: "cs = take i cs @ cs ! i # drop (Suc i) cs" using assms(1) by (simp add: id_take_nth_drop)
  with assms(2) have d: "distinct (map cl_sd (take i cs @ cs ! i # drop (Suc i) cs))" by simp
  then show new: "cl_sd (cs ! i) \<notin> set ds" using assms(3) by auto
  then show ?now by (subst cs) (simp add: live_def)
  assume eq: ?eq
  have "live (ds @ [cl_sd (cs ! i)]) xs = live ds xs" if "cl_sd (cs ! i) \<notin> cl_sd ` set xs" for xs
    using that by (auto simp: live_def image_iff intro!: filter_cong)
  moreover have "cl_sd (cs ! i) \<notin> cl_sd ` set (take i cs)" "cl_sd (cs ! i) \<notin> cl_sd ` set (drop (Suc i) cs)" using d by auto
  ultimately show ?next
    using assms(1) eq new by (simp add: upd_conv_take_nth_drop live_def)
qed

text \<open>A step of the managing thread that is not a race, one lemma for each place in its loop.\<close>

definition manage_kept :: "int \<Rightarrow> world \<Rightarrow> poll_state \<Rightarrow> world \<Rightarrow> bool" where
  "manage_kept l w s' w' \<longleftrightarrow> poll_inv l s' w' \<and> fresh_from {l} w' = fresh_from {l} w"

lemma poll_parts_clients:
  assumes "poll_parts l s cs new w"
  shows "ps_clients s = cs @ new" "distinct (map cl_sd cs)"
  using assms by (simp_all add: poll_parts_def)

lemma poll_top_kept:
  assumes p: "poll_parts l s cs new w" and Top: "ps_manager s = Top"
  shows "wp (PollEngine_manage_step oob s) (manage_kept l w)
    (\<lambda>e w'. poll_error e \<and> poll_safe l w') (poll_safe l) w"
proof -
  let ?hand = "in_hand (ps_acceptor s)"
  note cl = poll_parts_clients [OF p]
  from Top p have sv: "serving l (ps_clients s @ ?hand) w" by (simp add: poll_parts_def)
  have "serving l (ps_clients s @ ?hand) (after_call w rs (SysSleep 1000, r))" for r rs
    by (rule serving_call [OF sv]) auto
  then have "poll_inv l s (after_call w rs (SysSleep 1000, r))" for r rs
    by (intro poll_invI [of _ _ cs new]) (use p Top in \<open>simp add: poll_parts_def\<close>)
  moreover have "poll_inv l (s\<lparr>ps_fds := fill_fds (ps_clients s) (ps_fds s), ps_manager := Filled (length (ps_clients s))\<rparr>) w"
    using sv by (intro poll_invI [of _ _ "ps_clients s" "[]"]) (simp add: poll_parts_def serving_def)
  ultimately show ?thesis
    using serving_safe [OF sv]
    by (auto simp: PollEngine_manage_step_def manage_kept_def Top wp_syscall poll_error_def split: list.split)
qed

lemma poll_filled_kept:
  assumes p: "poll_parts l s cs new w" and Filled: "ps_manager s = Filled n" and calm: "\<not> races s"
  shows "wp (PollEngine_manage_step oob s) (manage_kept l w)
    (\<lambda>e w'. poll_error e \<and> poll_safe l w') (poll_safe l) w"
proof -
  let ?hand = "in_hand (ps_acceptor s)"
  note cl = poll_parts_clients [OF p]
  from Filled p calm have f: "new = []" "n = length cs" "take n (ps_fds s) = map entry_of cs" "serving l (cs @ ?hand) w"
    by (auto simp: poll_parts_def races_def)
  then have n: "length cs \<le> length (ps_fds s)" by (metis length_map length_take min.cobounded1)
  let ?c = "SysPoll (map (\<lambda>c. (fe_fd (entry_of c), fe_events (entry_of c))) cs)"
  have sv: "serving l (cs @ ?hand) (after_call w rs (?c, r))" for rs r by (rule serving_poll [OF f(4)])
  have "take (length cs) (map fe_fd (ps_fds s)) = map cl_sd cs"
    using f(2,3) by (simp add: take_map o_def entry_of_def)
  then have "poll_inv l (s\<lparr>ps_fds := polled_fds (length cs) r' (ps_fds s), ps_manager := pc\<rparr>) (after_call w rs (?c, r))"
    if "pc = Top \<or> pc = Scan (length cs) 0 []" for pc r r' rs
    using that sv [of rs r] cl f(1)
    by (intro poll_invI [of _ _ cs "[]"]) (auto simp: poll_parts_def)
  with serving_safe [OF sv] serving_safe [OF f(4)] show ?thesis
    using f n by (simp add: PollEngine_manage_step_def manage_kept_def Filled cl(1) wp_syscall poll_error_def o_def Let_def
        split: list.split del: norm_ret.simps)
qed

lemma poll_scan_kept:
  assumes p: "poll_parts l s cs new w" and Scan: "ps_manager s = Scan n i ds" and True: "i < n"
  shows "wp (PollEngine_manage_step oob s) (manage_kept l w)
    (\<lambda>e w'. poll_error e \<and> poll_safe l w') (poll_safe l) w"
proof -
  let ?hand = "in_hand (ps_acceptor s)"
  note cl = poll_parts_clients [OF p]
  from Scan p have f: "n = length cs" "take n (map fe_fd (ps_fds s)) = map cl_sd cs" "i \<le> n" "distinct ds"
    "set ds \<subseteq> cl_sd ` set (take i cs)" "serving l (live ds cs @ new @ ?hand) w"
    by (auto simp: poll_parts_def)
  have i: "i < length cs" using True f(1) by simp
  note at = live_at [OF i cl(2) f(5)]
  have "length cs \<le> length (ps_fds s)" using f(1,2) by (metis length_map length_take min.cobounded1)
  moreover have "take n (map fe_fd (ps_fds s)) ! i = map cl_sd cs ! i" by (simp add: f(2))
  ultimately have e: "entry_at (ps_fds s) i = Inr (ps_fds s ! i)" "fe_fd (ps_fds s ! i) = cl_sd (cs ! i)"
    using i True by (simp_all add: entry_at_def)
  let ?ds = "\<lambda>gone. if gone then ds @ [fe_fd (ps_fds s ! i)] else ds"
  have next': "poll_inv l (s\<lparr>ps_clients := (cs @ new)[i := c], ps_manager := Scan n (Suc i) (?ds gone)\<rparr>) w'"
    if c: "cl_sd c = cl_sd (cs ! i)"
      "serving l (live ds (take i cs) @ (if gone then [] else [c]) @ live ds (drop (Suc i) cs) @ new @ ?hand) w'" for c gone w'
  proof (rule poll_invI [of _ _ "cs[i := c]" new])
    have "map cl_sd (cs[i := c]) = map cl_sd cs" using c(1) i by (simp add: map_update list_update_same_conv)
    moreover have "cl_sd ` set (take (Suc i) (cs[i := c])) = insert (cl_sd (cs ! i)) (cl_sd ` set (take i cs))"
      using c(1) i by (simp add: take_Suc_conv_app_nth)
    ultimately show "poll_parts l (s\<lparr>ps_clients := (cs @ new)[i := c], ps_manager := Scan n (Suc i) (?ds gone)\<rparr>)
        (cs[i := c]) new w'"
      using c(2) at(2) [OF c(1), of gone] at(3) f cl(2) i True
      by (auto simp: poll_parts_def list_update_append1 e(2))
  qed
  have sv: "serving l (live ds (take i cs) @ cs ! i # live ds (drop (Suc i) cs) @ new @ ?hand) w"
    using f(6) unfolding at(1) by simp
  show ?thesis
    by (simp add: PollEngine_manage_step_def manage_kept_def Scan cl(1) i e(1) nth_append trans_less_add1)
      (rule wp_mono [OF serving_client [OF sv e(2)]], use next' [where gone = True] next' [where gone = False] in \<open>auto simp: manage_kept_def\<close>)
qed

lemma poll_scanned_kept:
  assumes p: "poll_parts l s cs new w" and Scan: "ps_manager s = Scan n i ds" and False: "\<not> i < n" and calm: "\<not> races s"
  shows "wp (PollEngine_manage_step oob s) (manage_kept l w)
    (\<lambda>e w'. poll_error e \<and> poll_safe l w') (poll_safe l) w"
proof -
  let ?hand = "in_hand (ps_acceptor s)"
  note cl = poll_parts_clients [OF p]
  from Scan p have f: "n = length cs" "take n (map fe_fd (ps_fds s)) = map cl_sd cs" "i \<le> n" "distinct ds"
    "set ds \<subseteq> cl_sd ` set (take i cs)" "serving l (live ds cs @ new @ ?hand) w"
    by (auto simp: poll_parts_def)
  from False f calm Scan cl(1) have "i = length cs" "\<not> i < length cs + length new" by (auto simp: races_def)
  then have "i = length cs" "new = []" by (cases new; simp)+
  moreover have "poll_inv l (s\<lparr>ps_manager := Remove ds\<rparr>) w" if "new = []" "i = length cs"
    by (rule poll_invI [of _ _ cs "[]"]) (use that f cl in \<open>simp add: poll_parts_def\<close>)
  ultimately show ?thesis by (simp add: PollEngine_manage_step_def manage_kept_def Scan cl)
qed

lemma poll_remove_kept:
  assumes p: "poll_parts l s cs new w" and Remove: "ps_manager s = Remove ds"
  shows "wp (PollEngine_manage_step oob s) (manage_kept l w)
    (\<lambda>e w'. poll_error e \<and> poll_safe l w') (poll_safe l) w"
proof -
  let ?hand = "in_hand (ps_acceptor s)"
  note cl = poll_parts_clients [OF p]
  show ?thesis
  proof (cases ds)
    case Nil
    with p Remove show ?thesis
      by (auto simp: PollEngine_manage_step_def manage_kept_def poll_parts_def intro!: poll_invI [of _ _ cs new])
  next
    case (Cons fd ds')
    with p Remove have f: "fd \<notin> set ds'" "distinct ds'" "set ds \<subseteq> cl_sd ` set cs"
      "serving l (live ds cs @ new @ ?hand) w" by (auto simp: poll_parts_def)
    let ?cs = "filter (\<lambda>c. cl_sd c \<noteq> fd) cs"
    have "live ds' ?cs = live ds cs" by (auto simp: live_def Cons intro: filter_cong)
    moreover have "cl_sd ` set ?cs = cl_sd ` set cs - {fd}" by auto
    then have "set ds' \<subseteq> cl_sd ` set ?cs" using f(1,3) Cons by (simp add: subset_Diff_insert)
    ultimately have "poll_inv l (s\<lparr>ps_clients := ?cs @ new, ps_manager := Remove ds'\<rparr>) w"
      using f cl(2) by (intro poll_invI [of _ _ ?cs new]) (simp add: poll_parts_def distinct_map_filter)
    moreover have "drop_client fd (cs @ new) = Inr (?cs @ new)"
      using drop_client_filter [OF _ cl(2)] f(3) Cons by auto
    ultimately show ?thesis by (simp add: PollEngine_manage_step_def manage_kept_def Remove Cons cl(1))
  qed
qed

lemma poll_manage_kept:
  assumes "poll_inv l s w" "\<not> races s"
  shows "wp (PollEngine_manage_step oob s) (manage_kept l w)
    (\<lambda>e w'. poll_error e \<and> poll_safe l w') (poll_safe l) w"
proof -
  from assms(1) obtain cs new where p: "poll_parts l s cs new w" by (auto simp: poll_inv_def)
  show ?thesis
  proof (cases "ps_manager s")
    case (Scan n i ds)
    then show ?thesis using poll_scan_kept [OF p] poll_scanned_kept [OF p _ _ assms(2)] by (cases "i < n") auto
  qed (use poll_top_kept [OF p] poll_filled_kept [OF p _ assms(2)] poll_remove_kept [OF p] in auto)
qed

lemma poll_reach_inv:
  assumes "poll_reach oob l rs s w" "fresh_from {l} w"
  shows "poll_inv l s w"
  using assms
proof (induction rule: poll_reach.induct)
  case poll_start
  show ?case by (rule poll_inv_init)
next
  case (poll_accepts s w s' w')
  have "later w w'" using wp_Ok [OF shrinksD [OF PollEngine_accept_step_shrinks later_refl] poll_accepts(2)] .
  with poll_accepts have "poll_inv l s w" by (blast intro: fresh_from_later)
  from wp_Ok [OF poll_accept_kept [OF this] poll_accepts(2)] poll_accepts(4) show ?case by simp
next
  case (poll_manages s w s' w')
  have "later w w'" using wp_Ok [OF shrinksD [OF PollEngine_manage_step_shrinks later_refl] poll_manages(3)] .
  with poll_manages have "poll_inv l s w" by (blast intro: fresh_from_later)
  from wp_Ok [OF poll_manage_kept [OF this poll_manages(2)] poll_manages(3)] show ?case by (simp add: manage_kept_def)
qed

text \<open>What the invariant says about a client that is not on the list of disconnected ones.\<close>

lemma poll_inv_client:
  assumes "poll_inv l s w" "c \<in> set (ps_clients s)" "cl_sd c \<notin> set (disconnected (ps_manager s))"
  shows "cl_sd c \<in> open_from {l} w - {l}" "client_talks answers_hello w c"
proof -
  from assms(1) obtain cs new where p: "ps_clients s = cs @ new"
    "serving l (live (disconnected (ps_manager s)) cs @ new @ in_hand (ps_acceptor s)) w"
    by (auto simp: poll_inv_def poll_parts_def)
  have c: "c \<in> set (live (disconnected (ps_manager s)) cs @ new @ in_hand (ps_acceptor s))"
    using assms(2,3) p(1) by (auto simp: live_def)
  then have "cl_sd c \<in> cl_sd ` set (live (disconnected (ps_manager s)) cs @ new @ in_hand (ps_acceptor s))" by (rule imageI)
  with p(2) show "cl_sd c \<in> open_from {l} w - {l}" unfolding serving_def by blast
  show "client_talks answers_hello w c" using p(2) c unfolding serving_def by blast
qed

lemma poll_inv_top:
  assumes "poll_inv l s w" "ps_manager s = Top"
  shows "distinct (map cl_sd (ps_clients s))"
proof -
  from assms obtain cs new where "ps_clients s = cs @ new" "distinct (map cl_sd (cs @ new @ in_hand (ps_acceptor s)))"
    by (auto simp: poll_inv_def poll_parts_def serving_def)
  then show ?thesis by (metis append.assoc distinct_append map_append)
qed

text \<open>A run under a schedule (\<open>True\<close> is a step of the accepting thread), as long as there is no race.\<close>

fun race_free :: "char option \<Rightarrow> int \<Rightarrow> bool list \<Rightarrow> poll_state \<times> world \<Rightarrow> (poll_state \<times> world) option" where
  "race_free oob l [] p = Some p"
| "race_free oob l (t # ts) (s, w) =
     (if \<not> t \<and> races s then None
      else case (if t then PollEngine_accept_step l s w else PollEngine_manage_step oob s w) of
             (Ok s', w') \<Rightarrow> race_free oob l ts (s', w')
           | _ \<Rightarrow> None)"

lemma race_free_reach:
  "race_free oob l ts p = Some (s', w') \<Longrightarrow> poll_reach oob l rs (fst p) (snd p) \<Longrightarrow> poll_reach oob l rs s' w'"
proof (induction oob l ts p rule: race_free.induct)
  case (2 oob l t ts s w)
  from 2(2) obtain s1 w1 where step: "\<not> (\<not> t \<and> races s)"
    "(if t then PollEngine_accept_step l s w else PollEngine_manage_step oob s w) = (Ok s1, w1)"
    "race_free oob l ts (s1, w1) = Some (s', w')" by (auto split: if_splits prod.splits outcome.splits)
  then have "poll_reach oob l rs s1 w1"
    using 2(3) by (cases t) (auto intro: poll_reach.intros)
  with 2(1) step show ?case by auto
qed simp

lemmas poll_eval = PollEngine_accept_step_def PollEngine_manage_step_def PollEngine_client_def poll_init_def races_def
  fill_fds_def entry_of_def polled_fds_def entry_at_def revents_of_def Client_def bindIO_def syscall_Cons returnIO_def
  liftE_def terminated_buf_def strip_crlf.simps is_crlf_def ret_def ret_data_def ret_err_def count_ret_def has_bit_def

section \<open>Properties\<close>

text \<open>
  C11: the client records of \<open>PollEngine\<close> refine the conversations, under every interleaving of its two
  threads and on every kernel whose \<open>accept\<close> gives new descriptors, in every state they reach before
  the managing thread uses an entry of \<open>fds\<close> that it did not fill in this round: a client
  that wants to be read is one that owes nothing and is owed nothing, a client that wants to be written to is one that
  has sent something and has no answer yet (unless it is about to be removed); and on no descriptor has the engine read over an
  unanswered message, answered anything but the greeting, written without being asked, or polled for the wrong event.
\<close>

theorem PollEngine_conversation:
  assumes "poll_reach oob l rs s w" and "fresh_from {l} w"
  shows "talks_kept answers_hello w \<and>
    (\<forall>c \<in> set (ps_clients s). cl_sd c \<notin> set (disconnected (ps_manager s)) \<longrightarrow>
       (cl_state c = WANT_READ \<longleftrightarrow> talk_of answers_hello (cl_sd c) w = Idle) \<and>
       (cl_state c = WANT_WRITE \<longleftrightarrow> (\<exists>bs. bs \<noteq> [] \<and> talk_of answers_hello (cl_sd c) w = Owing bs)))"
proof -
  have inv: "poll_inv l s w" by (rule poll_reach_inv [OF assms])
  with poll_inv_client(2) [OF inv] poll_inv_safe [OF inv] show ?thesis
    by (auto simp: poll_safe_def client_talks_iff)
qed

lemma poll_owing_example:
  "\<exists>s w. poll_reach None 3 [ret 1, ret 5, (ret 1)\<lparr>marks := [1]\<rparr>, ret_data ''hi''] s w \<and>
     ps_clients s = [Client_in 5 WANT_WRITE] \<and> ps_manager s = Scan 1 1 [] \<and> fresh_from {3} w"
proof -
  let ?rs = "[ret 1, ret 5, (ret 1)\<lparr>marks := [1]\<rparr>, ret_data ''hi'']"
  obtain s w where "race_free None 3 [True, True, True, False, False, False] (poll_init, \<lparr>script = ?rs, trace = []\<rparr>) = Some (s, w)"
    "ps_clients s = [Client_in 5 WANT_WRITE]" "ps_manager s = Scan 1 1 []" "fresh_from {3} w"
    by (simp add: poll_eval Client_in_def fresh_from_def)
  with race_free_reach [OF this(1)] show ?thesis by (auto intro: poll_start)
qed

theorem PollEngine_conversation_witness:
  "\<exists>s w bs. poll_reach None 3 [ret 1, ret 5, (ret 1)\<lparr>marks := [1]\<rparr>, ret_data ''hi''] s w \<and>
     bs \<noteq> [] \<and> talk_of answers_hello 5 w = Owing bs"
proof -
  obtain s w where s: "poll_reach None 3 [ret 1, ret 5, (ret 1)\<lparr>marks := [1]\<rparr>, ret_data ''hi''] s w"
    "ps_clients s = [Client_in 5 WANT_WRITE]" "ps_manager s = Scan 1 1 []" "fresh_from {3} w" using poll_owing_example by blast
  from PollEngine_conversation [OF s(1,4)] s(1-3) show ?thesis by (auto simp: Client_in_def)
qed

text \<open>
  C26: in the same runs (every interleaving of the two threads of \<open>PollEngine\<close>, every kernel whose \<open>accept\<close> gives new
  descriptors, until the managing thread uses an entry of \<open>fds\<close> that it did not fill in this round): every client that is
  not about to be removed is an open descriptor other than the listener, and at the top of the loop the clients are distinct; only
  open client descriptors have been polled, read, written and closed, and no descriptor has been closed
  twice, also when the number of a closed descriptor comes back from \<open>accept\<close> before the closed client is
  removed; and the next step of the managing thread, unless it is such a use, keeps this and cannot fail the
  \<open>assert\<close> or read an entry of \<open>fds\<close> that was never filled.
\<close>

theorem PollEngine_descriptors:
  assumes "poll_reach oob l rs s w" and "fresh_from {l} w"
  shows "cl_sd ` set (ps_clients s) - set (disconnected (ps_manager s)) \<subseteq> open_from {l} w - {l} \<and>
    (ps_manager s = Top \<longrightarrow> distinct (map cl_sd (ps_clients s))) \<and> used_from only_open l {l} w \<and>
    (\<not> races s \<longrightarrow> wp (PollEngine_manage_step oob s) (\<lambda>_. used_from only_open l {l})
      (\<lambda>e w'. poll_error e \<and> used_from only_open l {l} w') (used_from only_open l {l}) w)"
proof -
  have inv: "poll_inv l s w" by (rule poll_reach_inv [OF assms])
  have "wp (PollEngine_manage_step oob s) (\<lambda>_. used_from only_open l {l})
      (\<lambda>e w'. poll_error e \<and> used_from only_open l {l} w') (used_from only_open l {l}) w" if "\<not> races s"
    by (rule wp_mono [OF poll_manage_kept [OF inv that]]) (auto simp: manage_kept_def poll_safe_def dest: poll_inv_safe)
  with poll_inv_client(1) [OF inv] poll_inv_top [OF inv] poll_inv_safe [OF inv] show ?thesis
    by (auto simp: poll_safe_def)
qed

theorem PollEngine_descriptors_witness:
  "\<exists>s w. poll_reach None 3 [ret 1, ret 5, (ret 1)\<lparr>marks := [1]\<rparr>, ret_data ''hi''] s w \<and>
     {5} \<subseteq> open_from {3} w - {3} \<and> used_from only_open 3 {3} w"
proof -
  obtain s w where s: "poll_reach None 3 [ret 1, ret 5, (ret 1)\<lparr>marks := [1]\<rparr>, ret_data ''hi''] s w"
    "ps_clients s = [Client_in 5 WANT_WRITE]" "ps_manager s = Scan 1 1 []" "fresh_from {3} w" using poll_owing_example by blast
  from PollEngine_descriptors [OF s(1,4)] s(1-3) show ?thesis by (auto simp: Client_in_def)
qed



end
