(* ===== verification/Tp_Server.thy ===== *)
theory Tp_Server
  imports Tp_Options Poll_Async Poll_Conversation
begin

text \<open>
  \<open>server.cpp\<close> and \<open>main.cpp\<close> of \<open>net/libtpevent\<close>: the choice of the engine and the whole
  program. An engine with several threads runs under a schedule, a list that
  says which thread acts next; a schedule that is used up is a program that has not ended (\<open>Blocked\<close>).
  An exception that leaves the function of a thread ends the program by \<open>std::terminate\<close>, and
  so does one that leaves \<open>AsyncPollEngine::run\<close>, whose vector of running threads is then destroyed.
  The case \<open>engine_t::EPOLL\<close> of \<open>get_engine\<close> has no enumerator in \<open>options.hpp\<close> and is left out.
\<close>

section \<open>Threads\<close>

definition in_thread :: "'a io \<Rightarrow> 'a io" where
  "in_thread m = (\<lambda>w.
     case m w of
       (Fail (Throw msg), w') \<Rightarrow> (Fail (Abort ''terminate''), w')
     | r \<Rightarrow> r)"

lemma wp_in_thread [wp_simps, simp]:
  "wp (in_thread m) Q E B w =
     wp m Q (\<lambda>e. case e of Throw msg \<Rightarrow> E (Abort ''terminate'') | _ \<Rightarrow> E e) B w"
  by (simp add: wp_def in_thread_def split: prod.splits outcome.splits cpp_error.splits)

lemma in_thread_Ok: "in_thread m w = (Ok x, w') \<longleftrightarrow> m w = (Ok x, w')"
  by (simp add: in_thread_def split: prod.splits outcome.splits cpp_error.splits)

text \<open>\<open>PollEngine::run\<close>: \<open>True\<close> in the schedule is a step of the accepting thread.\<close>

definition PollEngine_action :: "char option \<Rightarrow> int \<Rightarrow> bool \<Rightarrow> poll_state \<Rightarrow> poll_state io" where
  "PollEngine_action oob listener accepting s =
     (if accepting then PollEngine_accept_step listener s else PollEngine_manage_step oob s)"

fun PollEngine_sched :: "char option \<Rightarrow> int \<Rightarrow> bool list \<Rightarrow> poll_state \<Rightarrow> poll_state io" where
  "PollEngine_sched oob listener [] s = returnIO s"
| "PollEngine_sched oob listener (t # ts) s =
     bindIO (PollEngine_action oob listener t s) (\<lambda>s'. PollEngine_sched oob listener ts s')"

definition PollEngine_run :: "char option \<Rightarrow> bool list \<Rightarrow> int \<Rightarrow> unit io" where
  "PollEngine_run oob sched listener =
     bindIO (in_thread (PollEngine_sched oob listener sched poll_init)) (\<lambda>_ w. (Blocked, w))"

text \<open>\<open>AsyncPollEngine::run\<close>: the manager, the four workers and the accepting main thread.\<close>

definition AsyncPollEngine_run :: "char option \<Rightarrow> async_thread list \<Rightarrow> int \<Rightarrow> unit io" where
  "AsyncPollEngine_run oob sched listener =
     bindIO (in_thread (AsyncPollEngine_sched oob listener sched async_init)) (\<lambda>_ w. (Blocked, w))"

section \<open>server.cpp and main.cpp\<close>

datatype engine_class = SelectEngine | PollEngine | AsyncPollEngine

record engine =
  en_class :: engine_class
  en_listener :: int

definition get_engine :: "engine_t \<Rightarrow> int \<Rightarrow> bool \<Rightarrow> engine io" where
  "get_engine type port async =
     (case type of
        SELECT \<Rightarrow> bindIO (Engine_ctor port) (\<lambda>l. returnIO \<lparr>en_class = SelectEngine, en_listener = l\<rparr>)
      | POLL \<Rightarrow>
          if async then bindIO (Engine_ctor port) (\<lambda>l. returnIO \<lparr>en_class = AsyncPollEngine, en_listener = l\<rparr>)
          else bindIO (Engine_ctor port) (\<lambda>l. returnIO \<lparr>en_class = PollEngine, en_listener = l\<rparr>)
      | UNKNOWN \<Rightarrow> failIO (Throw ''unknown engine type''))"

definition Server_ctor :: "options \<Rightarrow> engine io" where
  "Server_ctor opt =
     bindIO (liftE (Options_engine opt)) (\<lambda>engine.
     bindIO (liftE (Options_port opt)) (\<lambda>port.
     bindIO (liftE (Options_async opt)) (\<lambda>async.
     get_engine engine (uint port) async)))"

definition Server_run :: "char option \<Rightarrow> bool list \<Rightarrow> async_thread list \<Rightarrow> engine \<Rightarrow> unit io" where
  "Server_run oob sched async_sched self =
     (case en_class self of
        SelectEngine \<Rightarrow> in_thread (SelectEngine_run oob (en_listener self))
      | PollEngine \<Rightarrow> PollEngine_run oob sched (en_listener self)
      | AsyncPollEngine \<Rightarrow> AsyncPollEngine_run oob async_sched (en_listener self))"

definition tpevent_main ::
  "(string \<Rightarrow> string \<Rightarrow> string list) \<Rightarrow> (string \<Rightarrow> string \<Rightarrow> bool) \<Rightarrow> char option \<Rightarrow> bool list \<Rightarrow> async_thread list
   \<Rightarrow> string list \<Rightarrow> int io" where
  "tpevent_main boost_split boost_starts_with oob sched async_sched args =
     catchIO
       (bindIO (liftE (Options_ctor boost_split boost_starts_with args)) (\<lambda>opt.
        bindIO (Server_ctor opt) (\<lambda>serv.
        bindIO (finallyIO (Server_run oob sched async_sched serv) (Engine_dtor (en_listener serv))) (\<lambda>_.
        returnIO 0))))
       (\<lambda>_. returnIO 0)"

section \<open>The constructor of the engine inside the program\<close>

text \<open>The descriptor of the listening socket is the result of the first call.\<close>

definition listener_of :: "world \<Rightarrow> int" where
  "listener_of w = (case trace w of e # tr \<Rightarrow> rc (snd e) | [] \<Rightarrow> - 1)"

lemma listener_of_later: "later w w' \<Longrightarrow> trace w \<noteq> [] \<Longrightarrow> listener_of w' = listener_of w"
  by (auto simp: later_def listener_of_def split: list.splits)

lemma Engine_ctor_wp:
  "wp (Engine_ctor port)
     (\<lambda>l w. 0 < l \<and> listener_of w = l \<and> trace w \<noteq> [] \<and> open_from {l} w = {l} \<and> used_from all_open l {l} w)
     (\<lambda>e w. e = Throw ''error listen socket: '' \<and> (\<forall>fd r. (SysAccept fd, r) \<notin> set (trace w)))
     (\<lambda>w. \<forall>l. used_from all_open l {l} w) \<lparr>script = rs, trace = []\<rparr>"
  by (auto simp: Engine_ctor_def Engine_listenSocket_def wp_syscall listener_of_def used_from_def open_from_def
      split: list.splits)

lemma drop_client_Inl: "drop_client fd cs = Inl e \<Longrightarrow> e = Abort ''iterator != m_Clients.end()''"
  by (induction cs) (auto split: if_splits elim: bindE.elims)

lemma SelectEngine_read_no_throw:
  "wp (SelectEngine_read oob fd) (\<lambda>_ _. True) (\<lambda>e _. \<forall>msg. e \<noteq> Throw msg) (\<lambda>_. True) w"
  by (auto simp: SelectEngine_read_def terminated_buf_def wp_syscall simp del: norm_ret.simps
      split: list.splits sum.splits dest!: strip_crlf_error)

lemma SelectEngine_scan_no_throw:
  "wp (SelectEngine_scan oob l ready cs disc) (\<lambda>_ _. True) (\<lambda>e _. \<forall>msg. e \<noteq> Throw msg) (\<lambda>_. True) w"
proof (induction oob l ready cs disc arbitrary: w rule: SelectEngine_scan.induct)
  case (2 oob l ready c cs disc)
  have "wp (bindIO (SelectEngine_read oob (cl_sd c)) (\<lambda>gone.
        SelectEngine_scan oob l ready cs (if gone then disc @ [cl_sd c] else disc)))
      (\<lambda>_ _. True) (\<lambda>e _. \<forall>msg. e \<noteq> Throw msg) (\<lambda>_. True) w"
    if "cl_sd c \<in> set ready" "cl_sd c \<noteq> l"
    unfolding wp_bind by (rule wp_mono [OF SelectEngine_read_no_throw]) (use 2(2) that in auto)
  with 2(1) show ?case by (auto simp: wp_syscall simp del: norm_ret.simps split: list.splits)
qed simp

lemma SelectEngine_remove_no_throw:
  "wp (SelectEngine_remove fds cs) (\<lambda>_ _. True) (\<lambda>e _. \<forall>msg. e \<noteq> Throw msg) (\<lambda>_. True) w"
  by (induction fds cs arbitrary: w rule: SelectEngine_remove.induct)
    (auto simp: wp_syscall simp del: norm_ret.simps split: list.splits sum.splits dest: drop_client_Inl)

lemma SelectEngine_no_throw:
  "wp (SelectEngine_run oob l) (\<lambda>_ _. False) (\<lambda>e _. \<forall>msg. e \<noteq> Throw msg) (\<lambda>_. True) w"
  unfolding SelectEngine_run_def SelectEngine_manageConnections_def
proof (rule select_loop.loop_wp [where I = "\<lambda>_ _. True"])
  fix cs w
  show "wp (SelectEngine_round oob l cs)
      (\<lambda>r w'. case r of Inl s' \<Rightarrow> True | Inr x \<Rightarrow> False) (\<lambda>e _. \<forall>msg. e \<noteq> Throw msg) (\<lambda>_. True) w"
    by (auto simp: SelectEngine_round_def wp_syscall split_beta SelectEngine_remove_no_throw simp del: norm_ret.simps
        split: list.splits intro!: wp_mono [OF SelectEngine_scan_no_throw])
qed simp

lemma SelectEngine_run_wp:
  assumes "0 < l" "l < 1024" "open_from {l} w = {l}" "used_from all_open l {l} w"
  shows "wp (SelectEngine_run oob l)
    (\<lambda>_ w. fresh_from {l} w \<longrightarrow> False)
    (\<lambda>e w. fresh_from {l} w \<longrightarrow> select_error e \<and> used_from all_open l {l} w)
    (\<lambda>w. fresh_from {l} w \<longrightarrow> used_from all_open l {l} w) w"
  unfolding SelectEngine_run_def SelectEngine_manageConnections_def
  by (rule select_loop.loop_wp_guard [where I = "clients_ok l", OF fresh_from_later])
    (use assms select_round_wp in \<open>auto simp: clients_ok_def in_fd_set_def\<close>)

text \<open>The kernel gives descriptors that fit into an \<open>fd_set\<close>, and new ones from \<open>accept\<close>.\<close>

definition small_fresh :: "world \<Rightarrow> bool" where
  "small_fresh w \<longleftrightarrow> listener_of w < 1024 \<and> fresh_from {listener_of w} w"

lemma SelectEngine_in_server_wp:
  assumes "0 < l" "listener_of w = l" "trace w \<noteq> []" "open_from {l} w = {l}" "used_from all_open l {l} w"
  shows "wp (SelectEngine_run oob l)
    (\<lambda>_ w. False)
    (\<lambda>e w. (\<forall>msg. e \<noteq> Throw msg) \<and> (small_fresh w \<longrightarrow> select_error e \<and> used_from all_open (listener_of w) {listener_of w} w))
    (\<lambda>w. small_fresh w \<longrightarrow> used_from all_open (listener_of w) {listener_of w} w) w"
proof -
  have sh: "wp (SelectEngine_run oob l) (\<lambda>_. later w) (\<lambda>_. later w) (later w) w"
    using select_loop.loop_shrinks shrinksD later_refl
    unfolding SelectEngine_run_def SelectEngine_manageConnections_def by blast
  have same: "listener_of w' = l" if "later w w'" for w' using listener_of_later [OF that assms(3)] assms(2) by simp
  have nothrow: "wp (SelectEngine_run oob l) (\<lambda>_ _. False) (\<lambda>e _. \<forall>msg. e \<noteq> Throw msg) (\<lambda>_. True) w"
    by (rule SelectEngine_no_throw)
  show ?thesis
  proof (cases "l < 1024")
    case True
    show ?thesis
      by (rule wp_mono [OF wp_conj [OF wp_conj [OF sh nothrow] SelectEngine_run_wp [OF assms(1) True assms(4,5)]]])
        (auto simp: small_fresh_def same)
  next
    case False
    then show ?thesis
      by (intro wp_mono [OF wp_conj [OF sh nothrow]]) (auto simp: small_fresh_def same)
  qed
qed

lemma tpevent_main_opts:
  assumes "Options_ctor split starts args = Inr opt"
  shows "tpevent_main split starts oob sched async_sched args =
    catchIO (bindIO (Server_ctor opt) (\<lambda>serv.
        bindIO (finallyIO (Server_run oob sched async_sched serv) (Engine_dtor (en_listener serv))) (\<lambda>_. returnIO 0)))
      (\<lambda>_. returnIO 0)"
  by (simp add: tpevent_main_def assms liftE_def)

lemma Options_ctor_three:
  assumes "splits_on split" "tests_prefix starts" "in_int_range n" "e = ''select'' \<or> e = ''poll''"
  shows "Options_ctor split starts [prog, ''--port='' @ to_string n, ''--engine='' @ e,
      ''--async='' @ to_string (if b then 1 else 0)] =
    Inr \<lparr>m_Port = Some (word_of_int n), m_Engine = Some (string2engine e), m_Async = Some b\<rparr>"
  using Options_arg_port [OF assms(1-3)] Options_arg_engine [OF assms(1,2,4)] Options_arg_async [OF assms(1,2), of _ b]
  by (simp add: Options_ctor_def)

section \<open>Properties\<close>

text \<open>
  three options are demanded, but not three different ones: with \<open>--port\<close> given
  three times or more (and nothing else) the constructor of \<open>Options\<close> succeeds and the program reads the
  members that were never set, before it makes any call.
\<close>

theorem tpevent_main_uninitialised:
  assumes "splits_on split" "tests_prefix starts" "3 \<le> length ns" "list_all in_int_range ns"
  shows "run (tpevent_main split starts oob sched async_sched (prog # map (\<lambda>n. ''--port='' @ to_string n) ns)) rs =
    (Fail (Undefined UninitialisedRead), \<lparr>script = rs, trace = []\<rparr>)"
proof -
  have "foldE (Options_arg split starts) opt (map (\<lambda>n. ''--port='' @ to_string n) ns) =
      Inr (if ns = [] then opt else opt\<lparr>m_Port := Some (word_of_int (last ns))\<rparr>)" for opt
    using assms(4)
  proof (induction ns arbitrary: opt)
    case (Cons n ns)
    with Options_arg_port [OF assms(1,2), of n opt] show ?case by simp
  qed simp
  then have opt: "Options_ctor split starts (prog # map (\<lambda>n. ''--port='' @ to_string n) ns) =
    Inr \<lparr>m_Port = Some (word_of_int (last ns)), m_Engine = None, m_Async = None\<rparr>"
    using assms(3) by (auto simp: Options_ctor_def)
  show ?thesis
    unfolding tpevent_main_opts [OF opt]
    by (simp add: run_def Server_ctor_def Options_engine_def liftE_def catchIO_def failIO_def bindIO_def)
qed

theorem tpevent_main_uninitialised_witness:
  "run (tpevent_main cut_at is_prefix None [] [] [''server'', ''--port=1'', ''--port=2'', ''--port=3'']) [ret 3] =
    (Fail (Undefined UninitialisedRead), \<lparr>script = [ret 3], trace = []\<rparr>)"
proof -
  have "to_string 1 = ''1''" "to_string 2 = ''2''" "to_string 3 = ''3''" by code_simp+
  with tpevent_main_uninitialised [OF cut_at_splits is_prefix_tests, of "[1, 2, 3]" None "[]" "[]" "''server''" "[ret 3]"]
  show ?thesis by (simp add: in_int_range_def)
qed

end
