(* ===== verification/Tp_Program.thy ===== *)
theory Tp_Program
  imports Tp_Server
begin

text \<open>
  The whole server program of \<open>net/libtpevent\<close>: from the command line through the constructor of the
  engine into its loop. With \<open>--engine=select\<close> there is one thread, and the properties of the select engine
  become properties of the program; with \<open>--engine=poll --async=1\<close> the properties of the asynchronous engine that hold
  on every kernel and under every schedule do. (What holds of \<open>--engine=poll --async=0\<close> depends on the schedule, see
  \<open>Poll_Conversation\<close>.)
\<close>

section \<open>The constructor and the engines\<close>

lemma Engine_ctor_started:
  "wp (Engine_ctor port)
     (\<lambda>l w. 0 < l \<and> listener_of w = l \<and> trace w \<noteq> [] \<and> open_from {l} w = {l} \<and> used_from all_open l {l} w \<and>
        all_idle ans w \<and> only_answers oob (trace w))
     (\<lambda>e w. e = Throw ''error listen socket: '' \<and> (\<forall>fd r. (SysAccept fd, r) \<notin> set (trace w)))
     (\<lambda>w. (\<forall>l. used_from all_open l {l} w) \<and> all_idle ans w \<and> only_answers oob (trace w)) \<lparr>script = rs, trace = []\<rparr>"
proof -
  have none: "only_answers oob tr" if "\<And>fd s r. (SysWrite fd s, r) \<notin> set tr" for tr
    using that nth_mem by (fastforce simp: only_answers_def)
  have "wp (Engine_ctor port) (\<lambda>_ w. all_idle ans w \<and> only_answers oob (trace w)) (\<lambda>_ _. True)
      (\<lambda>w. all_idle ans w \<and> only_answers oob (trace w)) \<lparr>script = rs, trace = []\<rparr>"
    by (auto simp: Engine_ctor_def Engine_listenSocket_def wp_syscall all_idle_def talk_of_def split: list.splits intro!: none)
  from wp_conj [OF Engine_ctor_wp this] show ?thesis by (rule wp_mono) auto
qed

lemma SelectEngine_run_talks:
  assumes "all_idle (answers_echo oob) w"
  shows "wp (SelectEngine_run oob l) (\<lambda>_ _. False)
    (\<lambda>_. talks_kept (answers_echo oob)) (talks_kept (answers_echo oob)) w"
  unfolding SelectEngine_run_def SelectEngine_manageConnections_def
  by (rule select_loop.loop_wp [where I = "\<lambda>_. all_idle (answers_echo oob)"])
    (use assms in \<open>auto intro!: wp_mono [OF select_round_talk] split: sum.splits\<close>)



section \<open>Properties\<close>

text \<open>
  C18: the whole program with \<open>--engine=select\<close>, on every behaviour of the kernel that gives
  descriptors below 1024, new ones from \<open>accept\<close>: it returns only when the listening socket cannot be
  set up, with 0 and before it has accepted anybody. In every other case it waits for the kernel or
  ends inside the server loop with one of the errors of \<open>select_error\<close>; until then exactly the open
  descriptors are watched, only open descriptors of clients are read, written and closed, and every client has its
  conversation: each message is answered by its echo, nothing else is written, and the program never waits
  with a message unanswered.
\<close>

theorem tpevent_main_select:
  assumes "splits_on split" "tests_prefix starts" "in_int_range n"
  shows "wp (tpevent_main split starts oob sched async_sched [prog, ''--port='' @ to_string n, ''--engine=select'',
      ''--async='' @ to_string (if b then 1 else 0)])
    (\<lambda>x w. x = 0 \<and> (\<forall>fd r. (SysAccept fd, r) \<notin> set (trace w)))
    (\<lambda>e w. small_fresh w \<longrightarrow> select_error e \<and> used_from all_open (listener_of w) {listener_of w} w \<and>
       talks_kept (answers_echo oob) w)
    (\<lambda>w. small_fresh w \<longrightarrow> used_from all_open (listener_of w) {listener_of w} w \<and> talks_kept (answers_echo oob) w)
    \<lparr>script = rs, trace = []\<rparr>"
proof -
  have opt: "Options_ctor split starts [prog, ''--port='' @ to_string n, ''--engine=select'',
      ''--async='' @ to_string (if b then 1 else 0)] =
    Inr \<lparr>m_Port = Some (word_of_int n), m_Engine = Some SELECT, m_Async = Some b\<rparr>"
    using Options_ctor_three [OF assms, of "''select''" prog b] by (simp add: string2engine_def)
  have loop: "wp (SelectEngine_run oob l) (\<lambda>_ _. False)
      (\<lambda>e w. (\<forall>msg. e \<noteq> Throw msg) \<and> (small_fresh w \<longrightarrow> select_error e \<and>
         used_from all_open (listener_of w) {listener_of w} w \<and> talks_kept (answers_echo oob) w))
      (\<lambda>w. small_fresh w \<longrightarrow> used_from all_open (listener_of w) {listener_of w} w \<and> talks_kept (answers_echo oob) w) w"
    if "0 < l" "listener_of w = l" "trace w \<noteq> []" "open_from {l} w = {l}" "used_from all_open l {l} w"
      "all_idle (answers_echo oob) w" for l w
    by (rule wp_mono [OF wp_conj [OF SelectEngine_in_server_wp [OF that(1-5)] SelectEngine_run_talks [OF that(6)]]]) auto
  show ?thesis
    unfolding tpevent_main_opts [OF opt]
    by (simp add: Server_ctor_def Options_engine_def Options_port_def Options_async_def get_engine_def
        Server_run_def liftE_def)
      (rule wp_mono [OF Engine_ctor_started [where ans = "answers_echo oob"]],
       rule wp_mono [OF loop], auto simp: all_idle_kept split: cpp_error.splits)
qed

theorem tpevent_main_select_witness:
  "\<exists>w. run (tpevent_main cut_at is_prefix None [] [] [''server'', ''--port=80'', ''--engine=select'', ''--async=0''])
       [ret 3, ret 0, ret 0, ret 0, (ret 1)\<lparr>marks := [3]\<rparr>, ret 5] = (Blocked, w) \<and>
     small_fresh w \<and> used_from all_open 3 {3} w \<and> talks_kept (answers_echo None) w \<and> open_fds w = {3, 5}"
proof -
  let ?rs = "[ret 3, ret 0, ret 0, ret 0, (ret 1)\<lparr>marks := [3]\<rparr>, ret 5]"
  let ?args = "[''server'', ''--port='' @ to_string 80, ''--engine=select'', ''--async='' @ to_string (if False then 1 else 0)]"
  have n: "to_string 80 = ''80''" "to_string (if False then 1 else 0) = ''0''" by code_simp+
  have opt: "Options_ctor cut_at is_prefix ?args = Inr \<lparr>m_Port = Some 80, m_Engine = Some SELECT, m_Async = Some False\<rparr>"
    using Options_ctor_three [OF cut_at_splits is_prefix_tests, of 80 "''select''" "''server''" False]
    by (simp add: string2engine_def in_int_range_def)
  obtain w where w: "run (tpevent_main cut_at is_prefix None [] [] ?args) ?rs = (Blocked, w)" "small_fresh w"
    "listener_of w = 3" "open_fds w = {3, 5}"
    unfolding tpevent_main_opts [OF opt]
    by (simp add: run_def Server_ctor_def Options_engine_def Options_port_def Options_async_def get_engine_def liftE_def
      Server_run_def catchIO_def finallyIO_def in_thread_def Engine_ctor_def Engine_listenSocket_def
      SelectEngine_run_def SelectEngine_manageConnections_def loop_io_def SelectEngine_round_def in_fd_set_def bindIO_def
      syscall_Cons syscall_Nil returnIO_def ret_def Client_def small_fresh_def listener_of_def fresh_from_def open_fds_def insert_commute)
  from tpevent_main_select [OF cut_at_splits is_prefix_tests, of 80 None "[]" "[]" "''server''" False ?rs]
  have "used_from all_open 3 {3} w" "talks_kept (answers_echo None) w"
    using w(1-3) by (simp_all add: wp_def run_def in_int_range_def)
  with w show ?thesis unfolding n by auto
qed



end
