(* ===== verification/Net_Programs.thy ===== *)
theory Net_Programs
  imports Socket
begin

text \<open>
  The programs that are built on the class \<open>Socket\<close>: \<open>net/simple_server\<close>, \<open>net/prefork\<close>,
  \<open>net/multiplexing\<close>, \<open>net/http_client\<close> and the two \<open>client_timeouts.cpp\<close>. An object of class \<open>Socket\<close> that
  goes out of scope runs its destructor, after an exception too (\<open>finallyIO\<close>).
  \<open>args\<close> are the command line arguments, the program's name included; an exception outside
  every \<open>try\<close> block is the outcome of the program. The descriptors a process still holds when it ends are
  closed by the system, not by a call in the trace.
\<close>

section \<open>client\_work\<close>

text \<open>
  The loop shared by three of the servers; \<open>suffix\<close> is what follows the echoed line: a
  line feed in \<open>simple_server.cpp\<close> and \<open>multiplex.cpp\<close>, nothing in \<open>prefork.cpp\<close>.
\<close>

definition client_work_round :: "char option \<Rightarrow> string \<Rightarrow> socket \<Rightarrow> unit \<Rightarrow> (unit + unit) io" where
  "client_work_round oob suffix client = (\<lambda>_.
     catchIO
       (bindIO (Socket_recv oob client) (\<lambda>line.
        bindIO (Socket_send client (''echo: '' @ line @ suffix)) (\<lambda>_.
        returnIO (Inl ()))))
       (\<lambda>_. returnIO (Inr ())))"

definition client_work :: "char option \<Rightarrow> string \<Rightarrow> int \<Rightarrow> socket \<Rightarrow> unit io" where
  "client_work oob suffix sec client =
     bindIO (Socket_setRcvTimeout client sec 0) (\<lambda>_.
     loop_io (client_work_round oob suffix client) ())"

text \<open>The functions of the three files; the one of \<open>multiplex.cpp\<close> is never called.\<close>

definition simple_server_client_work :: "char option \<Rightarrow> socket \<Rightarrow> unit io" where
  "simple_server_client_work oob = client_work oob lf 120"

definition prefork_client_work :: "char option \<Rightarrow> socket \<Rightarrow> unit io" where
  "prefork_client_work oob = client_work oob [] 30"

definition multiplex_client_work :: "char option \<Rightarrow> socket \<Rightarrow> unit io" where
  "multiplex_client_work oob = client_work oob lf 30"

text \<open>\<open>client_work(client)\<close> on the result of \<open>accept\<close>, a null pointer when that failed.\<close>

definition work_on :: "(socket \<Rightarrow> unit io) \<Rightarrow> socket option \<Rightarrow> unit io" where
  "work_on work client =
     (case client of
        None \<Rightarrow> failIO (Undefined NullDeref)
      | Some c \<Rightarrow> finallyIO (work c) (Socket_dtor c))"

interpretation client_work_loop: sys_loop "client_work_round oob suffix client" for oob suffix client
  by unfold_locales
    (unfold client_work_round_def Socket_recv_def bindIO_assoc, intro progress_intros shrinks_intros)

lemma shrinks_client_work [shrinks_intros]: "shrinks (client_work oob suffix sec c)"
  unfolding client_work_def by (intro shrinks_intros client_work_loop.loop_shrinks)

lemma shrinks_work_on [shrinks_intros]: "(\<And>c. shrinks (work c)) \<Longrightarrow> shrinks (work_on work c)"
  unfolding work_on_def by (intro shrinks_intros)

section \<open>simple\_server.cpp and prefork.cpp\<close>

definition serve_round :: "(socket \<Rightarrow> unit io) \<Rightarrow> socket \<Rightarrow> unit \<Rightarrow> (unit + unit) io" where
  "serve_round work s = (\<lambda>_.
     bindIO (Socket_accept s) (\<lambda>client.
     bindIO (work_on work client) (\<lambda>_. returnIO (Inl ()))))"

definition simple_server_main :: "char option \<Rightarrow> string list \<Rightarrow> int io" where
  "simple_server_main oob args =
     (if length args \<noteq> 2 then returnIO 0
      else
        bindIO (liftE (stoi (args ! 1))) (\<lambda>port.
        bindIO (catchIO
          (bindIO (Socket_createServerSocket Socket_ctor (word_of_int port) 5) (\<lambda>s.
           finallyIO (loop_io (serve_round (simple_server_client_work oob) s) ()) (Socket_dtor s)))
          (\<lambda>_. returnIO ())) (\<lambda>_.
        returnIO 0)))"

text \<open>
  \<open>prefork.cpp\<close>: after \<open>fork\<close> both processes run the same accept loop on the shared
  listener; this is the program of either of them.
\<close>

definition prefork_main :: "char option \<Rightarrow> string list \<Rightarrow> int io" where
  "prefork_main oob args =
     (if length args \<noteq> 2 then returnIO 0
      else
        bindIO (liftE (stoi (args ! 1))) (\<lambda>port.
        bindIO (catchIO
          (bindIO (Socket_createServerSocket Socket_ctor (word_of_int port) 25) (\<lambda>s.
           finallyIO
             (bindIO (syscall SysFork) (\<lambda>pid. loop_io (serve_round (prefork_client_work oob) s) ()))
             (Socket_dtor s)))
          (\<lambda>_. returnIO ())) (\<lambda>_.
        returnIO 0)))"

interpretation serve_loop: sys_loop "serve_round (client_work oob suffix sec) s" for oob suffix sec s
  by unfold_locales
    (unfold serve_round_def Socket_accept_def bindIO_assoc, intro progress_intros shrinks_intros)

section \<open>multiplex.cpp\<close>

text \<open>\<open>while (auto client = s.accept()) \<dots>\<close>: the clients accepted so far are the state.\<close>

definition multiplex_accept_round :: "socket \<Rightarrow> socket list \<Rightarrow> (socket list + socket list) io" where
  "multiplex_accept_round s clients =
     bindIO (Socket_accept s) (\<lambda>client.
     case client of
       None \<Rightarrow> returnIO (Inr clients)
     | Some c \<Rightarrow> bindIO (Socket_setNonBlocked c True) (\<lambda>_. returnIO (Inl (clients @ [c]))))"

definition multiplex_client :: "char option \<Rightarrow> socket \<Rightarrow> unit io" where
  "multiplex_client oob s =
     bindIO (Socket_hasData s) (\<lambda>has.
     if has then bindIO (Socket_recv oob s) (\<lambda>_. returnIO ()) else returnIO ())"

definition multiplex_round :: "char option \<Rightarrow> socket \<Rightarrow> socket list \<Rightarrow> (socket list + unit) io" where
  "multiplex_round oob s clients =
     bindIO (syscall (SysSleep 1000000)) (\<lambda>_.
     bindIO (loop_io (multiplex_accept_round s) clients) (\<lambda>clients.
     bindIO (mapIO (multiplex_client oob) clients) (\<lambda>_.
     returnIO (Inl clients))))"

definition multiplex_main :: "char option \<Rightarrow> string list \<Rightarrow> int io" where
  "multiplex_main oob args =
     (if length args \<noteq> 2 then returnIO 0
      else
        bindIO (liftE (stoi (args ! 1))) (\<lambda>port.
        bindIO (catchIO
          (bindIO (Socket_createServerSocket Socket_ctor (word_of_int port) 1) (\<lambda>s.
           finallyIO
             (bindIO (Socket_setNonBlocked s True) (\<lambda>_. loop_io (multiplex_round oob s) []))
             (Socket_dtor s)))
          (\<lambda>_. returnIO ())) (\<lambda>_.
        returnIO 0)))"

interpretation multiplex_accept_loop: sys_loop "multiplex_accept_round s" for s
  by unfold_locales
    (unfold multiplex_accept_round_def Socket_accept_def bindIO_assoc, intro progress_intros shrinks_intros)

lemma shrinks_multiplex_client [shrinks_intros]: "shrinks (multiplex_client oob s)"
  unfolding multiplex_client_def by (intro shrinks_intros)

interpretation multiplex_loop: sys_loop "multiplex_round oob s" for oob s
  by unfold_locales
    (unfold multiplex_round_def, intro progress_intros shrinks_intros multiplex_accept_loop.loop_shrinks)

section \<open>http\_client.cpp\<close>

record HttpQuery =
  hq_query :: string
  hq_host :: string

definition make_query :: "string \<Rightarrow> cpp_error + HttpQuery" where
  "make_query response =
     bindE (url_host response) (\<lambda>host.
       Inr \<lparr>hq_query = ''GET '' @ response @ '' HTTP/1.1'' @ crlf @ ''Host: '' @ host @ crlf @ crlf,
            hq_host = host\<rparr>)"

definition http_response_cb :: "string \<Rightarrow> unit io" where
  "http_response_cb resp =
     (case str_find resp (crlf @ crlf) 0 of
        None \<Rightarrow> failIO (Throw ''exception: error getting headers'')
      | Some pos \<Rightarrow> bindIO (liftE (str_substr resp 0 (Some pos))) (\<lambda>_. returnIO ()))"

definition http_client_main :: "char option \<Rightarrow> string list \<Rightarrow> int io" where
  "http_client_main oob args =
     (if length args \<noteq> 2 then returnIO 0
      else
        bindIO (catchIO
          (bindIO (liftE (make_query (args ! 1))) (\<lambda>q.
           bindIO (Socket_connect Socket_ctor (hq_host q) 80) (\<lambda>s.
           finallyIO
             (bindIO (Socket_setRcvTimeout s 1 0) (\<lambda>_.
              Socket_httpQuery oob s (hq_query q) http_response_cb))
             (Socket_dtor s))))
          (\<lambda>_. returnIO ())) (\<lambda>_.
        returnIO 0))"

section \<open>The two client\_timeouts.cpp\<close>

definition connect_timeout_main :: "string list \<Rightarrow> int io" where
  "connect_timeout_main args =
     (if length args \<noteq> 3 then returnIO 0
      else
        bindIO (catchIO
          (bindIO (liftE (stoi (args ! 2))) (\<lambda>port.
           bindIO (Socket_connect_timed Socket_ctor (args ! 1) port 10) (\<lambda>s.
           Socket_dtor s)))
          (\<lambda>_. returnIO ())) (\<lambda>_.
        returnIO 0))"

definition read_timeout_main :: "char option \<Rightarrow> string list \<Rightarrow> int io" where
  "read_timeout_main oob args =
     (if length args \<noteq> 3 then returnIO 0
      else
        bindIO (catchIO
          (bindIO (liftE (stoi (args ! 2))) (\<lambda>port.
           bindIO (Socket_connect Socket_ctor (args ! 1) port) (\<lambda>s.
           finallyIO
             (bindIO (Socket_setNonBlocked s True) (\<lambda>_.
              bindIO (Socket_recvTimed oob s 3) (\<lambda>_. returnIO ())))
             (Socket_dtor s))))
          (\<lambda>_. returnIO ())) (\<lambda>_.
        returnIO 0))"

section \<open>Lemmas\<close>

lemma client_work_one:
  assumes "b \<noteq> []" "length b \<le> 128" "rstrip b \<noteq> []" "length suffix \<le> 100"
  shows "loop_io (client_work_round oob suffix c) () \<lparr>script = ret_data b # ret 1000 # rs, trace = tr\<rparr> =
    loop_io (client_work_round oob suffix c) () \<lparr>script = rs, trace = tr @
      [(SysRecv (m_Sd c) 128, ret_data b),
       (SysSend (m_Sd c) (''echo: '' @ rstrip b @ suffix),
        (ret 1000)\<lparr>rc := int (length (''echo: '' @ rstrip b @ suffix))\<rparr>)]\<rparr>"
proof -
  have "length (rstrip b) \<le> 128" using rstrip_append_crlf [of b] assms(2)
    by (metis length_append le_add1 le_trans)
  then have send: "Socket_send c (''echo: '' @ rstrip b @ suffix) \<lparr>script = ret 1000 # rs, trace = tr'\<rparr> =
     (Ok (), \<lparr>script = rs, trace = tr' @ [(SysSend (m_Sd c) (''echo: '' @ rstrip b @ suffix),
        (ret 1000)\<lparr>rc := int (length (''echo: '' @ rstrip b @ suffix))\<rparr>)]\<rparr>)" for tr'
    using assms(4) by (intro send_whole) auto
  have strip: "strip_crlf oob b = Inr (rstrip b)" using assms(3) by (simp add: strip_crlf_rstrip [of oob b])
  have step: "client_work_round oob suffix c () \<lparr>script = ret_data b # ret 1000 # rs, trace = tr\<rparr> =
      (Ok (Inl ()), \<lparr>script = rs, trace = tr @
      [(SysRecv (m_Sd c) 128, ret_data b),
       (SysSend (m_Sd c) (''echo: '' @ rstrip b @ suffix),
        (ret 1000)\<lparr>rc := int (length (''echo: '' @ rstrip b @ suffix))\<rparr>)]\<rparr>)"
    using assms(1,2) send [of "tr @ [(SysRecv (m_Sd c) 128, ret_data b)]"] strip
    by (simp add: client_work_round_def catchIO_def Socket_recv_def bindIO_def syscall_Cons count_ret_data
        liftE_def returnIO_def)
  show ?thesis by (subst client_work_loop.loop_unfold) (simp add: bindIO_def step)
qed

lemma client_work_end:
  "loop_io (client_work_round oob suffix c) () \<lparr>script = ret 0 # rs, trace = tr\<rparr> =
    (Ok (), \<lparr>script = rs, trace = tr @ [(SysRecv (m_Sd c) 128, ret 0)]\<rparr>)"
  by (subst client_work_loop.loop_unfold)
    (simp add: client_work_round_def bindIO_def catchIO_def Socket_recv_def syscall_Cons count_ret_def
      failIO_def returnIO_def ret_def)

lemma client_work_lines:
  assumes "\<forall>b \<in> set bs. b \<noteq> [] \<and> length b \<le> 128 \<and> rstrip b \<noteq> []" "length suffix \<le> 100"
  shows "\<exists>tr'. loop_io (client_work_round oob suffix c) ()
      \<lparr>script = concat (map (\<lambda>b. [ret_data b, ret 1000]) bs) @ ret 0 # rs, trace = tr\<rparr> =
    (Ok (), \<lparr>script = rs, trace = tr @ tr'\<rparr>) \<and>
    sent_bytes (m_Sd c) tr' = concat (map (\<lambda>b. ''echo: '' @ rstrip b @ suffix) bs)"
  using assms(1)
proof (induction bs arbitrary: tr)
  case Nil
  then show ?case by (auto simp: client_work_end)
next
  case (Cons b bs)
  define es where "es = [(SysRecv (m_Sd c) 128, ret_data b),
       (SysSend (m_Sd c) (''echo: '' @ rstrip b @ suffix),
        (ret 1000)\<lparr>rc := int (length (''echo: '' @ rstrip b @ suffix))\<rparr>)]"
  have "sent_bytes (m_Sd c) es = ''echo: '' @ rstrip b @ suffix" by (simp add: es_def)
  moreover obtain tr' where "loop_io (client_work_round oob suffix c) ()
      \<lparr>script = concat (map (\<lambda>b. [ret_data b, ret 1000]) bs) @ ret 0 # rs, trace = tr @ es\<rparr> =
      (Ok (), \<lparr>script = rs, trace = (tr @ es) @ tr'\<rparr>)"
      "sent_bytes (m_Sd c) tr' = concat (map (\<lambda>b. ''echo: '' @ rstrip b @ suffix) bs)"
    using Cons.IH [of "tr @ es"] Cons.prems by auto
  moreover have "loop_io (client_work_round oob suffix c) () \<lparr>script = ret_data b # ret 1000 # qs, trace = tr\<rparr> =
      loop_io (client_work_round oob suffix c) () \<lparr>script = qs, trace = tr @ es\<rparr>" for qs
    unfolding es_def using Cons.prems assms(2) by (intro client_work_one) auto
  ultimately show ?case by (intro exI [of _ "es @ tr'"]) simp
qed

section \<open>Properties\<close>

text \<open>
  C29: what the echo servers do with the segments that \<open>recv\<close> delivers, one call each, until the client closes the connection: the
  answers are one for each segment, in order, and each is \<open>echo:\<close>, the segment without its trailing CR and LF, and the
  suffix of the server (at most 100 bytes); then \<open>client_work\<close> returns. This holds for segments of 1 to 128 bytes that are not CR and LF only,
  and when \<open>send\<close> takes each answer whole. A segment need not be a line: lines that arrive
  together get one answer, a line that arrives in parts gets several.
\<close>

theorem client_work_echoes:
  assumes "\<forall>b \<in> set bs. b \<noteq> [] \<and> length b \<le> 128 \<and> rstrip b \<noteq> []" and "length suffix \<le> 100"
  shows "\<exists>w. run (client_work oob suffix sec c)
      (ret 0 # concat (map (\<lambda>b. [ret_data b, ret 1000]) bs) @ [ret 0]) = (Ok (), w) \<and>
    sent_bytes (m_Sd c) (trace w) = concat (map (\<lambda>b. ''echo: '' @ rstrip b @ suffix) bs)"
proof -
  let ?o = "(SysSetsockopt (m_Sd c) ''SO_RCVTIMEO'', ret 0)"
  obtain tr' where "loop_io (client_work_round oob suffix c) ()
      \<lparr>script = concat (map (\<lambda>b. [ret_data b, ret 1000]) bs) @ [ret 0], trace = [?o]\<rparr> =
      (Ok (), \<lparr>script = [], trace = [?o] @ tr'\<rparr>)"
      "sent_bytes (m_Sd c) tr' = concat (map (\<lambda>b. ''echo: '' @ rstrip b @ suffix) bs)"
    using client_work_lines [OF assms, of oob c "[]" "[?o]"] by blast
  then show ?thesis
    by (simp add: run_def client_work_def Socket_setRcvTimeout_def bindIO_def syscall_Cons returnIO_def ret_def)
qed

theorem client_work_echoes_witness:
  "\<exists>w. run (client_work None lf 120 (Socket_of 5))
      [ret 0, ret_data (''a'' @ crlf), ret 1000, ret_data ''bc'', ret 1000, ret 0] = (Ok (), w) \<and>
    sent_bytes 5 (trace w) = ''echo: a'' @ lf @ ''echo: bc'' @ lf"
  using client_work_echoes [of "[''a'' @ crlf, ''bc'']" lf None 120 "Socket_of 5"]
  by (simp add: rstrip_def is_crlf_def Socket_of_def)

text \<open>
  \<open>make_query\<close> takes the host from between the two slashes and the next one, or the end
  of the string, where the length that is computed from \<open>npos\<close> wraps around harmlessly;
  a string without \<open>//\<close> is refused.
\<close>

theorem make_query_host:
  assumes "CHR ''/'' \<notin> set scheme" "CHR ''/'' \<notin> set host" "host \<noteq> []" "rest = [] \<or> hd rest = CHR ''/''"
    and "length (scheme @ ''//'' @ host @ rest) < 2 ^ 63"
  shows "make_query (scheme @ ''//'' @ host @ rest) =
    Inr \<lparr>hq_query = ''GET '' @ (scheme @ ''//'' @ host @ rest) @ '' HTTP/1.1'' @ crlf @ ''Host: '' @ host @ crlf @ crlf,
         hq_host = host\<rparr>"
  using url_host_between [OF assms] by (simp add: make_query_def)

theorem make_query_host_witness:
  "\<exists>q. make_query ''http://ya.ru'' = Inr q \<and> hq_host q = ''ya.ru''"
  using make_query_host [of "''http:''" "''ya.ru''" "[]"] by simp

end
