(* ===== verification/Simple_Servers.thy ===== *)
theory Simple_Servers
  imports Tp_Engine
begin

text \<open>
  \<open>net/simplest_client_server\<close>: \<open>server_fork.cpp\<close>, \<open>server_poll.cpp\<close>, \<open>server_select.cpp\<close> and
  \<open>client.cpp\<close>, which use the system calls directly. \<open>exit\<close> ends the program with the outcome
  \<open>Exit\<close>. \<open>std::set<int>\<close> is its sorted list of elements; going on with an iterator whose
  element has been erased is undefined. Messages on the standard streams are not modelled.
\<close>

section \<open>Shared functions\<close>

text \<open>
  Each file has its own copy of these functions. That they agree, and agree with the copy in \<open>common/socket.cpp\<close>, is
  \<open>helpers_agree\<close> below.
\<close>

definition set_reuse_addr :: "int \<Rightarrow> unit io" where
  "set_reuse_addr sd =
     bindIO (syscall (SysSetsockopt sd ''SO_REUSEADDR'')) (\<lambda>r.
     if rc r = - 1 then bindIO (syscall (SysClose sd)) (\<lambda>_. returnIO ()) else returnIO ())"

text \<open>The part of \<open>make_socket\<close> of \<open>server_fork.cpp\<close> and \<open>server_poll.cpp\<close> after the socket has been created.\<close>

definition bind_and_listen :: "int \<Rightarrow> 16 word \<Rightarrow> unit io" where
  "bind_and_listen sock port =
     bindIO (syscall (SysBind sock (unat port))) (\<lambda>b.
     if rc b < 0 then failIO (Exit 1)
     else
       bindIO (syscall (SysListen sock 3)) (\<lambda>l.
       if rc l < 0 then failIO (Exit 1) else returnIO ()))"

text \<open>\<open>std::string(argv[1])\<close>: without an argument it is made from a null pointer.\<close>

definition argv1 :: "string list \<Rightarrow> string io" where
  "argv1 args = (if length args < 2 then failIO (Undefined NullDeref) else returnIO (args ! 1))"

section \<open>server\_fork.cpp\<close>

text \<open>\<open>sun_path\<close> has 108 bytes, and \<open>strcpy\<close> does not look.\<close>

definition fork_make_named_socket :: "string \<Rightarrow> int io" where
  "fork_make_named_socket filename =
     bindIO (syscall SysSocket) (\<lambda>sock.
     if rc sock < 0 then failIO (Exit 1)
     else if length filename \<ge> 108 then failIO (Undefined OutOfBoundsWrite)
     else
       bindIO (syscall (SysBind (rc sock) 0)) (\<lambda>b.
       if rc b < 0 then failIO (Exit 1) else returnIO (rc sock)))"

definition fork_make_socket :: "16 word \<Rightarrow> int io" where
  "fork_make_socket port =
     bindIO (syscall SysSocket) (\<lambda>sock.
     if rc sock < 0 then failIO (Exit 1)
     else
       bindIO (set_reuse_addr (rc sock)) (\<lambda>_.
       bindIO (bind_and_listen (rc sock) port) (\<lambda>_.
       failIO (Exit 0))))"

text \<open>The loop of the child, and a round of the loop of \<open>main\<close>; the parameter says which process goes on.\<close>

definition fork_echo_round :: "int \<Rightarrow> unit \<Rightarrow> (unit + unit) io" where
  "fork_echo_round sock = (\<lambda>_.
     bindIO (syscall (SysRecv sock 1024)) (\<lambda>bytes_read.
     if rc bytes_read \<le> 0 then returnIO (Inr ())
     else bindIO (syscall (SysSend sock (payload bytes_read))) (\<lambda>_. returnIO (Inl ()))))"

definition fork_round :: "int \<Rightarrow> unit \<Rightarrow> (unit + unit) io" where
  "fork_round listener = (\<lambda>_.
     bindIO (syscall (SysAccept listener)) (\<lambda>sock.
     if rc sock < 0 then failIO (Exit 3)
     else
       bindIO (syscall SysFork) (\<lambda>pid.
       if rc pid = - 1 then returnIO (Inl ())
       else if rc pid = 0 then
         bindIO (syscall (SysClose listener)) (\<lambda>_.
         bindIO (loop_io (fork_echo_round (rc sock)) ()) (\<lambda>_.
         bindIO (syscall (SysClose (rc sock))) (\<lambda>_. returnIO (Inl ()))))
       else bindIO (syscall (SysClose (rc sock))) (\<lambda>_. returnIO (Inl ())))))"

definition server_fork_main :: "string list \<Rightarrow> int io" where
  "server_fork_main args =
     (if length args \<noteq> 2 then returnIO 0
      else
        bindIO (liftE (stoi (args ! 1))) (\<lambda>port.
        bindIO (fork_make_socket (word_of_int port)) (\<lambda>listener.
        bindIO (loop_io (fork_round listener) ()) (\<lambda>_.
        bindIO (syscall (SysClose listener)) (\<lambda>_. returnIO 0)))))"

section \<open>server\_poll.cpp\<close>

definition poll_set_reuse_addr :: "int \<Rightarrow> unit io" where
  "poll_set_reuse_addr sd =
     bindIO (syscall (SysSetsockopt sd ''SO_REUSEADDR'')) (\<lambda>r.
     if rc r = - 1 then bindIO (syscall (SysClose sd)) (\<lambda>_. returnIO ()) else returnIO ())"

definition poll_make_socket :: "16 word \<Rightarrow> int io" where
  "poll_make_socket port =
     bindIO (syscall SysSocket) (\<lambda>sock.
     bindIO (poll_set_reuse_addr (rc sock)) (\<lambda>_.
     if rc sock < 0 then failIO (Exit 1)
     else bindIO (bind_and_listen (rc sock) port) (\<lambda>_. returnIO (rc sock))))"

definition poll_set_non_blocked_impl :: "int \<Rightarrow> bool \<Rightarrow> unit io" where
  "poll_set_non_blocked_impl sd opt =
     bindIO (syscall (SysFcntl sd ''F_GETFL'' 0)) (\<lambda>flags.
     let new_flags = (if opt then rc flags OR O_NONBLOCK else rc flags AND NOT O_NONBLOCK) in
     bindIO (syscall (SysFcntl sd ''F_SETFL'' new_flags)) (\<lambda>r.
     if rc r = - 1 then failIO (Throw ''make nonblocked: '') else returnIO ()))"

record pollfd =
  pf_fd :: int
  pf_events :: int

abbreviation POLL_SIZE :: nat where "POLL_SIZE \<equiv> 32"

text \<open>The body of the scan for one entry with its \<open>revents\<close>; \<open>numfds\<close> entries are in use.\<close>

definition server_poll_entry ::
  "char option \<Rightarrow> int \<Rightarrow> nat \<Rightarrow> pollfd \<Rightarrow> int \<Rightarrow> (pollfd \<times> pollfd list) io" where
  "server_poll_entry oob listener numfds p revents =
     (if revents = 0 then returnIO (p, [])
      else if pf_fd p = listener then
        bindIO (syscall (SysAccept listener)) (\<lambda>sock.
        if rc sock < 0 then failIO (Exit 3)
        else if numfds \<ge> POLL_SIZE then failIO (Undefined OutOfBoundsWrite)
        else
          bindIO (poll_set_non_blocked_impl (rc sock) True) (\<lambda>_.
          returnIO (p, [\<lparr>pf_fd = rc sock, pf_events = POLLIN\<rparr>])))
      else if has_bit revents POLLHUP then returnIO (p, [])
      else if has_bit revents POLLIN then
        bindIO (syscall (SysRead (pf_fd p) 256)) (\<lambda>r.
        if rc r < 0 then bindIO (syscall (SysClose (pf_fd p))) (\<lambda>_. returnIO (p, []))
        else if rc r = 0 then bindIO (syscall (SysClose (pf_fd p))) (\<lambda>_. returnIO (p, []))
        else
          bindIO (liftE (terminated_buf 256 (payload r))) (\<lambda>buf.
          bindIO (liftE (strip_crlf oob buf)) (\<lambda>tmp.
          returnIO (p\<lparr>pf_events := POLLOUT\<rparr>, []))))
      else if has_bit revents POLLOUT then
        bindIO (syscall (SysSend (pf_fd p) (''hello'' @ lf))) (\<lambda>_.
        returnIO (p\<lparr>pf_events := POLLIN\<rparr>, []))
      else returnIO (p, []))"

text \<open>
  The scan over the entries that \<open>poll\<close> was given, with the entries already done in front; an
  entry that is added on the way has \<open>revents\<close> 0 and is passed over.
\<close>

fun server_poll_scan ::
  "char option \<Rightarrow> int \<Rightarrow> nat \<Rightarrow> (pollfd \<times> int) list \<Rightarrow> (pollfd list \<times> pollfd list) io" where
  "server_poll_scan oob listener numfds [] = returnIO ([], [])"
| "server_poll_scan oob listener numfds ((p, revents) # ps) =
     bindIO (server_poll_entry oob listener numfds p revents) (\<lambda>(p', new).
     bindIO (server_poll_scan oob listener (numfds + length new) ps) (\<lambda>(ps', news).
     returnIO (p' # ps', new @ news)))"

definition server_poll_round :: "char option \<Rightarrow> int \<Rightarrow> pollfd list \<Rightarrow> (pollfd list + unit) io" where
  "server_poll_round oob listener fds =
     bindIO (syscall (SysPoll (map (\<lambda>p. (pf_fd p, pf_events p)) fds))) (\<lambda>poll_ret.
     if rc poll_ret = 0 then returnIO (Inl fds)
     else if rc poll_ret = - 1 then failIO (Throw ''poll: '')
     else
       bindIO (server_poll_scan oob listener (length fds) (zip fds (revents_of (length fds) poll_ret)))
         (\<lambda>(fds', news). returnIO (Inl (fds' @ news))))"

definition server_poll_main :: "char option \<Rightarrow> string list \<Rightarrow> unit io" where
  "server_poll_main oob args =
     bindIO (argv1 args) (\<lambda>arg.
     bindIO (liftE (stoi arg)) (\<lambda>port.
     bindIO (poll_make_socket (word_of_int port)) (\<lambda>listener.
     bindIO (poll_set_non_blocked_impl listener True) (\<lambda>_.
     loop_io (server_poll_round oob listener) [\<lparr>pf_fd = listener, pf_events = POLLIN\<rparr>]))))"

section \<open>server\_select.cpp\<close>

definition select_set_reuse_addr :: "int \<Rightarrow> unit io" where
  "select_set_reuse_addr sd =
     bindIO (syscall (SysSetsockopt sd ''SO_REUSEADDR'')) (\<lambda>r.
     if rc r = - 1 then bindIO (syscall (SysClose sd)) (\<lambda>_. returnIO ()) else returnIO ())"

definition select_make_socket :: "16 word \<Rightarrow> int io" where
  "select_make_socket port =
     bindIO (syscall SysSocket) (\<lambda>sock.
     bindIO (select_set_reuse_addr (rc sock)) (\<lambda>_.
     if rc sock < 0 then failIO (Exit 1)
     else
       bindIO (syscall (SysBind (rc sock) (unat port))) (\<lambda>b.
       if rc b < 0 then failIO (Exit 1)
       else
         bindIO (syscall (SysListen (rc sock) 3)) (\<lambda>l.
         if rc l < 0 then failIO (Exit 1) else returnIO (rc sock)))))"

definition select_set_non_blocked_impl :: "int \<Rightarrow> bool \<Rightarrow> unit io" where
  "select_set_non_blocked_impl sd opt =
     bindIO (syscall (SysFcntl sd ''F_GETFL'' 0)) (\<lambda>flags.
     let new_flags = (if opt then rc flags OR O_NONBLOCK else rc flags AND NOT O_NONBLOCK) in
     bindIO (syscall (SysFcntl sd ''F_SETFL'' new_flags)) (\<lambda>r.
     if rc r = - 1 then failIO (Throw ''make nonblocked: '') else returnIO ()))"

text \<open>The scan over the set of clients; \<open>clients\<close> is the whole set, the list the iterator's rest of it.\<close>

fun server_select_scan :: "char option \<Rightarrow> int list \<Rightarrow> int list \<Rightarrow> int list \<Rightarrow> int list io" where
  "server_select_scan oob ready clients [] = returnIO clients"
| "server_select_scan oob ready clients (fd # fds) =
     (if fd \<notin> set ready then server_select_scan oob ready clients fds
      else
        bindIO (syscall (SysRecv fd 1024)) (\<lambda>bytes_read.
        if rc bytes_read \<le> 0 then
          bindIO (syscall (SysClose fd)) (\<lambda>_.
          if remove1 fd clients = [] then returnIO []
          else failIO (Undefined UseAfterFree))
        else
          bindIO (liftE (strip_crlf oob (payload bytes_read))) (\<lambda>ret.
          bindIO (syscall (SysSend fd (ret @ '' from server'' @ lf))) (\<lambda>_.
          server_select_scan oob ready clients fds))))"

definition server_select_round :: "char option \<Rightarrow> int \<Rightarrow> int list \<Rightarrow> (int list + unit) io" where
  "server_select_round oob listener clients =
     (if \<not> list_all in_fd_set (listener # clients) then failIO (Undefined OutOfBoundsWrite)
      else
     bindIO (syscall (SysSelect (listener # clients) [])) (\<lambda>sel.
     if rc sel \<le> 0 then failIO (Exit 3)
     else
       let ready = filter (\<lambda>fd. fd \<in> set (listener # clients)) (marks sel) in
       bindIO
         (if listener \<in> set ready then
            bindIO (syscall (SysAccept listener)) (\<lambda>sock.
            if rc sock < 0 then failIO (Exit 3)
            else bindIO (select_set_non_blocked_impl (rc sock) True) (\<lambda>_. returnIO (List.insert (rc sock) clients)))
          else returnIO clients) (\<lambda>clients.
       bindIO (server_select_scan oob ready (sort clients) (sort clients)) (\<lambda>clients.
       returnIO (Inl clients)))))"

definition server_select_main :: "char option \<Rightarrow> string list \<Rightarrow> unit io" where
  "server_select_main oob args =
     bindIO (argv1 args) (\<lambda>arg.
     bindIO (liftE (stoi arg)) (\<lambda>port.
     bindIO (select_make_socket (word_of_int port)) (\<lambda>listener.
     bindIO (select_set_non_blocked_impl listener True) (\<lambda>_.
     loop_io (server_select_round oob listener) []))))"

section \<open>client.cpp\<close>

definition MESSAGE :: string where
  "MESSAGE = ''This is my first message!''"

definition write_to_server :: "int \<Rightarrow> unit io" where
  "write_to_server filedes =
     bindIO (syscall (SysWrite filedes (MESSAGE @ [CHR 0x00]))) (\<lambda>nbytes.
     if rc nbytes < 0 then failIO (Throw ''write failed: '') else returnIO ())"

definition read_from_server :: "char option \<Rightarrow> int \<Rightarrow> unit io" where
  "read_from_server oob filedes =
     bindIO (syscall (SysRecv filedes 1024)) (\<lambda>n.
     if rc n = - 1 \<and> err n \<noteq> EAGAIN then failIO (Throw ''read failed: '')
     else if rc n = 0 then failIO (Throw (''client: '' @ to_string filedes @ '' disconnected''))
     else if rc n = - 1 then failIO (Throw (''client: '' @ to_string filedes @ '' timeouted''))
     else bindIO (liftE (strip_crlf oob (payload n))) (\<lambda>_. returnIO ()))"

definition init_sockaddr :: "string \<Rightarrow> 16 word \<Rightarrow> (string \<times> nat) io" where
  "init_sockaddr hostname port =
     bindIO (syscall (SysResolve hostname)) (\<lambda>hostinfo.
     if rc hostinfo < 0 then failIO (Exit 1)
     else if length (payload hostinfo) < 4 then failIO (Undefined NullDeref)
     else returnIO (take 4 (payload hostinfo), unat port))"

definition client_main :: "char option \<Rightarrow> string list \<Rightarrow> int io" where
  "client_main oob args =
     (if length args \<noteq> 3 then returnIO 0
      else
        bindIO (syscall SysSocket) (\<lambda>sock.
        if rc sock < 0 then failIO (Exit 1)
        else
          bindIO (liftE (stoi (args ! 2))) (\<lambda>port.
          bindIO (init_sockaddr (args ! 1) (word_of_int port)) (\<lambda>(ip, p).
          bindIO (syscall (SysConnect (rc sock) ip p)) (\<lambda>r.
          if rc r < 0 then failIO (Exit 1)
          else
            bindIO (write_to_server (rc sock)) (\<lambda>_.
            bindIO (read_from_server oob (rc sock)) (\<lambda>_.
            bindIO (syscall (SysClose (rc sock))) (\<lambda>_.
            failIO (Exit 0)))))))))"

section \<open>Loops\<close>

lemma bindIO_if: "bindIO (if b then m else m') f = (if b then bindIO m f else bindIO m' f)"
  by simp

lemma helpers_agree:
  "poll_set_reuse_addr = set_reuse_addr" "select_set_reuse_addr = set_reuse_addr"
  "poll_set_non_blocked_impl = set_non_blocked_impl" "select_set_non_blocked_impl = set_non_blocked_impl"
  "select_make_socket = poll_make_socket"
  by (intro ext arg_cong2 [of _ _ _ _ bindIO],
      simp add: poll_set_reuse_addr_def select_set_reuse_addr_def set_reuse_addr_def
      poll_set_non_blocked_impl_def select_set_non_blocked_impl_def set_non_blocked_impl_def
      select_make_socket_def poll_make_socket_def bind_and_listen_def bindIO_assoc bindIO_if cong: if_cong)+

lemma shrinks_set_reuse_addr [shrinks_intros]: "shrinks (set_reuse_addr sd)"
  unfolding set_reuse_addr_def by (intro shrinks_intros)

lemma shrinks_set_non_blocked_impl [shrinks_intros]: "shrinks (set_non_blocked_impl sd opt)"
  unfolding set_non_blocked_impl_def Let_def by (intro shrinks_intros)

interpretation fork_echo_loop: sys_loop "fork_echo_round sock" for sock
  by unfold_locales (unfold fork_echo_round_def, intro progress_intros shrinks_intros)

interpretation fork_loop: sys_loop "fork_round listener" for listener
  by unfold_locales
    (unfold fork_round_def, intro progress_intros shrinks_intros fork_echo_loop.loop_shrinks)

lemma shrinks_server_poll_entry [shrinks_intros]: "shrinks (server_poll_entry oob l n p r)"
  unfolding server_poll_entry_def helpers_agree by (intro shrinks_intros)

lemma shrinks_server_poll_scan [shrinks_intros]: "shrinks (server_poll_scan oob l n ps)"
  by (induction oob l n ps rule: server_poll_scan.induct) (auto intro!: shrinks_intros)

interpretation server_poll_loop: sys_loop "server_poll_round oob l" for oob l
  by unfold_locales (unfold server_poll_round_def, intro progress_intros shrinks_intros)

lemma shrinks_server_select_scan [shrinks_intros]: "shrinks (server_select_scan oob ready clients fds)"
  by (induction oob ready clients fds rule: server_select_scan.induct) (auto intro!: shrinks_intros)

interpretation server_select_loop: sys_loop "server_select_round oob l" for oob l
  by unfold_locales (unfold server_select_round_def helpers_agree Let_def, intro progress_intros shrinks_intros)

section \<open>Connections accepted\<close>

definition is_accept :: "sys_call \<times> sys_ret \<Rightarrow> bool" where
  "is_accept e \<longleftrightarrow> (case fst e of SysAccept _ \<Rightarrow> True | _ \<Rightarrow> False)"

definition accepts :: "world \<Rightarrow> nat" where
  "accepts w = length (filter is_accept (trace w))"

lemma accepts_call [simp]: "accepts (after_call w rs e) = (if is_accept e then Suc (accepts w) else accepts w)"
  by (simp add: accepts_def)

lemma is_accept_simps [simp]:
  "is_accept (SysAccept fd, r)" "\<not> is_accept (SysSocket, r)" "\<not> is_accept (SysSetsockopt fd s, r)"
  "\<not> is_accept (SysClose fd, r)" "\<not> is_accept (SysBind fd p, r)" "\<not> is_accept (SysListen fd n, r)"
  "\<not> is_accept (SysFcntl fd s k, r)" "\<not> is_accept (SysRead fd m, r)" "\<not> is_accept (SysSend fd s, r)"
  "\<not> is_accept (SysPoll ps, r)"
  by (simp_all add: is_accept_def)

lemma server_poll_entry_wp:
  assumes "n = Suc (accepts w)" "n \<le> POLL_SIZE"
  shows "wp (server_poll_entry oob l n p rv)
    (\<lambda>x w'. n + length (snd x) = Suc (accepts w') \<and> n + length (snd x) \<le> POLL_SIZE)
    (\<lambda>_ _. True) (\<lambda>w'. accepts w' < POLL_SIZE) w"
  using assms
  by (auto simp: server_poll_entry_def helpers_agree set_non_blocked_impl_def Let_def wp_syscall
      simp del: norm_ret.simps split: list.splits sum.splits)

lemma server_poll_scan_wp:
  assumes "n = Suc (accepts w)" "n \<le> POLL_SIZE"
  shows "wp (server_poll_scan oob l n ps)
    (\<lambda>(ps', news) w'. length ps' = length ps \<and> n + length news = Suc (accepts w') \<and> Suc (accepts w') \<le> POLL_SIZE)
    (\<lambda>_ _. True) (\<lambda>w'. accepts w' < POLL_SIZE) w"
  using assms
proof (induction oob l n ps arbitrary: w rule: server_poll_scan.induct)
  case (1 oob l n)
  then show ?case by simp
next
  case (2 oob l n p rv ps)
  show ?case
    unfolding server_poll_scan.simps wp_bind [of "server_poll_entry oob l n p rv"]
  proof (rule wp_mono [OF server_poll_entry_wp [OF 2(2,3)]], goal_cases)
    case (1 x w1)
    obtain p' new where x: "x = (p', new)" by (cases x)
    with 1 have n': "n + length new = Suc (accepts w1)" "n + length new \<le> POLL_SIZE" by auto
    have "wp (server_poll_scan oob l (n + length new) ps)
      (\<lambda>(ps', news) w'. length ps' = length ps \<and> n + length new + length news = Suc (accepts w') \<and>
         Suc (accepts w') \<le> POLL_SIZE) (\<lambda>_ _. True) (\<lambda>w'. accepts w' < POLL_SIZE) w1"
      by (rule 2(1) [OF n'])
    then show ?case unfolding x prod.case wp_bind by (rule wp_mono) (auto split: prod.splits)
  qed auto
qed

lemma server_poll_round_wp:
  assumes "length fds = Suc (accepts w)" "length fds \<le> POLL_SIZE"
  shows "wp (server_poll_round oob l fds)
    (\<lambda>r w'. case r of Inl fds' \<Rightarrow> length fds' = Suc (accepts w') \<and> length fds' \<le> POLL_SIZE | Inr _ \<Rightarrow> False)
    (\<lambda>_ _. True) (\<lambda>w'. accepts w' < POLL_SIZE) w"
proof -
  have "wp (server_poll_scan oob l (length fds) (zip fds (revents_of (length fds) r)))
    (\<lambda>x w'. length (fst x) + length (snd x) = Suc (accepts w') \<and> length (fst x) + length (snd x) \<le> POLL_SIZE)
    (\<lambda>_ _. True) (\<lambda>w'. accepts w' < POLL_SIZE) w1" if "accepts w1 = accepts w" for r w1
    using assms that by (intro wp_mono [OF server_poll_scan_wp]) (auto simp: revents_of_def)
  then show ?thesis
    using assms
    by (auto simp: server_poll_round_def wp_syscall split_beta simp del: norm_ret.simps split: list.splits)
qed

section \<open>Properties\<close>

text \<open>
  C33: \<open>server_poll\<close> never takes an entry out of its array of 32: it can accept 31
  connections in its whole life, however many of them have been closed; the next one is written outside
  the array. On every behaviour of the kernel: whenever the server waits, at most 31
  connections have been accepted.
\<close>

theorem server_poll_lifetime:
  "wp (loop_io (server_poll_round oob l) [\<lparr>pf_fd = l, pf_events = POLLIN\<rparr>])
    (\<lambda>_ _. False) (\<lambda>_ _. True) (\<lambda>w. accepts w \<le> 31) \<lparr>script = rs, trace = []\<rparr> \<and>
   (length fds = POLL_SIZE \<and> hd fds = \<lparr>pf_fd = l, pf_events = ev\<rparr> \<and> 0 \<le> rc a \<longrightarrow>
    fst (run (server_poll_round oob l fds) [(ret 1)\<lparr>marks := [POLLIN]\<rparr>, a]) = Fail (Undefined OutOfBoundsWrite))"
proof (intro conjI impI)
  show "wp (loop_io (server_poll_round oob l) [\<lparr>pf_fd = l, pf_events = POLLIN\<rparr>])
    (\<lambda>_ _. False) (\<lambda>_ _. True) (\<lambda>w. accepts w \<le> 31) \<lparr>script = rs, trace = []\<rparr>"
    by (rule server_poll_loop.loop_wp [where I = "\<lambda>fds w. length fds = Suc (accepts w) \<and> length fds \<le> POLL_SIZE"])
      (auto simp: accepts_def intro: wp_mono [OF server_poll_round_wp])
next
  assume a: "length fds = POLL_SIZE \<and> hd fds = \<lparr>pf_fd = l, pf_events = ev\<rparr> \<and> 0 \<le> rc a"
  then obtain ps where "fds = \<lparr>pf_fd = l, pf_events = ev\<rparr> # ps" "length ps = 31" by (cases fds) auto
  then show "fst (run (server_poll_round oob l fds) [(ret 1)\<lparr>marks := [POLLIN]\<rparr>, a]) =
      Fail (Undefined OutOfBoundsWrite)"
    using a by (simp add: run_def server_poll_round_def bindIO_def syscall_Cons revents_of_def
        server_poll_entry_def failIO_def ret_def upt_rec)
qed

theorem server_poll_lifetime_witness:
  "fst (run (server_poll_round None 3 (replicate 32 \<lparr>pf_fd = 3, pf_events = POLLIN\<rparr>))
     [(ret 1)\<lparr>marks := [POLLIN]\<rparr>, ret 9]) = Fail (Undefined OutOfBoundsWrite)"
  using server_poll_lifetime [of None 3 "[]" "replicate 32 \<lparr>pf_fd = 3, pf_events = POLLIN\<rparr>" POLLIN "ret 9"]
  by (simp add: ret_def numeral_eq_Suc)

text \<open>
  C34: \<open>server_fork\<close> never serves anybody: \<open>make_socket\<close> ends in \<open>exit(EXIT_SUCCESS)\<close> where it
  should return the socket. Whatever the arguments and the kernel do, no \<open>accept\<close> and no
  \<open>fork\<close> is made, and with a port number and no failing call the program exits with code 0.
\<close>

theorem server_fork_never_accepts:
  "wp (server_fork_main args)
    (\<lambda>x w. x = 0 \<and> length args \<noteq> 2 \<and> trace w = [])
    (\<lambda>e w. accepts w = 0 \<and> (\<forall>r. (SysFork, r) \<notin> set (trace w)))
    (\<lambda>w. accepts w = 0 \<and> (\<forall>r. (SysFork, r) \<notin> set (trace w))) \<lparr>script = rs, trace = []\<rparr> \<and>
   run (server_fork_main [''server'', ''7777'']) [ret 3, ret 0, ret 0, ret 0] =
     (Fail (Exit 0), \<lparr>script = [], trace =
       [(SysSocket, ret 3), (SysSetsockopt 3 ''SO_REUSEADDR'', ret 0), (SysBind 3 7777, ret 0), (SysListen 3 3, ret 0)]\<rparr>)"
proof
  show "wp (server_fork_main args)
    (\<lambda>x w. x = 0 \<and> length args \<noteq> 2 \<and> trace w = [])
    (\<lambda>e w. accepts w = 0 \<and> (\<forall>r. (SysFork, r) \<notin> set (trace w)))
    (\<lambda>w. accepts w = 0 \<and> (\<forall>r. (SysFork, r) \<notin> set (trace w))) \<lparr>script = rs, trace = []\<rparr>"
    by (auto simp: server_fork_main_def fork_make_socket_def set_reuse_addr_def bind_and_listen_def wp_syscall
        accepts_def is_accept_def simp del: norm_ret.simps split: list.splits sum.splits)
  have "stoi ''7777'' = Inr 7777" by code_simp
  then show "run (server_fork_main [''server'', ''7777'']) [ret 3, ret 0, ret 0, ret 0] =
     (Fail (Exit 0), \<lparr>script = [], trace =
       [(SysSocket, ret 3), (SysSetsockopt 3 ''SO_REUSEADDR'', ret 0), (SysBind 3 7777, ret 0), (SysListen 3 3, ret 0)]\<rparr>)"
    by (simp add: server_fork_main_def run_def fork_make_socket_def set_reuse_addr_def bind_and_listen_def
        bindIO_def liftE_def syscall_Cons returnIO_def failIO_def ret_def)
qed

text \<open>
  in \<open>server_select\<close> a client that disconnects is erased from the set that the loop is
  going through. If it was the only client the loop is left and the set is empty; if
  others are connected the loop goes on with the iterator of the erased element, which is
  undefined, and so the server serves only one client at a time without a fault.
\<close>

theorem server_select_disconnect:
  assumes "sorted clients" "distinct clients" "fd \<in> set clients" "rc r \<le> 0" "payload r = []"
    and "set ready \<inter> set clients = {fd}"
  shows "fst (run (server_select_scan oob ready clients clients) [r, c]) =
    (if clients = [fd] then Ok [] else Fail (Undefined UseAfterFree))"
proof -
  have skip: "server_select_scan oob ready cs (xs @ ys) = server_select_scan oob ready cs ys"
    if "set ready \<inter> set xs = {}" for xs ys cs
    using that by (induction xs) auto
  obtain xs ys where c: "clients = xs @ fd # ys" using assms(3) by (auto simp: in_set_conv_decomp)
  with assms(2,6) have "set ready \<inter> set xs = {}" "fd \<in> set ready" by auto
  with skip [of xs clients "fd # ys"] c assms(2,4,5) show ?thesis
    by (auto simp: run_def bindIO_def syscall_Cons returnIO_def failIO_def count_ret_def remove1_append)
qed

theorem server_select_disconnect_witness:
  "fst (run (server_select_scan None [5] [4, 5, 6] [4, 5, 6]) [ret 0, ret 0]) = Fail (Undefined UseAfterFree)"
  using server_select_disconnect [of "[4, 5, 6]" 5 "ret 0" "[5]" None "ret 0"] by (simp add: ret_def)

text \<open>
  what \<open>make_socket\<close> of \<open>server_poll\<close> and \<open>server_select\<close> leaves open. When \<open>SO_REUSEADDR\<close> cannot be set, the
  descriptor is closed and used further: if the kernel then lets it bind and listen, a closed descriptor is returned.
\<close>

theorem make_socket_descriptors:
  "wp (poll_make_socket port)
     (\<lambda>sock w. 0 \<le> sock \<and> (open_fds w = {sock} \<or>
        open_fds w = {} \<and> (\<exists>r. rc r = - 1 \<and> (SysSetsockopt sock ''SO_REUSEADDR'', r) \<in> set (trace w))))
     (\<lambda>e w. e = Exit 1) (\<lambda>w. True) \<lparr>script = rs, trace = []\<rparr>"
  by (auto simp: poll_make_socket_def helpers_agree set_reuse_addr_def bind_and_listen_def wp_syscall open_fds_def
      split: list.splits)

end
