(* ===== verification/Cpp_Prog.thy ===== *)
theory Cpp_Prog
  imports Cpp_Prelude
begin

text \<open>
  Programs that print and that manage memory by hand: the demonstration programs of
  \<open>cmake_make_gtest_cppunit\<close> and of \<open>examples\<close>. A program is a function from the memory and
  the output so far to a result or an error, with the memory and the output at that point.
  Memory is a store of blocks: the number of a block is its position, a released block is an empty
  position. A pointer is null, or a block with an offset. A cell that was never written is \<open>None\<close>.
\<close>

section \<open>Programs\<close>

type_synonym pointer = "(nat \<times> int) option"

datatype cval = VChar char | VInt int | VDbl double | VPtr pointer

record mblock =
  mb_kind :: alloc_kind
  mb_cells :: "cval option list"

record cpp_world =
  cw_mem :: "mblock option list"
  cw_out :: "cout list"

type_synonym 'a prog = "cpp_world \<Rightarrow> (cpp_error + 'a) \<times> cpp_world"

definition returnP :: "'a \<Rightarrow> 'a prog" where
  "returnP x = (\<lambda>w. (Inr x, w))"

definition failP :: "cpp_error \<Rightarrow> 'a prog" where
  "failP e = (\<lambda>w. (Inl e, w))"

definition bindP :: "'a prog \<Rightarrow> ('a \<Rightarrow> 'b prog) \<Rightarrow> 'b prog" where
  "bindP m f = (\<lambda>w. case m w of (Inl e, w') \<Rightarrow> (Inl e, w') | (Inr x, w') \<Rightarrow> f x w')"

definition thenP :: "'a prog \<Rightarrow> 'b prog \<Rightarrow> 'b prog" where
  "thenP m n = bindP m (\<lambda>_. n)"

text \<open>\<open>try { m } catch (const std::exception& e) { h(e) }\<close>\<close>

definition catchP :: "'a prog \<Rightarrow> (string \<Rightarrow> 'a prog) \<Rightarrow> 'a prog" where
  "catchP m h = (\<lambda>w. case m w of (Inl (Throw msg), w') \<Rightarrow> h msg w' | r \<Rightarrow> r)"

text \<open>An object with the destructor \<open>fin\<close> goes out of scope after \<open>m\<close>, by an exception too.\<close>

definition finallyP :: "'a prog \<Rightarrow> unit prog \<Rightarrow> 'a prog" where
  "finallyP m fin = (\<lambda>w.
     case m w of
       (Inr x, w') \<Rightarrow> bindP fin (\<lambda>_. returnP x) w'
     | (Inl (Throw msg), w') \<Rightarrow> bindP fin (\<lambda>_. failP (Throw msg)) w'
     | r \<Rightarrow> r)"

definition liftP :: "cpp_error + 'a \<Rightarrow> 'a prog" where
  "liftP r = (\<lambda>w. (r, w))"

definition print :: "cout list \<Rightarrow> unit prog" where
  "print ts = (\<lambda>w. (Inr (), w\<lparr>cw_out := cw_out w @ ts\<rparr>))"

definition println :: "string \<Rightarrow> unit prog" where
  "println s = print [CStr s, CEndl]"

definition whenP :: "bool \<Rightarrow> unit prog \<Rightarrow> unit prog" where
  "whenP b m = (if b then m else returnP ())"

fun seqP :: "unit prog list \<Rightarrow> unit prog" where
  "seqP [] = returnP ()"
| "seqP (m # ms) = thenP m (seqP ms)"

definition start :: cpp_world where
  "start = \<lparr>cw_mem = [], cw_out = []\<rparr>"

section \<open>Memory\<close>

definition alloc :: "alloc_kind \<Rightarrow> nat \<Rightarrow> pointer prog" where
  "alloc kind n = (\<lambda>w.
     (Inr (Some (length (cw_mem w), 0)), w\<lparr>cw_mem := cw_mem w @ [Some \<lparr>mb_kind = kind, mb_cells = replicate n None\<rparr>]\<rparr>))"

definition block_at :: "cpp_world \<Rightarrow> pointer \<Rightarrow> cpp_error + nat \<times> int \<times> mblock" where
  "block_at w p =
     (case p of
        None \<Rightarrow> Inl (Undefined NullDeref)
      | Some (b, k) \<Rightarrow>
          if b < length (cw_mem w) then
            (case cw_mem w ! b of None \<Rightarrow> Inl (Undefined UseAfterFree) | Some blk \<Rightarrow> Inr (b, k, blk))
          else Inl (Undefined UseAfterFree))"

text \<open>\<open>p[i]\<close>, read and written.\<close>

definition load_cell :: "pointer \<Rightarrow> int \<Rightarrow> cval prog" where
  "load_cell p i = (\<lambda>w.
     (bindE (block_at w p) (\<lambda>(b, k, blk).
      bindE (read_int_index (mb_cells blk) (k + i)) (\<lambda>c.
      case c of None \<Rightarrow> Inl (Undefined UninitialisedRead) | Some v \<Rightarrow> Inr v)), w))"

definition store_cell :: "pointer \<Rightarrow> int \<Rightarrow> cval \<Rightarrow> unit prog" where
  "store_cell p i v = (\<lambda>w.
     case bindE (block_at w p) (\<lambda>(b, k, blk).
       bindE (write_int_index (mb_cells blk) (k + i) (Some v)) (\<lambda>cells. Inr (b, blk\<lparr>mb_cells := cells\<rparr>))) of
       Inl e \<Rightarrow> (Inl e, w)
     | Inr (b, blk) \<Rightarrow> (Inr (), w\<lparr>cw_mem := (cw_mem w)[b := Some blk]\<rparr>))"

text \<open>\<open>free\<close>, \<open>delete[]\<close> and \<open>delete\<close>: of a null pointer they do nothing.\<close>

definition dealloc :: "dealloc \<Rightarrow> pointer \<Rightarrow> unit prog" where
  "dealloc how p = (\<lambda>w.
     case p of
       None \<Rightarrow> (Inr (), w)
     | Some (b, k) \<Rightarrow>
         if b < length (cw_mem w) then
           (case cw_mem w ! b of
              None \<Rightarrow> (Inl (Undefined DoubleFree), w)
            | Some blk \<Rightarrow>
                if k = 0 \<and> release_matches (HeapRelease how (mb_kind blk))
                then (Inr (), w\<lparr>cw_mem := (cw_mem w)[b := None]\<rparr>)
                else (Inl (Undefined InvalidFree), w))
         else (Inl (Undefined InvalidFree), w))"

text \<open>\<open>++p\<close> and \<open>--p\<close> on a pointer.\<close>

definition ptr_add :: "pointer \<Rightarrow> int \<Rightarrow> pointer" where
  "ptr_add p n = map_option (\<lambda>(b, k). (b, k + n)) p"

definition live_blocks :: "cpp_world \<Rightarrow> nat set" where
  "live_blocks w = {b. b < length (cw_mem w) \<and> cw_mem w ! b \<noteq> None}"

text \<open>\<open>strcpy(dst, src)\<close> from a string literal or a \<open>std::string\<close>: the terminating NUL is written too.\<close>

fun strcpy_from :: "pointer \<Rightarrow> int \<Rightarrow> string \<Rightarrow> unit prog" where
  "strcpy_from dst i [] = store_cell dst i (VChar (CHR 0x00))"
| "strcpy_from dst i (c # cs) = thenP (store_cell dst i (VChar c)) (strcpy_from dst (i + 1) cs)"

text \<open>\<open>printf("%s", p)\<close>: the characters up to the first NUL.\<close>

fun c_chars :: "cval option list \<Rightarrow> cpp_error + string" where
  "c_chars [] = Inl (Undefined OutOfBoundsRead)"
| "c_chars (None # cs) = Inl (Undefined UninitialisedRead)"
| "c_chars (Some v # cs) =
     (case v of
        VChar c \<Rightarrow> if c = CHR 0x00 then Inr [] else bindE (c_chars cs) (\<lambda>s. Inr (c # s))
      | _ \<Rightarrow> Inl (Undefined UninitialisedRead))"

definition c_string :: "pointer \<Rightarrow> string prog" where
  "c_string p = (\<lambda>w.
     (bindE (block_at w p) (\<lambda>(b, k, blk).
      if k < 0 then Inl (Undefined OutOfBoundsRead) else c_chars (drop (nat k) (mb_cells blk))), w))"

section \<open>Lemmas\<close>

lemmas prog_defs = returnP_def failP_def bindP_def thenP_def catchP_def finallyP_def liftP_def print_def println_def
  whenP_def

lemma bindP_assoc: "bindP (bindP m f) g = bindP m (\<lambda>x. bindP (f x) g)"
  by (rule ext) (simp add: bindP_def split: prod.splits sum.splits)

lemma bindP_return [simp]: "bindP (returnP x) f = f x"
  by (simp add: bindP_def returnP_def)

lemma bindP_fail [simp]: "bindP (failP e) f = failP e"
  by (simp add: bindP_def failP_def)

lemma bindP_Inr: "m w = (Inr x, w') \<Longrightarrow> bindP m f w = f x w'"
  by (simp add: bindP_def)

lemma thenP_Inr: "m w = (Inr x, w') \<Longrightarrow> thenP m n w = n w'"
  by (simp add: thenP_def bindP_def)

lemma thenP_Inl: "m w = (Inl e, w') \<Longrightarrow> thenP m n w = (Inl e, w')"
  by (simp add: thenP_def bindP_def)

text \<open>The memory has grown by \<open>n\<close> live blocks, and nothing else in it has changed.\<close>

definition grown :: "nat \<Rightarrow> cpp_world \<Rightarrow> cpp_world \<Rightarrow> bool" where
  "grown n w w' \<longleftrightarrow> (\<exists>new. cw_mem w' = cw_mem w @ new \<and> length new = n \<and> None \<notin> set new)"

lemma grown_refl [simp]: "grown 0 w w"
  by (simp add: grown_def)

lemma grown_trans: "grown n w w1 \<Longrightarrow> grown k w1 w2 \<Longrightarrow> grown (n + k) w w2"
  unfolding grown_def by (elim exE conjE, rule_tac x = "new @ newa" in exI) auto

lemma live_blocks_grown:
  assumes "grown n w w'"
  shows "live_blocks w' = live_blocks w \<union> {length (cw_mem w)..<length (cw_mem w) + n}"
proof -
  from assms obtain new where new: "cw_mem w' = cw_mem w @ new" "length new = n" "None \<notin> set new"
    by (auto simp: grown_def)
  then have "new ! k \<noteq> None" if "k < n" for k using that by (metis nth_mem)
  then show ?thesis using new by (auto simp: live_blocks_def nth_append)
qed

lemma live_blocks_alloc [simp]:
  "live_blocks (snd (alloc kind n w)) = insert (length (cw_mem w)) (live_blocks w)"
  by (auto simp: live_blocks_def alloc_def nth_append less_Suc_eq)

lemma load_cell_ok:
  "b < length (cw_mem w) \<Longrightarrow> cw_mem w ! b = Some blk \<Longrightarrow> i < length (mb_cells blk) \<Longrightarrow> mb_cells blk ! i = Some v \<Longrightarrow>
   load_cell (Some (b, 0)) (int i) w = (Inr v, w)"
  by (simp add: load_cell_def block_at_def read_int_index_def)

lemma store_cell_ok:
  "b < length (cw_mem w) \<Longrightarrow> cw_mem w ! b = Some blk \<Longrightarrow> i < length (mb_cells blk) \<Longrightarrow>
   store_cell (Some (b, 0)) (int i) v w =
     (Inr (), w\<lparr>cw_mem := (cw_mem w)[b := Some (blk\<lparr>mb_cells := (mb_cells blk)[i := Some v]\<rparr>)]\<rparr>)"
  by (simp add: store_cell_def block_at_def write_int_index_def)

lemma store_cell_out:
  "b < length (cw_mem w) \<Longrightarrow> cw_mem w ! b = Some blk \<Longrightarrow> length (mb_cells blk) \<le> i \<Longrightarrow>
   store_cell (Some (b, 0)) (int i) v w = (Inl (Undefined OutOfBoundsWrite), w)"
  by (simp add: store_cell_def block_at_def write_int_index_def)

lemma c_chars_plain:
  "CHR 0x00 \<notin> set s \<Longrightarrow> c_chars (map (\<lambda>c. Some (VChar c)) s @ rest) = bindE (c_chars rest) (\<lambda>t. Inr (s @ t))"
proof (induction s)
  case (Cons c s)
  then show ?case by (cases "c_chars rest") auto
qed simp

text \<open>A string that fits is read back as it was copied.\<close>

lemma strcpy_from_ok:
  assumes "b < length (cw_mem w)" "cw_mem w ! b = Some blk" "i + length s < length (mb_cells blk)"
  shows "strcpy_from (Some (b, 0)) (int i) s w = (Inr (), w\<lparr>cw_mem := (cw_mem w)[b := Some (blk\<lparr>mb_cells :=
     take i (mb_cells blk) @ map (\<lambda>c. Some (VChar c)) (s @ [CHR 0x00]) @ drop (Suc (i + length s)) (mb_cells blk)\<rparr>)]\<rparr>)"
  using assms
proof (induction s arbitrary: i w blk)
  case Nil
  then show ?case by (simp add: store_cell_ok upd_conv_take_nth_drop)
next
  case (Cons c s)
  let ?blk = "blk\<lparr>mb_cells := (mb_cells blk)[i := Some (VChar c)]\<rparr>"
  let ?w = "w\<lparr>cw_mem := (cw_mem w)[b := Some ?blk]\<rparr>"
  have i: "i < length (mb_cells blk)" using Cons.prems(3) by simp
  have "strcpy_from (Some (b, 0)) (int (Suc i)) s ?w = (Inr (), ?w\<lparr>cw_mem := (cw_mem ?w)[b := Some (?blk\<lparr>mb_cells :=
     take (Suc i) (mb_cells ?blk) @ map (\<lambda>c. Some (VChar c)) (s @ [CHR 0x00]) @ drop (Suc (Suc i + length s)) (mb_cells ?blk)\<rparr>)]\<rparr>)"
    using Cons.prems by (intro Cons.IH) simp_all
  then show ?case
    using store_cell_ok [OF Cons.prems(1,2) i, of "VChar c"] i
    by (simp add: thenP_def bindP_def take_Suc_list_update add.commute)
qed

lemma strcpy_read_back:
  assumes "b < length (cw_mem w)" "cw_mem w ! b = Some blk" "length s < length (mb_cells blk)" "CHR 0x00 \<notin> set s"
  shows "\<exists>blk'. mb_kind blk' = mb_kind blk \<and>
    strcpy_from (Some (b, 0)) 0 s w = (Inr (), w\<lparr>cw_mem := (cw_mem w)[b := Some blk']\<rparr>) \<and>
    c_string (Some (b, 0)) (w\<lparr>cw_mem := (cw_mem w)[b := Some blk']\<rparr>) = (Inr s, w\<lparr>cw_mem := (cw_mem w)[b := Some blk']\<rparr>)"
proof -
  let ?cells = "map (\<lambda>c. Some (VChar c)) s @ Some (VChar (CHR 0x00)) # drop (Suc (length s)) (mb_cells blk)"
  have "c_chars ?cells = Inr s" using c_chars_plain [OF assms(4)] by simp
  then have "c_string (Some (b, 0)) (w\<lparr>cw_mem := (cw_mem w)[b := Some (blk\<lparr>mb_cells := ?cells\<rparr>)]\<rparr>) =
     (Inr s, w\<lparr>cw_mem := (cw_mem w)[b := Some (blk\<lparr>mb_cells := ?cells\<rparr>)]\<rparr>)"
    using assms(1) by (simp add: c_string_def block_at_def)
  moreover have "strcpy_from (Some (b, 0)) 0 s w = (Inr (), w\<lparr>cw_mem := (cw_mem w)[b := Some (blk\<lparr>mb_cells := ?cells\<rparr>)]\<rparr>)"
    using strcpy_from_ok [OF assms(1,2), of 0 s] assms(3) by simp
  ultimately show ?thesis by (intro exI [of _ "blk\<lparr>mb_cells := ?cells\<rparr>"]) simp
qed

end
