(* ===== verification/Ownership.thy ===== *)
theory Ownership
  imports Cpp_Prog
begin

text \<open>
  The examples on copying, moving and owning: \<open>examples/008\<close> (a class that owns a C string),
  \<open>014\<close> (move constructor), \<open>015\<close> (move assignment), \<open>016_assignment_via_constructor\<close> (a handle)
  and \<open>021\<close> (RAII). Where two names can mean the same object, the objects are in a list and an operation gets
  their positions.
\<close>

section \<open>008: a class that owns a C string\<close>

text \<open>An object of class \<open>A\<close> or \<open>B\<close> is its pointer \<open>s\<close>; \<open>new char[strlen(s)]\<close> has no room for the NUL.\<close>

definition A_ctor :: "string \<Rightarrow> pointer prog" where
  "A_ctor s =
     bindP (alloc NewArray (length s)) (\<lambda>p.
     thenP (println ''A()'')
     (thenP (strcpy_from p 0 s) (returnP p)))"

definition A_copy :: "pointer \<Rightarrow> pointer prog" where
  "A_copy a =
     bindP (c_string a) (\<lambda>s.
     bindP (A_ctor s) (\<lambda>p.
     thenP (println ''A(const &a)'') (returnP p)))"

definition A_dtor :: "pointer \<Rightarrow> unit prog" where
  "A_dtor s = thenP (println ''~A()'') (dealloc DeleteArray s)"

text \<open>\<open>A tmp(a); std::swap(this->s, tmp.s);\<close> and the end of \<open>tmp\<close>; the result is the new \<open>s\<close>.\<close>

definition A_assign :: "pointer \<Rightarrow> pointer \<Rightarrow> pointer prog" where
  "A_assign self a =
     thenP (println ''A &operator=(A &a)'')
     (bindP (A_copy a) (\<lambda>tmp.
      thenP (A_dtor self) (returnP tmp)))"

definition A_print :: "pointer \<Rightarrow> unit prog" where
  "A_print s = bindP (c_string s) (\<lambda>t. println t)"

definition B_ctor :: "string \<Rightarrow> pointer prog" where
  "B_ctor s =
     bindP (alloc NewArray (length s)) (\<lambda>p.
     thenP (println ''B()'')
     (thenP (strcpy_from p 0 s) (returnP p)))"

definition B_dtor :: "pointer \<Rightarrow> unit prog" where
  "B_dtor s = thenP (println ''~B()'') (dealloc DeleteArray s)"

text \<open>\<open>main\<close> up to \<open>C c(b1)\<close>, whose copy constructor is declared and not defined anywhere.\<close>

definition main_008 :: "unit prog" where
  "main_008 =
     bindP (A_ctor ''Hello'') (\<lambda>a1.
     thenP (A_print a1)
     (bindP (A_copy a1) (\<lambda>a2.
      thenP (A_print a2)
      (bindP (A_assign a2 a1) (\<lambda>a2.
       thenP (A_print a2)
       (bindP (B_ctor ''Hello'') (\<lambda>b1.
        thenP (A_print b1)
        (thenP (B_dtor b1) (thenP (A_dtor a2) (A_dtor a1))))))))))"

section \<open>014: move constructor\<close>

record alpha =
  al_sz :: nat
  al_d :: pointer

definition Alpha_ctor :: "alpha prog" where
  "Alpha_ctor = thenP (println ''Alpha()'') (returnP \<lparr>al_sz = 0, al_d = None\<rparr>)"

definition Alpha_dtor :: "alpha \<Rightarrow> unit prog" where
  "Alpha_dtor a = thenP (println ''~Alpha()'') (dealloc DeleteArray (al_d a))"

text \<open>\<open>for (i = 0; i < sz; ++i) d[i] = a.d[i];\<close> over the indices that are left.\<close>

fun copy_doubles :: "pointer \<Rightarrow> pointer \<Rightarrow> nat list \<Rightarrow> unit prog" where
  "copy_doubles d s [] = returnP ()"
| "copy_doubles d s (i # is) =
     bindP (load_cell s (int i)) (\<lambda>v. thenP (store_cell d (int i) v) (copy_doubles d s is))"

definition Alpha_copy :: "alpha \<Rightarrow> alpha prog" where
  "Alpha_copy a =
     thenP (println ''Alpha(const Alpha &a)'')
     (bindP (alloc NewArray (al_sz a)) (\<lambda>d.
      thenP (copy_doubles d (al_d a) [0..<al_sz a])
      (returnP \<lparr>al_sz = al_sz a, al_d = d\<rparr>)))"

text \<open>The move constructor: the new object and what is left of the old one.\<close>

definition Alpha_move :: "alpha \<Rightarrow> (alpha \<times> alpha) prog" where
  "Alpha_move a =
     thenP (println ''Alpha(Alpha &&a)'')
     (returnP (\<lparr>al_sz = al_sz a, al_d = al_d a\<rparr>, a\<lparr>al_d := None, al_sz := 0\<rparr>))"

text \<open>\<open>return arg\<close> moves the parameter into the result; then the parameter is destroyed.\<close>

definition foo :: "alpha \<Rightarrow> alpha prog" where
  "foo arg =
     bindP (Alpha_move arg) (\<lambda>(res, arg').
     thenP (Alpha_dtor arg') (returnP res))"

definition bar :: "alpha \<Rightarrow> unit prog" where
  "bar arg = Alpha_dtor arg"

text \<open>\<open>main\<close>; the result of a call that is not used is destroyed at once.\<close>

definition main_014 :: "unit prog" where
  "main_014 =
     thenP (println ''Alpha alp1 = foo(Alpha())'')
     (bindP Alpha_ctor (\<lambda>arg. bindP (foo arg) (\<lambda>alp1.
      thenP (println ''foo(alp1)'')
      (bindP (Alpha_copy alp1) (\<lambda>arg. bindP (foo arg) (\<lambda>res. thenP (Alpha_dtor res)
      (thenP (println ''foo(std::move(alp1))'')
      (bindP (Alpha_move alp1) (\<lambda>(arg, alp1). bindP (foo arg) (\<lambda>res. thenP (Alpha_dtor res)
      (thenP (println ''Alpha alp2 = alp1'')
      (bindP (Alpha_copy alp1) (\<lambda>alp2.
      thenP (println ''Alpha alp3(alp1)'')
      (bindP (Alpha_copy alp1) (\<lambda>alp3.
      thenP (println ''Alpha alp4 = std::move(alp1)'')
      (bindP (Alpha_move alp1) (\<lambda>(alp4, alp1).
      thenP (println ''Alpha alp5(std::move(alp1))'')
      (bindP (Alpha_move alp1) (\<lambda>(alp5, alp1).
      thenP (println ''bar(alp2)'')
      (bindP (Alpha_copy alp2) (\<lambda>arg. thenP (bar arg)
      (thenP (println ''bar(std::move(alp2))'')
      (bindP (Alpha_move alp2) (\<lambda>(arg, alp2). thenP (bar arg)
      (thenP (println ''end of scope'')
      (thenP (Alpha_dtor alp5) (thenP (Alpha_dtor alp4) (thenP (Alpha_dtor alp3)
      (thenP (Alpha_dtor alp2) (Alpha_dtor alp1))))))))))))))))))))))))))))))"

text \<open>
  What a program can do with objects of the class: the objects that exist and the memory, and the four
  special members.
\<close>

inductive alpha_step :: "alpha list \<times> cpp_world \<Rightarrow> alpha list \<times> cpp_world \<Rightarrow> bool" where
  construct: "Alpha_ctor w = (Inr a, w') \<Longrightarrow> alpha_step (as, w) (as @ [a], w')"
| copy: "i < length as \<Longrightarrow> Alpha_copy (as ! i) w = (Inr a, w') \<Longrightarrow> alpha_step (as, w) (as @ [a], w')"
| move: "i < length as \<Longrightarrow> Alpha_move (as ! i) w = (Inr (a, b), w') \<Longrightarrow> alpha_step (as, w) (as[i := b] @ [a], w')"
| destroy: "Alpha_dtor a w = (Inr (), w') \<Longrightarrow> alpha_step (bs @ a # cs, w) (bs @ cs, w')"

inductive_cases alpha_step_cases: "alpha_step s s'"

inductive alpha_reach :: "alpha list \<times> cpp_world \<Rightarrow> bool" where
  none_yet: "alpha_reach ([], start)"
| one_more: "alpha_reach s \<Longrightarrow> alpha_step s s' \<Longrightarrow> alpha_reach s'"

section \<open>015: move assignment\<close>

text \<open>An object of class \<open>Beta\<close> is its \<open>msg\<close>; \<open>moved\<close> is what a move leaves of a string.\<close>

definition Beta_from_string :: "string \<Rightarrow> string prog" where
  "Beta_from_string s = thenP (println ''Beta(std::string)'') (returnP s)"

definition Beta_ctor :: "string prog" where
  "Beta_ctor = thenP (println ''Beta()'') (returnP [])"

definition Beta_copy :: "string \<Rightarrow> string prog" where
  "Beta_copy b = thenP (println ''Beta(const Beta&)'') (returnP [])"

definition Beta_move :: "string \<Rightarrow> string prog" where
  "Beta_move b = thenP (println ''Beta(Beta &&b)'') (returnP [])"

definition Beta_assign :: "string \<Rightarrow> string \<Rightarrow> string prog" where
  "Beta_assign self b = thenP (println ''operator=(Beta const &)'') (returnP b)"

definition Beta_move_assign :: "(string \<Rightarrow> string) \<Rightarrow> string \<Rightarrow> string \<Rightarrow> (string \<times> string) prog" where
  "Beta_move_assign moved self rhs = thenP (println ''operator=(Beta &&)'') (returnP (rhs, moved rhs))"

definition main_015 :: "(string \<Rightarrow> string) \<Rightarrow> unit prog" where
  "main_015 moved =
     bindP (Beta_from_string ''Per aspera ad astra'') (\<lambda>beta.
     bindP Beta_ctor (\<lambda>gamma.
     bindP (Beta_assign gamma beta) (\<lambda>gamma.
     bindP (Beta_move_assign moved gamma beta) (\<lambda>(gamma, beta).
     print [CStr gamma, CEndl, CStr beta, CEndl]))))"

section \<open>016: assignment via constructor\<close>

text \<open>
  The handles of the objects of class \<open>T\<close>, and the log of the calls of \<open>release\<close>, whose body
  is empty. \<open>acquire\<close> always gives the null handle.
\<close>

record handles =
  h_objs :: "pointer list"
  h_released :: "pointer list"

definition acquire :: "string \<Rightarrow> pointer" where
  "acquire name = None"

definition release_handle :: "handles \<Rightarrow> pointer \<Rightarrow> handles" where
  "release_handle h r = h\<lparr>h_released := h_released h @ [r]\<rparr>"

definition T_ctor :: "handles \<Rightarrow> string \<Rightarrow> handles prog" where
  "T_ctor h name = thenP (println ''T()'') (returnP (h\<lparr>h_objs := h_objs h @ [acquire name]\<rparr>))"

definition T_dtor :: "handles \<Rightarrow> pointer \<Rightarrow> handles prog" where
  "T_dtor h p = thenP (println ''~T()'') (returnP (release_handle h p))"

text \<open>\<open>T(T &&rhs)\<close> from the object at \<open>j\<close>: the handle of the new object, and the objects with \<open>rhs\<close> emptied.\<close>

definition T_move :: "handles \<Rightarrow> nat \<Rightarrow> (pointer \<times> handles) prog" where
  "T_move h j =
     thenP (println ''T(T &&)'')
     (returnP (h_objs h ! j, h\<lparr>h_objs := (h_objs h)[j := None]\<rparr>))"

definition T_move_assign :: "handles \<Rightarrow> nat \<Rightarrow> nat \<Rightarrow> handles prog" where
  "T_move_assign h i j =
     thenP (println ''T &operator(T &&)'')
     (bindP (T_move h j) (\<lambda>(copy, h).
      let handle = h_objs h ! i; h = h\<lparr>h_objs := (h_objs h)[i := copy]\<rparr> in
      T_dtor h handle))"

text \<open>\<open>main\<close>: \<open>a\<close> is object 0 and \<open>b\<close> object 1; they are destroyed in the reverse order.\<close>

definition main_016 :: "handles prog" where
  "main_016 =
     bindP (T_ctor \<lparr>h_objs = [], h_released = []\<rparr> ''string'') (\<lambda>h.
     bindP (T_move h 0) (\<lambda>(b, h).
     bindP (T_move_assign (h\<lparr>h_objs := h_objs h @ [b]\<rparr>) 1 0) (\<lambda>h.
     thenP (println ''end of scope'')
     (bindP (T_dtor h (h_objs h ! 1)) (\<lambda>h. T_dtor h (h_objs h ! 0))))))"

section \<open>021: RAII\<close>

text \<open>\<open>cond()\<close> on the number that \<open>rand\<close> gives.\<close>

definition cond :: "int \<Rightarrow> bool" where
  "cond r \<longleftrightarrow> r mod 2 = 0"

definition logic :: "pointer \<Rightarrow> unit prog" where
  "logic s = returnP ()"

definition bad :: "int \<Rightarrow> unit prog" where
  "bad r =
     thenP (println ''ALLOCATION'')
     (bindP (alloc NewArray 10) (\<lambda>str.
      if cond r then thenP (println ''EMERGENCY RETURN'') (println ''LEAK :-('')
      else
        thenP (logic str)
        (thenP (println ''CLEANING'') (dealloc DeleteArray str))))"

definition RAII_str_ctor :: "pointer \<Rightarrow> pointer prog" where
  "RAII_str_ctor str = thenP (println ''ALLOCATION'') (thenP (println ''RAII_str()'') (returnP str))"

definition RAII_str_dtor :: "pointer \<Rightarrow> unit prog" where
  "RAII_str_dtor str =
     thenP (println ''~RAII_str()'') (thenP (println ''CLEANING'') (dealloc DeleteArray str))"

definition RAII_str_getStr :: "pointer \<Rightarrow> pointer" where
  "RAII_str_getStr str = str"

definition good :: "int \<Rightarrow> unit prog" where
  "good r =
     bindP (alloc NewArray 10) (\<lambda>p.
     bindP (RAII_str_ctor p) (\<lambda>raii.
     finallyP
       (if cond r then println ''EMERGENCY RETURN'' else logic (RAII_str_getStr raii))
       (RAII_str_dtor raii)))"

definition main_021 :: "int \<Rightarrow> int \<Rightarrow> unit prog" where
  "main_021 r1 r2 = thenP (bad r1) (good r2)"

section \<open>Blocks and their owners\<close>

lemma strcpy_from_overruns:
  assumes "b < length (cw_mem w)" "cw_mem w ! b = Some blk" "length (mb_cells blk) \<le> i + length cs"
  shows "fst (strcpy_from (Some (b, 0)) (int i) cs w) = Inl (Undefined OutOfBoundsWrite)"
  using assms
proof (induction cs arbitrary: i w blk)
  case Nil
  then show ?case by (simp add: store_cell_out)
next
  case (Cons c cs)
  show ?case
  proof (cases "i < length (mb_cells blk)")
    case True
    let ?blk = "blk\<lparr>mb_cells := (mb_cells blk)[i := Some (VChar c)]\<rparr>"
    have "fst (strcpy_from (Some (b, 0)) (int (Suc i)) cs (w\<lparr>cw_mem := (cw_mem w)[b := Some ?blk]\<rparr>)) =
        Inl (Undefined OutOfBoundsWrite)"
      using Cons.prems by (intro Cons.IH [of _ ?blk]) simp_all
    then show ?thesis
      using store_cell_ok [OF Cons.prems(1,2) True, of "VChar c"] by (simp add: thenP_def bindP_def add.commute)
  next
    case False
    with store_cell_out [OF Cons.prems(1,2)] show ?thesis by (simp add: thenP_def bindP_def)
  qed
qed

definition owned :: "alpha list \<Rightarrow> nat list" where
  "owned as = concat (map (\<lambda>a. case al_d a of None \<Rightarrow> [] | Some p \<Rightarrow> [fst p]) as)"

text \<open>An object has no block, or a block of \<open>new[]\<close> with \<open>sz\<close> numbers.\<close>

definition alpha_ok :: "cpp_world \<Rightarrow> alpha \<Rightarrow> bool" where
  "alpha_ok w a \<longleftrightarrow>
     (case al_d a of
        None \<Rightarrow> al_sz a = 0
      | Some p \<Rightarrow> snd p = 0 \<and> fst p < length (cw_mem w) \<and>
          (\<exists>blk. cw_mem w ! fst p = Some blk \<and> mb_kind blk = NewArray \<and> length (mb_cells blk) = al_sz a \<and>
             None \<notin> set (mb_cells blk)))"

definition own_ok :: "alpha list \<times> cpp_world \<Rightarrow> bool" where
  "own_ok s \<longleftrightarrow> distinct (owned (fst s)) \<and> set (owned (fst s)) = live_blocks (snd s) \<and>
     (\<forall>a \<in> set (fst s). alpha_ok (snd s) a)"

lemma owned_append [simp]: "owned (as @ bs) = owned as @ owned bs"
  by (simp add: owned_def)

lemma owned_Cons [simp]: "owned (a # as) = (case al_d a of None \<Rightarrow> [] | Some p \<Rightarrow> [fst p]) @ owned as"
  by (simp add: owned_def)

lemma owned_Nil [simp]: "owned [] = []"
  by (simp add: owned_def)

lemma owned_member: "a \<in> set as \<Longrightarrow> al_d a = Some p \<Longrightarrow> fst p \<in> set (owned as)"
  by (cases p, induction as) auto

lemma out_irrelevant [simp]:
  "live_blocks (w\<lparr>cw_out := x\<rparr>) = live_blocks w" "alpha_ok (w\<lparr>cw_out := x\<rparr>) a = alpha_ok w a"
  by (simp_all add: live_blocks_def alpha_ok_def split: option.split)

lemma copy_doubles_ok:
  assumes "s < length (cw_mem w)" "cw_mem w ! s = Some sb" "None \<notin> set (mb_cells sb)" "length (mb_cells sb) = n"
    and "d < length (cw_mem w)" "cw_mem w ! d = Some db" "d \<noteq> s" "length (mb_cells db) = n"
    and "k \<le> n" "take k (mb_cells db) = take k (mb_cells sb)"
  shows "copy_doubles (Some (d, 0)) (Some (s, 0)) [k..<n] w =
    (Inr (), w\<lparr>cw_mem := (cw_mem w)[d := Some (db\<lparr>mb_cells := mb_cells sb\<rparr>)]\<rparr>)"
  using assms
proof (induction "n - k" arbitrary: k w db)
  case 0
  then have "db\<lparr>mb_cells := mb_cells sb\<rparr> = db" by simp
  with 0 have "(cw_mem w)[d := Some (db\<lparr>mb_cells := mb_cells sb\<rparr>)] = cw_mem w" by (metis list_update_id)
  with 0 show ?case by (simp add: returnP_def)
next
  case (Suc m)
  then have k: "k < n" by simp
  then obtain v where v: "mb_cells sb ! k = Some v"
    using Suc.prems(3,4) by (metis not_None_eq nth_mem)
  let ?db = "db\<lparr>mb_cells := (mb_cells db)[k := Some v]\<rparr>"
  let ?w = "w\<lparr>cw_mem := (cw_mem w)[d := Some ?db]\<rparr>"
  have "copy_doubles (Some (d, 0)) (Some (s, 0)) [Suc k..<n] ?w =
      (Inr (), ?w\<lparr>cw_mem := (cw_mem ?w)[d := Some (?db\<lparr>mb_cells := mb_cells sb\<rparr>)]\<rparr>)"
    using Suc.prems k v Suc.hyps(2) by (intro Suc.hyps(1)) (auto simp: take_Suc_conv_app_nth)
  moreover have "load_cell (Some (s, 0)) (int k) w = (Inr v, w)"
    using Suc.prems k v by (intro load_cell_ok) auto
  moreover have "store_cell (Some (d, 0)) (int k) v w = (Inr (), ?w)"
    using Suc.prems k by (intro store_cell_ok) auto
  ultimately show ?case
    using k by (simp add: upt_conv_Cons bindP_def thenP_def)
qed

text \<open>What the four special members do from a state in which every block has its owner.\<close>

lemma alpha_ok_other:
  assumes "alpha_ok w a" "\<And>p. al_d a = Some p \<Longrightarrow> fst p < length (cw_mem w) \<Longrightarrow> cw_mem w' ! fst p = cw_mem w ! fst p"
    "length (cw_mem w) \<le> length (cw_mem w')"
  shows "alpha_ok w' a"
  using assms by (auto simp: alpha_ok_def split: option.splits)

lemma Alpha_copy_ok:
  assumes "own_ok (as, w)" "a \<in> set as"
  shows "\<exists>c w'. Alpha_copy a w = (Inr c, w') \<and> own_ok (as @ [c], w') \<and> al_sz c = al_sz a"
proof -
  let ?n = "al_sz a" and ?b = "length (cw_mem w)"
  let ?w = "w\<lparr>cw_out := cw_out w @ [CStr ''Alpha(const Alpha &a)'', CEndl],
              cw_mem := cw_mem w @ [Some \<lparr>mb_kind = NewArray, mb_cells = replicate ?n None\<rparr>]\<rparr>"
  have ok: "alpha_ok w a" "distinct (owned as)" "set (owned as) = live_blocks w" "\<forall>a \<in> set as. alpha_ok w a"
    using assms by (auto simp: own_ok_def)
  obtain cells where cells: "length cells = ?n" "None \<notin> set cells"
    "copy_doubles (Some (?b, 0)) (al_d a) [0..<?n] ?w =
       (Inr (), ?w\<lparr>cw_mem := cw_mem w @ [Some \<lparr>mb_kind = NewArray, mb_cells = cells\<rparr>]\<rparr>)"
  proof (cases "al_d a")
    case None
    with ok(1) have "?n = 0" by (simp add: alpha_ok_def)
    then show ?thesis by (intro that [of "[]"]) (simp_all add: returnP_def)
  next
    case (Some p)
    with ok(1) obtain s blk where s: "p = (s, 0)" "s < ?b" "cw_mem w ! s = Some blk"
      "length (mb_cells blk) = ?n" "None \<notin> set (mb_cells blk)"
      by (cases p) (auto simp: alpha_ok_def)
    have "copy_doubles (Some (?b, 0)) (Some (s, 0)) [0..<?n] ?w =
       (Inr (), ?w\<lparr>cw_mem := (cw_mem ?w)[?b := Some (\<lparr>mb_kind = NewArray, mb_cells = replicate ?n None\<rparr>
          \<lparr>mb_cells := mb_cells blk\<rparr>)]\<rparr>)"
      by (rule copy_doubles_ok) (use s in \<open>simp_all add: nth_append\<close>)
    with s show ?thesis by (intro that [of "mb_cells blk"]) (simp_all add: Some)
  qed
  let ?c = "\<lparr>al_sz = ?n, al_d = Some (?b, 0)\<rparr>"
  let ?w' = "?w\<lparr>cw_mem := cw_mem w @ [Some \<lparr>mb_kind = NewArray, mb_cells = cells\<rparr>]\<rparr>"
  have "Alpha_copy a w = (Inr ?c, ?w')"
    using cells(3) by (simp add: Alpha_copy_def thenP_def bindP_def println_def print_def alloc_def returnP_def)
  moreover have "live_blocks ?w' = insert ?b (live_blocks w)" "?b \<notin> live_blocks w"
    by (auto simp: live_blocks_def nth_append less_Suc_eq)
  moreover have "alpha_ok ?w' x" if "alpha_ok w x" for x
    using that by (rule alpha_ok_other) (simp_all add: nth_append)
  moreover have "alpha_ok ?w' ?c" using cells(1,2) by (simp add: alpha_ok_def)
  ultimately show ?thesis using ok by (auto simp: own_ok_def)
qed

lemma Alpha_move_ok:
  assumes "own_ok (as, w)" "i < length as"
  shows "\<exists>c b w'. Alpha_move (as ! i) w = (Inr (c, b), w') \<and> own_ok (as[i := b] @ [c], w') \<and> al_sz c = al_sz (as ! i)"
proof -
  obtain xs ys where split: "as = xs @ as ! i # ys" "length xs = i"
    using assms(2) by (metis id_take_nth_drop length_take min_less_iff_conj min.absorb2 less_imp_le)
  have upd: "as[i := b] = xs @ b # ys" for b using split by (metis list_update_length)
  define a where "a = as ! i"
  have own: "own_ok (xs @ a # ys, w)" using assms(1) split unfolding a_def by simp
  have "alpha_ok w \<lparr>al_sz = 0, al_d = None\<rparr>" by (simp add: alpha_ok_def)
  then have "own_ok ((xs @ a\<lparr>al_d := None, al_sz := 0\<rparr> # ys) @ [\<lparr>al_sz = al_sz a, al_d = al_d a\<rparr>],
      w\<lparr>cw_out := cw_out w @ [CStr ''Alpha(Alpha &&a)'', CEndl]\<rparr>)"
    using own by (cases a) (auto simp: own_ok_def split: option.splits)
  then show ?thesis
    unfolding upd a_def [symmetric]
    by (simp add: Alpha_move_def thenP_def bindP_def println_def print_def returnP_def)
qed

lemma Alpha_dtor_ok:
  assumes "own_ok (bs @ a # cs, w)"
  shows "\<exists>w'. Alpha_dtor a w = (Inr (), w') \<and> own_ok (bs @ cs, w')"
proof (cases "al_d a")
  case None
  with assms show ?thesis
    by (auto simp: own_ok_def Alpha_dtor_def dealloc_def thenP_def bindP_def println_def print_def)
next
  case (Some p)
  with assms obtain b blk where b: "p = (b, 0)" "b < length (cw_mem w)" "cw_mem w ! b = Some blk" "mb_kind blk = NewArray"
    by (cases p) (auto simp: own_ok_def alpha_ok_def)
  let ?w = "w\<lparr>cw_mem := (cw_mem w)[b := None], cw_out := cw_out w @ [CStr ''~Alpha()'', CEndl]\<rparr>"
  have run: "Alpha_dtor a w = (Inr (), ?w)"
    using Some b by (simp add: Alpha_dtor_def dealloc_def thenP_def bindP_def println_def print_def)
  have live: "live_blocks ?w = live_blocks w - {b}"
    using b(2) by (auto simp: live_blocks_def nth_list_update split: if_splits)
  have "distinct (owned bs @ b # owned cs)" "set (owned bs @ b # owned cs) = live_blocks w"
    using assms Some b(1) by (auto simp: own_ok_def)
  then have set: "distinct (owned (bs @ cs))" "set (owned (bs @ cs)) = live_blocks ?w" unfolding live by auto
  have "alpha_ok ?w x" if "x \<in> set (bs @ cs)" for x
  proof (rule alpha_ok_other)
    show "alpha_ok w x" using assms that by (auto simp: own_ok_def)
    fix q assume q: "al_d x = Some q"
    then have "fst q \<in> set (owned (bs @ cs))" using that by (rule owned_member [rotated])
    with set(2) live have "fst q \<noteq> b" by auto
    then show "cw_mem ?w ! fst q = cw_mem w ! fst q" by simp
  qed simp
  with set run show ?thesis by (auto simp: own_ok_def)
qed

section \<open>Properties\<close>

lemma alpha_reach_ok: "alpha_reach s \<Longrightarrow> own_ok s"
proof (induction rule: alpha_reach.induct)
  case none_yet
  show ?case by (simp add: own_ok_def start_def live_blocks_def)
next
  case (one_more s s')
  from one_more.hyps(2) one_more.IH show ?case
  proof (cases rule: alpha_step.cases)
    case (construct w a w' as)
    moreover have "alpha_ok v \<lparr>al_sz = 0, al_d = None\<rparr>" for v by (simp add: alpha_ok_def)
    ultimately show ?thesis
      using one_more.IH by (auto simp: Alpha_ctor_def thenP_def bindP_def println_def print_def returnP_def own_ok_def)
  next
    case (copy i as w a w')
    with one_more.IH Alpha_copy_ok [of as w "as ! i"] show ?thesis by auto
  next
    case (move i as w a b w')
    with one_more.IH Alpha_move_ok [of as w i] show ?thesis by auto
  next
    case (destroy a w w' bs cs)
    with one_more.IH Alpha_dtor_ok [of bs a cs w] show ?thesis by auto
  qed
qed

text \<open>
  C16: whatever a program does with objects of class \<open>Alpha\<close> (construct, copy, move, destroy, in any order), every
  live block has exactly one owner, copying and destroying never fail (no double \<open>delete\<close>, no read of
  a moved-from object's memory), and when all objects are destroyed no block is left.
\<close>

theorem Alpha_ownership:
  assumes "alpha_reach (as, w)"
  shows "distinct (owned as) \<and> set (owned as) = live_blocks w \<and>
    (\<forall>i < length as. (\<exists>c w'. Alpha_copy (as ! i) w = (Inr c, w')) \<and> (\<exists>w'. Alpha_dtor (as ! i) w = (Inr (), w'))) \<and>
    (as = [] \<longrightarrow> live_blocks w = {})"
proof -
  have own: "own_ok (as, w)" using alpha_reach_ok [OF assms] .
  have "\<exists>w'. Alpha_dtor (as ! i) w = (Inr (), w')" if "i < length as" for i
    using Alpha_dtor_ok [of "take i as" "as ! i" "drop (Suc i) as" w] own id_take_nth_drop [OF that] by auto
  moreover have "\<exists>c w'. Alpha_copy (as ! i) w = (Inr c, w')" if "i < length as" for i
    using Alpha_copy_ok [OF own, of "as ! i"] that by auto
  ultimately show ?thesis using own by (auto simp: own_ok_def)
qed

theorem Alpha_ownership_witness:
  "\<exists>w. alpha_reach ([\<lparr>al_sz = 0, al_d = None\<rparr>, \<lparr>al_sz = 0, al_d = Some (0, 0)\<rparr>], w) \<and> live_blocks w = {0}"
proof -
  let ?a = "\<lparr>al_sz = 0, al_d = None\<rparr>"
  obtain w1 where w1: "Alpha_ctor start = (Inr ?a, w1)" "cw_mem w1 = []"
    by (simp add: Alpha_ctor_def thenP_def bindP_def println_def print_def returnP_def start_def)
  obtain w2 where "Alpha_copy ?a w1 = (Inr \<lparr>al_sz = 0, al_d = Some (0, 0)\<rparr>, w2)"
    using w1(2) by (simp add: Alpha_copy_def thenP_def bindP_def println_def print_def returnP_def alloc_def)
  with w1 have "alpha_reach ([?a, \<lparr>al_sz = 0, al_d = Some (0, 0)\<rparr>], w2)"
    using one_more [OF one_more [OF none_yet construct] copy, of ?a w1 0 "\<lparr>al_sz = 0, al_d = Some (0, 0)\<rparr>" w2] by simp
  with Alpha_ownership [OF this] show ?thesis by (auto simp: owned_def)
qed

text \<open>
  The program of the example: it runs without a fault, destroys every object that it makes
  and leaves no block.
\<close>

lemma say_step: "bindP (println s) m \<lparr>cw_mem = mem, cw_out = t\<rparr> = m () \<lparr>cw_mem = mem, cw_out = t @ [CStr s, CEndl]\<rparr>"
  by (simp add: bindP_def println_def print_def)

lemma Alpha_steps:
  "bindP Alpha_ctor f \<lparr>cw_mem = mem, cw_out = t\<rparr> =
     f \<lparr>al_sz = 0, al_d = None\<rparr> \<lparr>cw_mem = mem, cw_out = t @ [CStr ''Alpha()'', CEndl]\<rparr>"
  "bindP (Alpha_move \<lparr>al_sz = n, al_d = d\<rparr>) g \<lparr>cw_mem = mem, cw_out = t\<rparr> =
     g (\<lparr>al_sz = n, al_d = d\<rparr>, \<lparr>al_sz = 0, al_d = None\<rparr>) \<lparr>cw_mem = mem, cw_out = t @ [CStr ''Alpha(Alpha &&a)'', CEndl]\<rparr>"
  "bindP (Alpha_copy \<lparr>al_sz = 0, al_d = d\<rparr>) f \<lparr>cw_mem = mem, cw_out = t\<rparr> =
     f \<lparr>al_sz = 0, al_d = Some (length mem, 0)\<rparr>
       \<lparr>cw_mem = mem @ [Some \<lparr>mb_kind = NewArray, mb_cells = []\<rparr>], cw_out = t @ [CStr ''Alpha(const Alpha &a)'', CEndl]\<rparr>"
  "Alpha_dtor \<lparr>al_sz = n, al_d = None\<rparr> \<lparr>cw_mem = mem, cw_out = t\<rparr> =
     (Inr (), \<lparr>cw_mem = mem, cw_out = t @ [CStr ''~Alpha()'', CEndl]\<rparr>)"
  "bindP (Alpha_dtor \<lparr>al_sz = n, al_d = None\<rparr>) h \<lparr>cw_mem = mem, cw_out = t\<rparr> =
     h () \<lparr>cw_mem = mem, cw_out = t @ [CStr ''~Alpha()'', CEndl]\<rparr>"
  "b < length mem \<Longrightarrow> mem ! b = Some \<lparr>mb_kind = NewArray, mb_cells = cs\<rparr> \<Longrightarrow>
   bindP (Alpha_dtor \<lparr>al_sz = n, al_d = Some (b, 0)\<rparr>) h \<lparr>cw_mem = mem, cw_out = t\<rparr> =
     h () \<lparr>cw_mem = mem[b := None], cw_out = t @ [CStr ''~Alpha()'', CEndl]\<rparr>"
  by (simp_all add: Alpha_ctor_def Alpha_move_def Alpha_copy_def Alpha_dtor_def returnP_def bindP_def
      thenP_def println_def print_def alloc_def dealloc_def)

lemma foo_step: "bindP (foo a) f = bindP (Alpha_move a) (\<lambda>x. bindP (Alpha_dtor (snd x)) (\<lambda>_. f (fst x)))"
  by (simp add: foo_def thenP_def bindP_assoc split_beta)

theorem main_014_clean:
  "fst (main_014 start) = Inr () \<and> list_all (\<lambda>b. b = None) (cw_mem (snd (main_014 start))) \<and>
   length (filter (\<lambda>t. t = CStr ''~Alpha()'') (cw_out (snd (main_014 start)))) =
   length (filter (\<lambda>t. t \<in> {CStr ''Alpha()'', CStr ''Alpha(const Alpha &a)'', CStr ''Alpha(Alpha &&a)''})
     (cw_out (snd (main_014 start))))"
  unfolding main_014_def start_def thenP_def bar_def foo_step
  by (simp add: say_step Alpha_steps)

text \<open>
  move assignment through the move constructor, for every pair of objects: the target gets the
  handle of the source, the source is emptied and the old handle of the target is released, once. An
  object that is assigned to itself keeps its handle.
\<close>

theorem T_move_assign_handles:
  assumes "i < length (h_objs h)" "j < length (h_objs h)"
  shows "\<exists>w'. T_move_assign h i j w =
     (Inr \<lparr>h_objs = (if i = j then h_objs h else (h_objs h)[j := None, i := h_objs h ! j]),
           h_released = h_released h @ [if i = j then None else h_objs h ! i]\<rparr>, w') \<and>
   mset (h_objs h @ h_released h) + {#None#} =
     mset ((if i = j then h_objs h else (h_objs h)[j := None, i := h_objs h ! j]) @
       h_released h @ [if i = j then None else h_objs h ! i])"
proof (cases "i = j")
  case True
  with assms show ?thesis
    by (simp add: T_move_assign_def T_move_def T_dtor_def release_handle_def thenP_def bindP_def println_def print_def
        returnP_def Let_def)
next
  case False
  define xs where "xs = h_objs h"
  have l: "i < length xs" "j < length xs" using assms unfolding xs_def by auto
  let ?ys = "xs[i := xs ! j, j := xs ! i]"
  have "xs[j := None, i := xs ! j] = ?ys[j := None]" using l False by (simp add: list_update_swap)
  moreover have "mset ?ys = mset xs" "?ys ! j = xs ! i" using l by (simp_all add: mset_swap)
  moreover have "xs ! i \<in># mset xs" using l(1) by simp
  ultimately have "mset (xs[j := None, i := xs ! j]) + {#xs ! i#} = mset xs + {#None#}"
    using l(2) by (simp add: mset_update)
  then show ?thesis
    using l False unfolding xs_def
    by (simp add: T_move_assign_def T_move_def T_dtor_def release_handle_def thenP_def bindP_def println_def print_def
        returnP_def Let_def)
qed

text \<open>Two objects with the handles 7 and 9; the first is assigned from the second.\<close>

theorem T_move_assign_handles_witness:
  "\<exists>w'. T_move_assign \<lparr>h_objs = [Some (7, 0), Some (9, 0)], h_released = []\<rparr> 0 1 start =
     (Inr \<lparr>h_objs = [Some (9, 0), None], h_released = [Some (7, 0)]\<rparr>, w')"
  using T_move_assign_handles [of 0 "\<lparr>h_objs = [Some (7, 0), Some (9, 0)], h_released = []\<rparr>" 1 start] by auto

text \<open>
  \<open>021\<close>: the emergency return of \<open>bad\<close> loses the block, \<open>good\<close> returns it on both ways.
\<close>

theorem RAII_no_leak:
  "(\<exists>w'. bad r w = (Inr (), w') \<and>
     live_blocks w' = (if cond r then insert (length (cw_mem w)) (live_blocks w) else live_blocks w)) \<and>
   (\<exists>w'. good r w = (Inr (), w') \<and> live_blocks w' = live_blocks w)"
  by (auto simp: bad_def good_def logic_def RAII_str_ctor_def RAII_str_dtor_def prog_defs alloc_def dealloc_def
      live_blocks_def nth_append less_Suc_eq split: if_splits)

text \<open>
  \<open>008\<close>: the constructor reserves \<open>strlen(s)\<close> bytes and copies one more, so that
  no object of class \<open>A\<close> or \<open>B\<close> can be made without writing outside its block.
\<close>

theorem A_ctor_overruns:
  "fst (A_ctor s w) = Inl (Undefined OutOfBoundsWrite)" "fst (B_ctor s w) = Inl (Undefined OutOfBoundsWrite)"
proof -
  let ?w = "\<lambda>m. w\<lparr>cw_mem := cw_mem w @ [Some \<lparr>mb_kind = NewArray, mb_cells = replicate (length s) None\<rparr>],
    cw_out := cw_out w @ [CStr m, CEndl]\<rparr>"
  have "fst (strcpy_from (Some (length (cw_mem w), 0)) (int 0) s (?w m)) = Inl (Undefined OutOfBoundsWrite)" for m
    by (rule strcpy_from_overruns [of _ _ "\<lparr>mb_kind = NewArray, mb_cells = replicate (length s) None\<rparr>"]) simp_all
  from this [of "''A()''"] this [of "''B()''"]
  show "fst (A_ctor s w) = Inl (Undefined OutOfBoundsWrite)" "fst (B_ctor s w) = Inl (Undefined OutOfBoundsWrite)"
    by (auto simp: A_ctor_def B_ctor_def thenP_def bindP_def println_def print_def alloc_def split: prod.splits sum.splits)
qed

end
