(* ===== verification/Singleton.thy ===== *)
theory Singleton
  imports Cpp_Prog
begin

text \<open>
  \<open>examples/007_private_constructor.cpp\<close>: the singleton on a pointer, the singleton on a static
  local variable, and the template with double-checked locking. The objects of the first two are
  counters in a list, with deleted ones as empty positions. The template is called by threads that
  interleave between the accesses to \<open>atomic_instance_\<close> and to the mutex.
\<close>

section \<open>BadSingleton and GoodSingleton\<close>

record singletons =
  sg_instance :: "nat option"
  sg_objs :: "int option list"
  sg_out :: "cout list"

type_synonym 'a sg = "singletons \<Rightarrow> (cpp_error + 'a) \<times> singletons"

definition bindS :: "'a sg \<Rightarrow> ('a \<Rightarrow> 'b sg) \<Rightarrow> 'b sg" where
  "bindS m f = (\<lambda>s. case m s of (Inl e, s') \<Rightarrow> (Inl e, s') | (Inr x, s') \<Rightarrow> f x s')"

definition sayS :: "cout list \<Rightarrow> unit sg" where
  "sayS ts = (\<lambda>s. (Inr (), s\<lparr>sg_out := sg_out s @ ts\<rparr>))"

definition countS :: "nat \<Rightarrow> int sg" where
  "countS p = (\<lambda>s.
     (if p < length (sg_objs s)
      then (case sg_objs s ! p of None \<Rightarrow> Inl (Undefined UseAfterFree) | Some c \<Rightarrow> Inr c)
      else Inl (Undefined UseAfterFree), s))"

text \<open>\<open>new BadSingleton()\<close>; the constructor prints before it returns.\<close>

definition BadSingleton_new :: "nat sg" where
  "BadSingleton_new =
     bindS (sayS [CStr ''BadSingleton()'', CEndl]) (\<lambda>_ s.
       (Inr (length (sg_objs s)), s\<lparr>sg_objs := sg_objs s @ [Some 0]\<rparr>))"

definition BadSingleton_getInstance :: "nat sg" where
  "BadSingleton_getInstance = (\<lambda>s.
     case sg_instance s of
       None \<Rightarrow> bindS BadSingleton_new (\<lambda>p s. (Inr p, s\<lparr>sg_instance := Some p\<rparr>)) s
     | Some p \<Rightarrow> (Inr p, s))"

definition singleton_inc :: "nat \<Rightarrow> unit sg" where
  "singleton_inc p =
     bindS (countS p) (\<lambda>c s.
       case int_incr c of
         Inl e \<Rightarrow> (Inl e, s)
       | Inr c' \<Rightarrow> (Inr (), s\<lparr>sg_objs := (sg_objs s)[p := Some c']\<rparr>))"

text \<open>\<open>print\<close> shows the static pointer and the count; \<open>show_ptr\<close> is how the stream prints a pointer.\<close>

definition BadSingleton_print :: "(nat option \<Rightarrow> string) \<Rightarrow> nat \<Rightarrow> unit sg" where
  "BadSingleton_print show_ptr p =
     bindS (countS p) (\<lambda>c s. sayS [CStr (show_ptr (sg_instance s)), CStr '' '', CInt c, CEndl] s)"

definition BadSingleton_delete :: "nat \<Rightarrow> unit sg" where
  "BadSingleton_delete p =
     bindS (countS p) (\<lambda>_.
     bindS (sayS [CStr ''~BadSingleton()'', CEndl]) (\<lambda>_ s.
       (Inr (), s\<lparr>sg_instance := None, sg_objs := (sg_objs s)[p := None]\<rparr>)))"

text \<open>
  The private copy constructors, which print and leave the count of the new object unset (\<open>junk\<close> is what is in its memory), and the
  private assignments, which print, assign nothing and return their argument. Nothing in the file calls them.
\<close>

definition singleton_copy :: "string \<Rightarrow> int \<Rightarrow> nat \<Rightarrow> nat sg" where
  "singleton_copy text junk s0 =
     bindS (sayS [CStr text, CEndl]) (\<lambda>_ s. (Inr (length (sg_objs s)), s\<lparr>sg_objs := sg_objs s @ [Some junk]\<rparr>))"

definition BadSingleton_copy :: "int \<Rightarrow> nat \<Rightarrow> nat sg" where
  "BadSingleton_copy = singleton_copy ''BadSingleton(const BadSingleton &s)''"

definition BadSingleton_assign :: "nat \<Rightarrow> nat \<Rightarrow> nat sg" where
  "BadSingleton_assign self s0 = bindS (sayS [CStr ''BadSingleton &operator='', CEndl]) (\<lambda>_ s. (Inr s0, s))"

definition GoodSingleton_copy :: "int \<Rightarrow> nat \<Rightarrow> nat sg" where
  "GoodSingleton_copy = singleton_copy ''GoodSingleton(const BetterSingleron &s)''"

definition GoodSingleton_assign :: "nat \<Rightarrow> nat \<Rightarrow> nat sg" where
  "GoodSingleton_assign self s0 = bindS (sayS [CStr ''GoodSingleton &operator='', CEndl]) (\<lambda>_ s. (Inr s0, s))"

definition GoodSingleton_new :: "nat sg" where
  "GoodSingleton_new =
     bindS (sayS [CStr ''GoodSingleton()'', CEndl]) (\<lambda>_ s.
       (Inr (length (sg_objs s)), s\<lparr>sg_objs := sg_objs s @ [Some 0]\<rparr>))"

definition GoodSingleton_dtor :: "unit sg" where
  "GoodSingleton_dtor = sayS [CStr ''~GoodSingleton()'', CEndl]"

text \<open>
  \<open>static GoodSingleton _instance\<close> is made on the first call; here \<open>sg_instance\<close> says whether it has been.
\<close>

definition GoodSingleton_getInstance :: "nat sg" where
  "GoodSingleton_getInstance = (\<lambda>s.
     case sg_instance s of
       None \<Rightarrow>
         bindS GoodSingleton_new (\<lambda>p s. (Inr p, s\<lparr>sg_instance := Some p\<rparr>)) s
     | Some p \<Rightarrow> (Inr p, s))"

definition GoodSingleton_print :: "nat \<Rightarrow> unit sg" where
  "GoodSingleton_print p = bindS (countS p) (\<lambda>c. sayS [CInt c, CEndl])"

text \<open>The two halves of \<open>main\<close>, each with its own state; the destructor of the static object runs at the end.\<close>

definition main_007_bad :: "(nat option \<Rightarrow> string) \<Rightarrow> unit sg" where
  "main_007_bad show_ptr =
     bindS BadSingleton_getInstance (\<lambda>s11.
     bindS BadSingleton_getInstance (\<lambda>s12.
     bindS (singleton_inc s11) (\<lambda>_. bindS (singleton_inc s11) (\<lambda>_. bindS (singleton_inc s11) (\<lambda>_.
     bindS (BadSingleton_print show_ptr s11) (\<lambda>_. bindS (BadSingleton_print show_ptr s12) (\<lambda>_.
     bindS (singleton_inc s12) (\<lambda>_. bindS (singleton_inc s12) (\<lambda>_.
     bindS (BadSingleton_print show_ptr s12) (\<lambda>_. bindS (BadSingleton_print show_ptr s11) (\<lambda>_.
     bindS BadSingleton_getInstance (\<lambda>p. bindS (BadSingleton_print show_ptr p) (\<lambda>_.
     bindS BadSingleton_getInstance (\<lambda>p. BadSingleton_delete p))))))))))))))"

definition main_007_good :: "unit sg" where
  "main_007_good =
     bindS GoodSingleton_getInstance (\<lambda>s21.
     bindS GoodSingleton_getInstance (\<lambda>s22.
     bindS (singleton_inc s21) (\<lambda>_. bindS (singleton_inc s21) (\<lambda>_. bindS (singleton_inc s21) (\<lambda>_.
     bindS (GoodSingleton_print s21) (\<lambda>_. bindS (GoodSingleton_print s22) (\<lambda>_.
     bindS (singleton_inc s22) (\<lambda>_. bindS (singleton_inc s22) (\<lambda>_.
     bindS (GoodSingleton_print s22) (\<lambda>_. bindS (GoodSingleton_print s21) (\<lambda>_.
     bindS GoodSingleton_getInstance (\<lambda>p. bindS (GoodSingleton_print p) (\<lambda>_.
     GoodSingleton_dtor)))))))))))))"

section \<open>Double-checked locking\<close>

text \<open>Where a thread is in \<open>GetInstance\<close>; an instance is the number of the \<open>new Type\<close> that made it.\<close>

datatype pc =
    FirstLoad
  | WantLock
  | SecondLoad
  | Create
  | Publish nat
  | Unlock nat
  | Returned nat

record dcl =
  dc_instance :: "nat option"
  dc_lock :: "nat option"
  dc_created :: nat
  dc_pc :: "nat \<Rightarrow> pc"

definition goto :: "nat \<Rightarrow> pc \<Rightarrow> dcl \<Rightarrow> dcl" where
  "goto t p s = s\<lparr>dc_pc := (dc_pc s)(t := p)\<rparr>"

text \<open>One access of thread \<open>t\<close>; \<open>None\<close> when it waits for the mutex or has returned.\<close>

definition GetInstance_step :: "nat \<Rightarrow> dcl \<Rightarrow> dcl option" where
  "GetInstance_step t s =
     (case dc_pc s t of
        FirstLoad \<Rightarrow>
          Some (goto t (case dc_instance s of None \<Rightarrow> WantLock | Some x \<Rightarrow> Returned x) s)
      | WantLock \<Rightarrow> if dc_lock s = None then Some (goto t SecondLoad (s\<lparr>dc_lock := Some t\<rparr>)) else None
      | SecondLoad \<Rightarrow>
          Some (goto t (case dc_instance s of None \<Rightarrow> Create | Some x \<Rightarrow> Unlock x) s)
      | Create \<Rightarrow> Some (goto t (Publish (dc_created s)) (s\<lparr>dc_created := Suc (dc_created s)\<rparr>))
      | Publish x \<Rightarrow> Some (goto t (Unlock x) (s\<lparr>dc_instance := Some x\<rparr>))
      | Unlock x \<Rightarrow> Some (goto t (Returned x) (s\<lparr>dc_lock := None\<rparr>))
      | Returned x \<Rightarrow> None)"

definition dcl_start :: dcl where
  "dcl_start = \<lparr>dc_instance = None, dc_lock = None, dc_created = 0, dc_pc = (\<lambda>_. FirstLoad)\<rparr>"

inductive dcl_reach :: "dcl \<Rightarrow> bool" where
  dcl_init: "dcl_reach dcl_start"
| dcl_more: "dcl_reach s \<Longrightarrow> GetInstance_step t s = Some s' \<Longrightarrow> dcl_reach s'"

fun dcl_run :: "nat list \<Rightarrow> dcl \<Rightarrow> dcl" where
  "dcl_run [] s = s"
| "dcl_run (t # ts) s = dcl_run ts (case GetInstance_step t s of None \<Rightarrow> s | Some s' \<Rightarrow> s')"

section \<open>The invariant\<close>

fun holds_lock :: "pc \<Rightarrow> bool" where
  "holds_lock SecondLoad = True"
| "holds_lock Create = True"
| "holds_lock (Publish x) = True"
| "holds_lock (Unlock x) = True"
| "holds_lock _ = False"

text \<open>What a thread knows at its place.\<close>

definition knows :: "dcl \<Rightarrow> pc \<Rightarrow> bool" where
  "knows s p \<longleftrightarrow>
     (case p of
        SecondLoad \<Rightarrow> dc_instance s = None \<longrightarrow> dc_created s = 0
      | Create \<Rightarrow> dc_instance s = None \<and> dc_created s = 0
      | Publish x \<Rightarrow> dc_instance s = None \<and> dc_created s = 1 \<and> x = 0
      | Unlock x \<Rightarrow> dc_instance s = Some x
      | Returned x \<Rightarrow> dc_instance s = Some x
      | _ \<Rightarrow> True)"

definition dcl_inv :: "dcl \<Rightarrow> bool" where
  "dcl_inv s \<longleftrightarrow>
     (\<forall>t. holds_lock (dc_pc s t) \<longleftrightarrow> dc_lock s = Some t) \<and>
     (\<forall>t. knows s (dc_pc s t)) \<and>
     (\<forall>x. dc_instance s = Some x \<longrightarrow> x = 0 \<and> dc_created s = 1) \<and>
     (dc_lock s = None \<longrightarrow> dc_instance s = None \<longrightarrow> dc_created s = 0)"

lemma dcl_inv_start: "dcl_inv dcl_start"
  by (simp add: dcl_inv_def dcl_start_def knows_def)

lemma knows_other:
  assumes "knows s p" "\<not> holds_lock p" "\<And>x. dc_instance s = Some x \<Longrightarrow> dc_instance s' = Some x"
  shows "knows s' p"
  using assms by (cases p) (auto simp: knows_def)

text \<open>A step of thread \<open>t\<close> that leaves the rest to be shown about the thread itself and the shared variables.\<close>

lemma dcl_inv_goto:
  assumes inv: "dcl_inv s"
    and pcs: "dc_pc s' = (dc_pc s)(t := p)"
    and lock: "dc_lock s' = (if holds_lock p then Some t else if holds_lock (dc_pc s t) then None else dc_lock s)"
    and free: "\<not> holds_lock (dc_pc s t) \<Longrightarrow> holds_lock p \<Longrightarrow> dc_lock s = None"
    and keep: "\<And>x. dc_instance s = Some x \<Longrightarrow> dc_instance s' = Some x"
    and same: "\<not> holds_lock (dc_pc s t) \<Longrightarrow> dc_instance s' = dc_instance s \<and> dc_created s' = dc_created s"
    and knows: "knows s' p"
    and inst: "\<And>x. dc_instance s' = Some x \<Longrightarrow> x = 0 \<and> dc_created s' = 1"
    and quiet: "dc_lock s' = None \<Longrightarrow> dc_instance s' = None \<Longrightarrow> dc_created s' = 0"
  shows "dcl_inv s'"
proof -
  have l: "holds_lock (dc_pc s u) \<longleftrightarrow> dc_lock s = Some u" for u using inv by (simp add: dcl_inv_def)
  have "knows s' (dc_pc s' u)" for u
  proof (cases "u = t")
    case True
    with knows pcs show ?thesis by simp
  next
    case False
    have k: "knows s (dc_pc s u)" using inv by (simp add: dcl_inv_def)
    show ?thesis
    proof (cases "holds_lock (dc_pc s t)")
      case True
      with l False have "\<not> holds_lock (dc_pc s u)" by auto
      with k keep False pcs show ?thesis by (auto intro: knows_other)
    next
      case nt: False
      with k same False pcs show ?thesis by (auto simp: knows_def split: pc.splits)
    qed
  qed
  moreover have "holds_lock (dc_pc s' u) \<longleftrightarrow> dc_lock s' = Some u" for u
    using l [of u] l [of t] lock free pcs by (cases "u = t") auto
  ultimately show ?thesis using inst quiet by (simp add: dcl_inv_def)
qed

lemma dcl_inv_step:
  assumes inv: "dcl_inv s" and step: "GetInstance_step t s = Some s'"
  shows "dcl_inv s'"
proof -
  have l: "holds_lock (dc_pc s t) \<longleftrightarrow> dc_lock s = Some t" and k: "knows s (dc_pc s t)"
    and i: "\<And>x. dc_instance s = Some x \<Longrightarrow> x = 0 \<and> dc_created s = 1"
    and q: "dc_lock s = None \<Longrightarrow> dc_instance s = None \<Longrightarrow> dc_created s = 0"
    using inv by (simp_all add: dcl_inv_def)
  obtain p where p: "dc_pc s' = (dc_pc s)(t := p)"
    using step by (auto simp: GetInstance_step_def goto_def split: pc.splits if_splits)
  then have p': "dc_pc s' t = p" by simp
  show ?thesis
    by (rule dcl_inv_goto [OF inv p])
      (use step l k i q p' in \<open>auto simp: GetInstance_step_def goto_def knows_def split: pc.splits if_splits option.splits\<close>)
qed

lemma dcl_reach_inv: "dcl_reach s \<Longrightarrow> dcl_inv s"
  by (induction rule: dcl_reach.induct) (auto intro: dcl_inv_start dcl_inv_step)

lemma dcl_run_reach: "dcl_reach s \<Longrightarrow> dcl_reach (dcl_run ts s)"
proof (induction ts s rule: dcl_run.induct)
  case (2 t ts s)
  then show ?case by (cases "GetInstance_step t s") (auto dest: dcl_more)
qed simp

lemma dcl_run_append: "dcl_run (ts @ us) s = dcl_run us (dcl_run ts s)"
  by (induction ts s rule: dcl_run.induct) auto

text \<open>A thread that has the mutex comes to its end, and gives the mutex back.\<close>

lemma holder_returns:
  assumes "holds_lock (dc_pc s u)"
  shows "\<exists>ts x. dc_pc (dcl_run ts s) u = Returned x \<and> dc_lock (dcl_run ts s) = None"
proof -
  have unlock: "\<exists>ts x. dc_pc (dcl_run ts s) u = Returned x \<and> dc_lock (dcl_run ts s) = None"
    if "dc_pc s u = Unlock y" for s y
    using that by (intro exI [of _ "[u]"]) (simp add: GetInstance_step_def goto_def)
  have publish: "\<exists>ts x. dc_pc (dcl_run ts s) u = Returned x \<and> dc_lock (dcl_run ts s) = None"
    if "dc_pc s u = Publish y" for s y
    using that by (intro exI [of _ "[u, u]"]) (simp add: GetInstance_step_def goto_def)
  have create: "\<exists>ts x. dc_pc (dcl_run ts s) u = Returned x \<and> dc_lock (dcl_run ts s) = None"
    if "dc_pc s u = Create" for s
    using that by (intro exI [of _ "[u, u, u]"]) (simp add: GetInstance_step_def goto_def)
  have "\<exists>ts x. dc_pc (dcl_run ts s) u = Returned x \<and> dc_lock (dcl_run ts s) = None"
    if second: "dc_pc s u = SecondLoad"
  proof (cases "dc_instance s")
    case None
    with second show ?thesis by (intro exI [of _ "[u, u, u, u]"]) (simp add: GetInstance_step_def goto_def)
  next
    case (Some y)
    with second show ?thesis by (intro exI [of _ "[u, u]"]) (simp add: GetInstance_step_def goto_def)
  qed
  with unlock publish create assms show ?thesis by (cases "dc_pc s u") auto
qed

lemma waiter_returns:
  assumes "dc_lock s = None" "\<not> holds_lock (dc_pc s t)"
  shows "\<exists>ts x. dc_pc (dcl_run ts s) t = Returned x"
proof -
  have want: "\<exists>ts x. dc_pc (dcl_run ts s) t = Returned x" if "dc_pc s t = WantLock" "dc_lock s = None" for s
  proof -
    let ?s = "dcl_run [t] s"
    have "holds_lock (dc_pc ?s t)" using that by (simp add: GetInstance_step_def goto_def)
    with holder_returns [of ?s t] obtain ts x where "dc_pc (dcl_run ts ?s) t = Returned x" by blast
    then have "dc_pc (dcl_run ([t] @ ts) s) t = Returned x" unfolding dcl_run_append .
    then show ?thesis by blast
  qed
  have "\<exists>ts x. dc_pc (dcl_run ts s) t = Returned x" if first: "dc_pc s t = FirstLoad"
  proof (cases "dc_instance s")
    case None
    let ?s = "dcl_run [t] s"
    have "dc_pc ?s t = WantLock" "dc_lock ?s = None"
      using first None assms(1) by (simp_all add: GetInstance_step_def goto_def)
    with want [of ?s] obtain ts x where "dc_pc (dcl_run ts ?s) t = Returned x" by blast
    then have "dc_pc (dcl_run ([t] @ ts) s) t = Returned x" unfolding dcl_run_append .
    then show ?thesis by blast
  next
    case (Some y)
    with first show ?thesis by (intro exI [of _ "[t]"]) (simp add: GetInstance_step_def goto_def)
  qed
  moreover have "\<exists>ts x. dc_pc (dcl_run ts s) t = Returned x" if "dc_pc s t = Returned y" for y
    using that by (intro exI [of _ "[]"]) simp
  ultimately show ?thesis using want [OF _ assms(1)] assms(2) by (cases "dc_pc s t") auto
qed

section \<open>Properties\<close>

text \<open>
  C5: under every interleaving of any number of threads, double-checked locking makes at most one
  object, and every thread that has returned has got that object, the published one. No state is stuck: from
  every reachable state every thread can still be brought to its return.
\<close>

theorem double_checked_locking:
  assumes "dcl_reach s"
  shows "dc_created s \<le> 1 \<and>
    (\<forall>t x. dc_pc s t = Returned x \<longrightarrow> dc_instance s = Some x \<and> dc_created s = 1) \<and>
    (\<forall>t. \<exists>ts x. dc_pc (dcl_run ts s) t = Returned x)"
proof (intro conjI allI impI)
  have inv: "dcl_inv s" using dcl_reach_inv [OF assms] .
  then have k: "knows s (dc_pc s t)" for t by (simp add: dcl_inv_def)
  have lock: "holds_lock (dc_pc s t) \<longleftrightarrow> dc_lock s = Some t" for t using inv by (simp add: dcl_inv_def)
  have inst: "dc_instance s = Some x \<Longrightarrow> x = 0 \<and> dc_created s = 1" for x using inv by (simp add: dcl_inv_def)
  show "dc_created s \<le> 1"
  proof (cases "dc_lock s")
    case None
    with inv show ?thesis by (cases "dc_instance s") (auto simp: dcl_inv_def)
  next
    case (Some t)
    then have "holds_lock (dc_pc s t)" using lock by blast
    with k [of t] inst show ?thesis by (cases "dc_pc s t"; cases "dc_instance s") (auto simp: knows_def)
  qed
  fix t x assume "dc_pc s t = Returned x"
  with k [of t] inst show "dc_instance s = Some x" "dc_created s = 1" by (auto simp: knows_def)
next
  fix t
  have inv: "dcl_inv s" using dcl_reach_inv [OF assms] .
  show "\<exists>ts x. dc_pc (dcl_run ts s) t = Returned x"
  proof (cases "dc_lock s")
    case None
    then have "\<not> holds_lock (dc_pc s t)" using inv by (simp add: dcl_inv_def)
    with None show ?thesis by (rule waiter_returns)
  next
    case (Some u)
    then have "holds_lock (dc_pc s u)" using inv by (simp add: dcl_inv_def)
    then obtain ts where ts: "dc_lock (dcl_run ts s) = None" using holder_returns by blast
    have "dcl_inv (dcl_run ts s)" using dcl_reach_inv [OF dcl_run_reach [OF assms]] .
    with ts have "\<not> holds_lock (dc_pc (dcl_run ts s) t)" by (simp add: dcl_inv_def)
    with ts waiter_returns obtain us x where "dc_pc (dcl_run us (dcl_run ts s)) t = Returned x" by blast
    then show ?thesis unfolding dcl_run_append [symmetric] by blast
  qed
qed

theorem double_checked_locking_witness:
  "dc_created (dcl_run [0, 1, 0, 1, 0, 0, 0, 0, 1, 1, 1] dcl_start) \<le> 1 \<and>
   dc_pc (dcl_run [0, 1, 0, 1, 0, 0, 0, 0, 1, 1, 1] dcl_start) 0 = Returned 0 \<and>
   dc_pc (dcl_run [0, 1, 0, 1, 0, 0, 0, 0, 1, 1, 1] dcl_start) 1 = Returned 0"
  using double_checked_locking [OF dcl_run_reach [OF dcl_init, of "[0, 1, 0, 1, 0, 0, 0, 0, 1, 1, 1]"]]
  by (simp add: GetInstance_step_def goto_def dcl_start_def)

text \<open>
  The two programs: both singletons hand out one object, so that all five increments are counted in it.
\<close>

theorem singleton_mains:
  "main_007_bad show_ptr \<lparr>sg_instance = None, sg_objs = [], sg_out = []\<rparr> =
     (Inr (), \<lparr>sg_instance = None, sg_objs = [None], sg_out =
       [CStr ''BadSingleton()'', CEndl] @
       concat (map (\<lambda>c. [CStr (show_ptr (Some 0)), CStr '' '', CInt c, CEndl]) [3, 3, 5, 5, 5]) @
       [CStr ''~BadSingleton()'', CEndl]\<rparr>)"
  "main_007_good \<lparr>sg_instance = None, sg_objs = [], sg_out = []\<rparr> =
     (Inr (), \<lparr>sg_instance = Some 0, sg_objs = [Some 5], sg_out =
       [CStr ''GoodSingleton()'', CEndl] @ concat (map (\<lambda>c. [CInt c, CEndl]) [3, 3, 5, 5, 5]) @
       [CStr ''~GoodSingleton()'', CEndl]\<rparr>)"
proof -
  have step: "\<And>m f s x s'. m s = (Inr x, s') \<Longrightarrow> bindS m f s = f x s'" by (simp add: bindS_def)
  show "main_007_bad show_ptr \<lparr>sg_instance = None, sg_objs = [], sg_out = []\<rparr> =
     (Inr (), \<lparr>sg_instance = None, sg_objs = [None], sg_out =
       [CStr ''BadSingleton()'', CEndl] @
       concat (map (\<lambda>c. [CStr (show_ptr (Some 0)), CStr '' '', CInt c, CEndl]) [3, 3, 5, 5, 5]) @
       [CStr ''~BadSingleton()'', CEndl]\<rparr>)"
    unfolding main_007_bad_def
    by (simp add: step BadSingleton_getInstance_def BadSingleton_new_def sayS_def countS_def singleton_inc_def
        int_incr_def BadSingleton_print_def BadSingleton_delete_def)
  show "main_007_good \<lparr>sg_instance = None, sg_objs = [], sg_out = []\<rparr> =
     (Inr (), \<lparr>sg_instance = Some 0, sg_objs = [Some 5], sg_out =
       [CStr ''GoodSingleton()'', CEndl] @ concat (map (\<lambda>c. [CInt c, CEndl]) [3, 3, 5, 5, 5]) @
       [CStr ''~GoodSingleton()'', CEndl]\<rparr>)"
    unfolding main_007_good_def
    by (simp add: step GoodSingleton_getInstance_def GoodSingleton_new_def GoodSingleton_dtor_def sayS_def countS_def singleton_inc_def int_incr_def
        GoodSingleton_print_def)
qed

text \<open>The private assignments would change no object, and would return the wrong one.\<close>

theorem singleton_assign_ignores:
  "fst (BadSingleton_assign p q s) = Inr q \<and> sg_objs (snd (BadSingleton_assign p q s)) = sg_objs s"
  "fst (GoodSingleton_assign p q s) = Inr q \<and> sg_objs (snd (GoodSingleton_assign p q s)) = sg_objs s"
  by (simp_all add: BadSingleton_assign_def GoodSingleton_assign_def bindS_def sayS_def)

end
