(* ===== verification/Val_Probs.thy ===== *)
theory Val_Probs
  imports Cpp_Prog
begin

text \<open>
  \<open>cmake_make_gtest_cppunit/val_probs.c\<close> (the memory errors a memory checker reports) and the two functions
  of \<open>main.cpp\<close> that show the same. A \<open>malloc\<close> of \<open>n\<close> bytes for a type of \<open>k\<close> bytes is a block of \<open>n div k\<close>
  cells. A local array is a block that is not released by the program.
\<close>

section \<open>val\_probs.c\<close>

definition bad_func :: "pointer \<Rightarrow> unit prog" where
  "bad_func p = seqP
    [store_cell p 4096 (VChar CHR ''a''), store_cell p 8096 (VChar CHR ''b''), store_cell p 16096 (VChar CHR ''c'')]"

definition good_work :: "unit prog" where
  "good_work = print [CStr (''good...'' @ lf)]"

text \<open>The six cases of \<open>bad_work\<close>; a \<open>Tree\<close> has the cells \<open>value\<close>, \<open>left\<close> and \<open>right\<close>.\<close>

definition directly_lost :: "unit prog" where
  "directly_lost = bindP (alloc Malloc 8) (\<lambda>p. returnP ())"

definition indirectly_lost :: "unit prog" where
  "indirectly_lost =
     bindP (alloc Malloc 3) (\<lambda>root.
     bindP (alloc Malloc 3) (\<lambda>left.
     thenP (store_cell root 1 (VPtr left))
     (bindP (alloc Malloc 3) (\<lambda>right.
      store_cell root 2 (VPtr right)))))"

definition possibly_lost :: "unit prog" where
  "possibly_lost =
     bindP (alloc Malloc 4) (\<lambda>p.
     let p = ptr_add p 1 in
     bindP (alloc Malloc 8) (\<lambda>tmp.
     thenP (bad_func tmp)
     (let p = ptr_add p (- 1) in dealloc Free p)))"

definition still_reachable :: "unit prog" where
  "still_reachable = bindP (alloc Malloc 4) (\<lambda>p. failP (Abort ''SIGKILL''))"

definition conditional_jump :: "unit prog" where
  "conditional_jump =
     bindP (alloc Malloc 5) (\<lambda>data.
     thenP (store_cell data 0 (VChar CHR ''a''))
     (thenP (store_cell data 1 (VChar CHR ''b''))
     (thenP (store_cell data 1 (VChar CHR ''c''))
     (bindP (load_cell data 2) (\<lambda>c.
      thenP (whenP (c = VChar CHR ''c'') (print [CStr (''YES'' @ lf)]))
      (dealloc Free data))))))"

definition invalid_read :: "unit prog" where
  "invalid_read =
     bindP (alloc Malloc (8 div 4)) (\<lambda>arr.
     bindP (load_cell arr 0) (\<lambda>a.
     bindP (load_cell arr 1) (\<lambda>b.
     bindP (load_cell arr 2) (\<lambda>c.
     dealloc Free arr))))"

definition bad_work :: "unit prog" where
  "bad_work = seqP
     [whenP True directly_lost, whenP True indirectly_lost, whenP False possibly_lost,
      whenP False still_reachable, whenP False conditional_jump, whenP False invalid_read]"

text \<open>\<open>while (n--)\<close>: the value printed is the one after the decrement.\<close>

fun val_probs_loop :: "nat \<Rightarrow> unit prog" where
  "val_probs_loop 0 = returnP ()"
| "val_probs_loop (Suc n) =
     thenP (print [CStr ''n = '', CInt (int n), CStr lf]) (thenP bad_work (val_probs_loop n))"

definition val_probs_main :: "int prog" where
  "val_probs_main =
     thenP (print [CStr (''Hello, TechnoPark!'' @ lf)]) (thenP (val_probs_loop 5) (returnP 0))"

section \<open>The two functions of main.cpp\<close>

definition CheckValgrindCondJump :: "unit prog" where
  "CheckValgrindCondJump =
     bindP (alloc Malloc 5) (\<lambda>data.
     thenP (store_cell data 0 (VChar CHR ''a''))
     (thenP (store_cell data 1 (VChar CHR ''b''))
     (thenP (store_cell data 1 (VChar CHR ''c''))
     (bindP (load_cell data 2) (\<lambda>c.
      thenP (whenP (c = VChar CHR ''c'') (print [CStr (''YES'' @ lf)]))
      (dealloc Free data))))))"

fun copy_chars :: "pointer \<Rightarrow> pointer \<Rightarrow> int list \<Rightarrow> unit prog" where
  "copy_chars dest src [] = returnP ()"
| "copy_chars dest src (i # is) =
     bindP (load_cell src i) (\<lambda>c. thenP (store_cell dest i c) (copy_chars dest src is))"

definition CheckValgrindAutoVariables :: "unit prog" where
  "CheckValgrindAutoVariables =
     bindP (alloc NewObject 2) (\<lambda>dest.
     bindP (alloc NewObject 2) (\<lambda>src.
     thenP (store_cell src 0 (VChar CHR ''a''))
     (thenP (store_cell src 1 (VChar CHR ''b''))
     (thenP (copy_chars dest src [0..2])
     (bindP (c_string dest) (\<lambda>s. print [CStr (s @ lf)]))))))"

section \<open>The strings of stack\_corr.cpp\<close>

text \<open>A string is copied to an array and to an allocated block and printed from both; the array ends with \<open>main\<close>.\<close>

definition copy_and_print :: "pointer \<Rightarrow> string \<Rightarrow> unit prog" where
  "copy_and_print p s = thenP (strcpy_from p 0 s) (bindP (c_string p) (\<lambda>t. print [CStr t]))"

definition stack_corr_strings :: "unit prog" where
  "stack_corr_strings =
     bindP (alloc NewObject 256) (\<lambda>str.
       finallyP
         (thenP (copy_and_print str ''Some string'')
           (bindP (alloc Malloc 256) (\<lambda>str_dyn. copy_and_print str_dyn ''Some string'')))
         (dealloc DeleteObject str))"

section \<open>Properties\<close>

lemma bad_work_grows:
  "\<exists>w'. bad_work w = (Inr (), w') \<and> cw_out w' = cw_out w \<and> grown 4 w w'"
  by (simp add: bad_work_def directly_lost_def indirectly_lost_def prog_defs alloc_def store_cell_def block_at_def
      write_int_index_def grown_def nth_append list_update_append)

text \<open>
  every round of \<open>val_probs\<close> loses four blocks, one directly and a tree of three, and changes
  nothing else in memory; the program ends with 0, has printed the countdown and holds 20 blocks that it has
  no pointer to.
\<close>

theorem val_probs_leaks:
  "(\<exists>w'. val_probs_loop n w = (Inr (), w') \<and>
     cw_out w' = cw_out w @ concat (map (\<lambda>k. [CStr ''n = '', CInt (int k), CStr lf]) (rev [0..<n])) \<and>
     live_blocks w' = live_blocks w \<union> {length (cw_mem w)..<length (cw_mem w) + 4 * n}) \<and>
   fst (val_probs_main start) = Inr 0 \<and> card (live_blocks (snd (val_probs_main start))) = 20"
proof -
  have loop: "\<exists>w'. val_probs_loop n w = (Inr (), w') \<and>
     cw_out w' = cw_out w @ concat (map (\<lambda>k. [CStr ''n = '', CInt (int k), CStr lf]) (rev [0..<n])) \<and>
     grown (4 * n) w w'" for n w
  proof (induction n arbitrary: w)
    case (Suc n)
    let ?w = "w\<lparr>cw_out := cw_out w @ [CStr ''n = '', CInt (int n), CStr lf]\<rparr>"
    have g0: "grown 0 w ?w" by (simp add: grown_def)
    obtain w1 where w1: "bad_work ?w = (Inr (), w1)" "cw_out w1 = cw_out ?w" "grown 4 ?w w1"
      using bad_work_grows by blast
    obtain w2 where w2: "val_probs_loop n w1 = (Inr (), w2)" "grown (4 * n) w1 w2"
      "cw_out w2 = cw_out w1 @ concat (map (\<lambda>k. [CStr ''n = '', CInt (int k), CStr lf]) (rev [0..<n]))"
      using Suc.IH by blast
    have "grown (4 * Suc n) w w2" using grown_trans [OF grown_trans [OF g0 w1(3)] w2(2)] by simp
    with w1 w2 show ?case by (simp add: thenP_def bindP_def print_def)
  qed (simp add: returnP_def)
  have "\<exists>w'. val_probs_main start = (Inr 0, w') \<and> grown 20 (start\<lparr>cw_out := [CStr (''Hello, TechnoPark!'' @ lf)]\<rparr>) w'"
    using loop [of 5 "start\<lparr>cw_out := [CStr (''Hello, TechnoPark!'' @ lf)]\<rparr>"]
    by (auto simp: val_probs_main_def thenP_def bindP_def print_def returnP_def start_def)
  then have "fst (val_probs_main start) = Inr 0" "card (live_blocks (snd (val_probs_main start))) = 20"
    using live_blocks_grown by (auto simp: start_def live_blocks_def)
  with loop [of n w] live_blocks_grown show ?thesis by blast
qed

text \<open>
  The disabled cases, when enabled, are the faults that their comments announce, and so are the two
  functions of \<open>main.cpp\<close>.
\<close>

lemmas fault_defs = prog_defs alloc_def load_cell_def store_cell_def block_at_def read_int_index_def write_int_index_def

theorem val_probs_faults:
  "fst (possibly_lost w) = Inl (Undefined OutOfBoundsWrite)"
  "fst (conditional_jump w) = Inl (Undefined UninitialisedRead)"
  "fst (invalid_read w) = Inl (Undefined UninitialisedRead)"
  "fst (CheckValgrindCondJump w) = Inl (Undefined UninitialisedRead)"
  "fst (CheckValgrindAutoVariables w) = Inl (Undefined OutOfBoundsRead)"
proof -
  show "fst (possibly_lost w) = Inl (Undefined OutOfBoundsWrite)"
    by (simp add: possibly_lost_def bad_func_def fault_defs)
  show "fst (conditional_jump w) = Inl (Undefined UninitialisedRead)"
    by (simp add: conditional_jump_def fault_defs)
  show "fst (invalid_read w) = Inl (Undefined UninitialisedRead)"
    by (simp add: invalid_read_def fault_defs)
  show "fst (CheckValgrindCondJump w) = Inl (Undefined UninitialisedRead)"
    by (simp add: CheckValgrindCondJump_def fault_defs)
  show "fst (CheckValgrindAutoVariables w) = Inl (Undefined OutOfBoundsRead)"
    by (simp add: CheckValgrindAutoVariables_def fault_defs upto_rec1 nth_append list_update_append)
qed

text \<open>The end of \<open>main\<close> in \<open>stack_corr.cpp\<close>: the string is printed twice, and the allocated block is never freed.\<close>

lemma copy_and_print_ok:
  assumes "b < length (cw_mem w)" "cw_mem w ! b = Some blk" "length s < length (mb_cells blk)" "CHR 0x00 \<notin> set s"
  shows "\<exists>blk'. mb_kind blk' = mb_kind blk \<and> copy_and_print (Some (b, 0)) s w =
    (Inr (), \<lparr>cw_mem = (cw_mem w)[b := Some blk'], cw_out = cw_out w @ [CStr s]\<rparr>)"
proof -
  obtain blk' where "mb_kind blk' = mb_kind blk"
    "strcpy_from (Some (b, 0)) 0 s w = (Inr (), w\<lparr>cw_mem := (cw_mem w)[b := Some blk']\<rparr>)"
    "c_string (Some (b, 0)) (w\<lparr>cw_mem := (cw_mem w)[b := Some blk']\<rparr>) = (Inr s, w\<lparr>cw_mem := (cw_mem w)[b := Some blk']\<rparr>)"
    using strcpy_read_back [OF assms] by blast
  then show ?thesis by (intro exI [of _ blk']) (simp add: copy_and_print_def thenP_def bindP_def print_def)
qed

theorem stack_corr_strings_leak:
  "\<exists>w'. stack_corr_strings w = (Inr (), w') \<and> cw_out w' = cw_out w @ [CStr ''Some string'', CStr ''Some string''] \<and>
     live_blocks w' = live_blocks w \<union> {Suc (length (cw_mem w))}"
proof -
  define n where "n = (256 :: nat)"
  define blank where "blank kind = \<lparr>mb_kind = kind, mb_cells = replicate n None\<rparr>" for kind :: alloc_kind
  let ?b = "length (cw_mem w)"
  let ?w1 = "w\<lparr>cw_mem := cw_mem w @ [Some (blank NewObject)]\<rparr>"
  obtain k1 where k1: "mb_kind k1 = NewObject" "copy_and_print (Some (?b, 0)) ''Some string'' ?w1 =
      (Inr (), \<lparr>cw_mem = (cw_mem ?w1)[?b := Some k1], cw_out = cw_out w @ [CStr ''Some string'']\<rparr>)"
    using copy_and_print_ok [of ?b ?w1 "blank NewObject" "''Some string''"] by (auto simp: blank_def n_def)
  let ?w2 = "\<lparr>cw_mem = (cw_mem w @ [Some k1]) @ [Some (blank Malloc)], cw_out = cw_out w @ [CStr ''Some string'']\<rparr>"
  obtain k2 where k2: "copy_and_print (Some (Suc ?b, 0)) ''Some string'' ?w2 =
      (Inr (), \<lparr>cw_mem = (cw_mem ?w2)[Suc ?b := Some k2], cw_out = (cw_out w @ [CStr ''Some string'']) @ [CStr ''Some string'']\<rparr>)"
    using copy_and_print_ok [of "Suc ?b" ?w2 "blank Malloc" "''Some string''"] by (auto simp: blank_def n_def nth_append)
  have "stack_corr_strings w = (Inr (), \<lparr>cw_mem = cw_mem w @ [None, Some k2],
      cw_out = cw_out w @ [CStr ''Some string'', CStr ''Some string'']\<rparr>)"
    using k1 k2 unfolding stack_corr_strings_def n_def [symmetric]
    by (simp add: bindP_def thenP_def finallyP_def alloc_def dealloc_def returnP_def nth_append list_update_append
        flip: blank_def)
  then show ?thesis by (auto simp: live_blocks_def nth_append less_Suc_eq)
qed

end
