(* ===== verification/Containers_Main.thy ===== *)
theory Containers_Main
  imports Stack Queue Heap LinkedList Val_Probs
begin

text \<open>
  The programs that use the containers: \<open>cmake_make_gtest_cppunit/main.cpp\<close> and the unit tests
  \<open>tests_gtest.cpp\<close>, \<open>tests_cppunit.cpp\<close> and \<open>tests_gmock.cpp\<close>. They are compositions of the operations
  of the container theories, and are run here by the kernel. A call that does not return
  would be the outcome \<open>Abort\<close> of \<open>liftO\<close>. The test frameworks are not modelled: a test of Google Test is the list of
  expectations that fail, a failed assertion of CppUnit is an exception.
\<close>

definition liftO :: "(cpp_error + 'a) option \<Rightarrow> 'a prog" where
  "liftO m = (case m of None \<Rightarrow> failP (Abort ''does not return'') | Some r \<Rightarrow> liftP r)"

text \<open>The doubles written 8.2, 1.6 and 12.5.\<close>

definition d8_2 :: double where "d8_2 = Fin (2308094809027379 / 281474976710656)"

definition d1_6 :: double where "d1_6 = Fin (3602879701896397 / 2251799813685248)"

definition d12_5 :: double where "d12_5 = Fin (25 / 2)"

text \<open>
  A \<open>DArray\<close> logs its releases; a release that does not fit the allocation is undefined, and ends the program here.
\<close>

definition defined_so_far :: "darray \<Rightarrow> cpp_error + darray" where
  "defined_so_far d = (if list_all release_matches (da_released d) then Inr d else Inl (Undefined InvalidFree))"

definition PushBack :: "darray \<Rightarrow> double \<Rightarrow> cpp_error + darray" where
  "PushBack d v = bindE (DArray_PushBack d v) defined_so_far"

section \<open>main.cpp\<close>

text \<open>At the end of each function its local objects are destroyed.\<close>

definition UseDArray :: "unit prog" where
  "UseDArray =
     thenP (print [CStr ''--------- DArray ---------'', CEndl, CEndl])
     (bindP (liftP (foldE PushBack (DArray_ctor 3) [d12_5, d8_2, d1_6, d1_6, d1_6, d1_6, d1_6])) (\<lambda>d.
      thenP (print [CStr ''d at index 2 is ''])
      (bindP (liftP (DArray_At d 2)) (\<lambda>v.
       thenP (print [CDbl v, CEndl])
       (thenP (catchP
          (thenP (print [CStr ''d at index 3 is ''])
           (bindP (liftP (DArray_At d 3)) (\<lambda>v. print [CDbl v, CEndl])))
          (\<lambda>e. print [CStr ''error : '', CStr e, CEndl]))
       (thenP (print [CEndl]) (thenP (liftP (defined_so_far (DArray_dtor d))) (returnP ()))))))))"

definition UseLinkedList :: "store prog" where
  "UseLinkedList =
     thenP (print [CStr ''--------- Linked List ---------'', CEndl, CEndl])
     (bindP (liftP (foldE (\<lambda>(h, l). LinkedList_PushBack h l) ([], LinkedList_ctor) [5, 10, 15])) (\<lambda>(h, l1).
      bindP (liftO (LinkedList_Display h l1)) (\<lambda>ts.
      thenP (print ts)
      (bindP (liftO (LinkedList_Search h l1 10)) (\<lambda>element.
       bindP
         (if element \<noteq> None then
            bindP (liftP (LinkedList_InsertAfter h element 100)) (\<lambda>(inserted, h).
            bindP (liftO (LinkedList_Display h l1)) (\<lambda>ts.
            thenP (print ts)
            (bindP (liftP (LinkedList_DeteleAt h inserted)) (\<lambda>(_, h).
             bindP (liftO (LinkedList_Display h l1)) (\<lambda>ts.
             thenP (print ts) (returnP h))))))
          else returnP h) (\<lambda>h.
       liftP (LinkedList_dtor h l1)))))))"

definition UseStack :: "heap_op list prog" where
  "UseStack =
     thenP (print [CStr ''--------- Stack ---------'', CEndl, CEndl])
     (bindP (liftP (Stack_ctor 256)) (\<lambda>stack.
      bindP (catchP
          (bindP (liftP (foldE Stack_Push stack [5, 10, 20])) (\<lambda>stack.
           bindP (liftP (Stack_Display stack)) (\<lambda>ts.
           thenP (print ts) (returnP stack))))
          (\<lambda>e. thenP (print [CStr ''error : '', CStr e, CEndl]) (returnP stack))) (\<lambda>stack.
      thenP (print [CEndl]) (returnP (Stack_dtor stack)))))"

definition print_ends :: "queue \<Rightarrow> unit prog" where
  "print_ends q =
     thenP (print [CStr ''Front() = ''])
     (bindP (liftP (Queue_Front q)) (\<lambda>v.
      thenP (print [CInt v, CEndl, CStr ''Back() = ''])
      (bindP (liftP (Queue_Back q)) (\<lambda>v. print [CInt v, CEndl]))))"

text \<open>The releases do not depend on where the \<open>try\<close> block was left: the queue keeps its one block.\<close>

definition UseQueue :: "heap_op list prog" where
  "UseQueue =
     thenP (print [CStr ''--------- Queue ---------'', CEndl, CEndl])
     (let queue = Queue_ctor 5 in
      thenP (catchP
          (bindP (liftP (Queue_Push queue 5)) (\<lambda>q.
           bindP (liftP (Queue_Pop q)) (\<lambda>(_, q).
           bindP (liftP (Queue_Push q 10)) (\<lambda>q.
           bindP (liftP (Queue_Pop q)) (\<lambda>(_, q).
           bindP (liftP (Queue_Push q 20)) (\<lambda>q.
           thenP (print_ends q)
           (bindP (liftP (foldE Queue_Push q [40, 60])) (\<lambda>q.
            thenP (print_ends q)
            (bindP (liftP (Queue_Pop q)) (\<lambda>(_, q).
             bindP (liftP (foldE Queue_Push q [80, 80, 80, 80, 80])) (\<lambda>q.
             print_ends q)))))))))))
          (\<lambda>e. print [CStr ''error : '', CStr e, CEndl]))
      (thenP (print [CEndl]) (returnP (Queue_dtor queue))))"

definition display :: "darray \<Rightarrow> unit prog" where
  "display d = bindP (liftP (DArray_Display d)) (\<lambda>ts. print ts)"

definition UseHeap :: "unit prog" where
  "UseHeap =
     thenP (print [CStr ''--------- Heap ---------'', CEndl, CEndl])
     (bindP (liftP (foldE PushBack (DArray_ctor 64) [Fin 3, Fin 1, Fin 4, Fin 1, Fin 5, Fin 9])) (\<lambda>d.
      thenP (print [CStr ''d: ''])
      (thenP (display d)
      (bindP (liftO (Heap_MakeHeap d)) (\<lambda>d.
       thenP (print [CStr ''d: ''])
       (thenP (display d)
       (bindP (liftO (Heap_ExtractMax d)) (\<lambda>(largest, d).
        thenP (print [CStr ''largest element: '', CDbl largest, CStr lf, CStr ''heap without largest: ''])
        (thenP (display d)
        (bindP (liftP (bindE (Heap_Add d (Fin 20)) defined_so_far)) (\<lambda>d.
         thenP (print [CStr ''heap after add : ''])
         (thenP (display d)
         (bindP (liftP (bindE (Heap_Add d (Fin 6)) defined_so_far)) (\<lambda>d.
          thenP (print [CStr ''heap after add : ''])
          (thenP (display d) (thenP (liftP (defined_so_far (DArray_dtor d))) (returnP ())))))))))))))))))"

definition containers_main :: "int prog" where
  "containers_main =
     thenP UseDArray (thenP UseLinkedList (thenP UseStack (thenP UseQueue (thenP UseHeap
     (thenP CheckValgrindCondJump (thenP CheckValgrindAutoVariables (returnP 0)))))))"

section \<open>tests\_gtest.cpp\<close>

type_synonym gtest = "cpp_error + string list"

definition EXPECT_EQ :: "'a \<Rightarrow> 'a \<Rightarrow> string list" where
  "EXPECT_EQ a b = (if a = b then [] else [''EXPECT_EQ''])"

definition gtest_DArray_SizeCapacity :: gtest where
  "gtest_DArray_SizeCapacity =
     bindE (PushBack (DArray_ctor 64) (Fin 5)) (\<lambda>d.
     if DArray_Size d \<noteq> 1 then Inr [''ASSERT_EQ'']
     else Inr (EXPECT_EQ (DArray_Capacity d) 64))"

definition ArrayTest_SetUp :: "cpp_error + darray" where
  "ArrayTest_SetUp = foldE PushBack (DArray_ctor 10) [Fin 1, Fin 2, Fin 3]"

definition pop_all :: "darray \<Rightarrow> nat \<Rightarrow> cpp_error + darray" where
  "pop_all d n = foldE (\<lambda>d _. bindE (DArray_PopBack d) (\<lambda>(_, d). Inr d)) d [0..<n]"

text \<open>\<open>catch (...)\<close>: the test passes if anything is thrown.\<close>

definition gtest_DArray_Pop :: gtest where
  "gtest_DArray_Pop =
     (case bindE (foldE PushBack (DArray_ctor 64) [Fin 5, Fin 5, Fin 5, Fin 5]) (\<lambda>d. pop_all d 5) of
        Inl (Throw _) \<Rightarrow> Inr []
      | Inl e \<Rightarrow> Inl e
      | Inr _ \<Rightarrow> Inr ['' DArray should throw an exception''])"

definition gtest_Queue_Pop :: gtest where
  "gtest_Queue_Pop =
     (case bindE (Queue_Push (Queue_ctor 5) 5) (\<lambda>q.
           bindE (Queue_Pop q) (\<lambda>(_, q).
           bindE (foldE Queue_Push q [10, 20]) (\<lambda>q.
           bindE (Queue_Front q) (\<lambda>front.
           bindE (Queue_Back q) (\<lambda>back.
           bindE (foldE Queue_Push q [40, 60]) (\<lambda>q.
           bindE (Queue_Pop q) (\<lambda>(_, q).
           bindE (Queue_Push q 80) (\<lambda>q.
           bindE (Queue_Back q) (\<lambda>back2.
           Inr (EXPECT_EQ front 10 @ EXPECT_EQ back 20 @ EXPECT_EQ back2 80)))))))))) of
        Inl (Throw what) \<Rightarrow> Inr [what]
      | r \<Rightarrow> r)"

definition gtest_IsNotEmptyInitially :: gtest where
  "gtest_IsNotEmptyInitially = bindE ArrayTest_SetUp (\<lambda>a0. Inr (EXPECT_EQ (DArray_Size a0) 3))"

section \<open>tests\_cppunit.cpp\<close>

definition CPPUNIT_ASSERT_MESSAGE :: "string \<Rightarrow> bool \<Rightarrow> cpp_error + unit" where
  "CPPUNIT_ASSERT_MESSAGE msg b = (if b then Inr () else Inl (Throw msg))"

definition TestDArray :: "cpp_error + unit" where
  "TestDArray =
     bindE (foldE PushBack (DArray_ctor 64) [d12_5, d8_2, d1_6]) (\<lambda>d.
     bindE (CPPUNIT_ASSERT_MESSAGE ''DArray size should be equal to 3'' (DArray_Size d = 3)) (\<lambda>_.
     CPPUNIT_ASSERT_MESSAGE ''DArray capacity should be equal to 64'' (64 = DArray_Capacity d)))"

definition TestLinkedList :: "(cpp_error + unit) option" where
  "TestLinkedList =
     (case foldE (\<lambda>(h, l). LinkedList_PushBack h l) ([], LinkedList_ctor) [5, 10, 15] of
        Inl e \<Rightarrow> Some (Inl e)
      | Inr (h, l1) \<Rightarrow>
          map_option (\<lambda>r. bindE r (\<lambda>element.
            CPPUNIT_ASSERT_MESSAGE ''The search item 10 was not found'' (element \<noteq> None)))
          (LinkedList_Search h l1 10))"

definition TestStack :: "cpp_error + unit" where
  "TestStack =
     bindE (Stack_ctor 256) (\<lambda>stack.
     bindE (foldE Stack_Push stack [5, 10, 20]) (\<lambda>stack.
     bindE (CPPUNIT_ASSERT_MESSAGE ''Stack size should be '' (3 = Stack_Size stack)) (\<lambda>_.
     bindE (Stack_Top stack) (\<lambda>top.
     bindE (CPPUNIT_ASSERT_MESSAGE ''Stack top should be '' (20 = top)) (\<lambda>_.
     bindE (Stack_Pop stack) (\<lambda>(_, stack).
     bindE (Stack_Pop stack) (\<lambda>(_, stack).
     bindE (Stack_Pop stack) (\<lambda>(_, stack).
     CPPUNIT_ASSERT_MESSAGE ''Stack should be empty'' (0 = Stack_Size stack)))))))))"

definition TestQueue :: "cpp_error + unit" where
  "TestQueue =
     bindE (Queue_Push (Queue_ctor 5) 5) (\<lambda>q.
     bindE (Queue_Pop q) (\<lambda>(_, q).
     bindE (Queue_Push q 10) (\<lambda>q.
     bindE (Queue_Pop q) (\<lambda>(_, q).
     bindE (Queue_Push q 20) (\<lambda>q.
     bindE (Queue_Front q) (\<lambda>front.
     bindE (CPPUNIT_ASSERT_MESSAGE ''Queue Front should be 20'' (front = 20)) (\<lambda>_.
     bindE (Queue_Back q) (\<lambda>back.
     bindE (CPPUNIT_ASSERT_MESSAGE ''Queue Front should be 20'' (back = 20)) (\<lambda>_.
     bindE (foldE Queue_Push q [40, 60]) (\<lambda>q.
     bindE (Queue_Pop q) (\<lambda>(_, q).
     bindE (Queue_Push q 80) (\<lambda>q.
     bindE (Queue_Back q) (\<lambda>back.
     CPPUNIT_ASSERT_MESSAGE ''Queue Front should be 40'' (back = 80))))))))))))))"

definition TestHeap_setUp :: "cpp_error + darray" where
  "TestHeap_setUp = foldE PushBack (DArray_ctor 64) [Fin 1, Fin 4, Fin 9, Fin 3, Fin 1, Fin 5]"

text \<open>The test works on the array of the fixture: its result, and the array afterwards.\<close>

definition TestBuildHeap :: "darray \<Rightarrow> (cpp_error + unit) option \<times> darray" where
  "TestBuildHeap d =
     (case Heap_MakeHeap d of
        None \<Rightarrow> (None, d)
      | Some (Inl e) \<Rightarrow> (Some (Inl e), d)
      | Some (Inr d1) \<Rightarrow>
          (case Heap_ExtractMax d1 of
             None \<Rightarrow> (None, d1)
           | Some (Inl e) \<Rightarrow> (Some (Inl e), d1)
           | Some (Inr (largest, d2)) \<Rightarrow>
               (Some (CPPUNIT_ASSERT_MESSAGE ''Heap max should be 9'' (Fin 9 = largest)), d2)))"

definition TestHeap_tearDown :: "darray \<Rightarrow> darray" where
  "TestHeap_tearDown d = DArray_dtor d"

text \<open>A fixture: \<open>setUp\<close>, the test, and \<open>tearDown\<close>, also after a failed test; the array afterwards shows its releases.\<close>

definition TestHeap_fixture :: "(cpp_error + unit) option \<times> darray option" where
  "TestHeap_fixture =
     (case TestHeap_setUp of
        Inl e \<Rightarrow> (Some (Inl e), None)
      | Inr d \<Rightarrow> let (r, d') = TestBuildHeap d in (r, Some (TestHeap_tearDown d')))"

text \<open>\<open>main\<close> runs the registered suites and returns 0 whatever their results are.\<close>

definition cppunit_main :: "(cpp_error + unit) option list \<times> int" where
  "cppunit_main =
     ([fst TestHeap_fixture, Some TestDArray, TestLinkedList, Some TestStack, Some TestQueue], 0)"

section \<open>tests\_gmock.cpp\<close>

text \<open>\<open>PushBack\<close> of a class that overrides the virtual \<open>Reallocate\<close>.\<close>

definition PushBack_virtual :: "(darray \<Rightarrow> cpp_error + darray) \<Rightarrow> darray \<Rightarrow> double \<Rightarrow> cpp_error + darray" where
  "PushBack_virtual Reallocate d value =
     bindE (if da_actual_size d = da_buf_size d then Reallocate d else Inr d) (\<lambda>d1.
       bindE (DArray_set d1 (da_actual_size d1) value) (\<lambda>d2.
         Inr (d2\<lparr>da_actual_size := da_actual_size d2 + 1\<rparr>)))"

text \<open>The mocked \<open>Reallocate\<close> has no action; \<open>ReallocateCalledOnce\<close> pushes five values.\<close>

definition MockDArray_Reallocate :: "darray \<Rightarrow> cpp_error + darray" where
  "MockDArray_Reallocate d = Inr d"

definition gmock_ReallocateCalledOnce :: "cpp_error + darray" where
  "gmock_ReallocateCalledOnce =
     foldE (PushBack_virtual MockDArray_Reallocate) (DArray_ctor 2) [Fin 5, Fin 5, Fin 5, Fin 5, Fin 5]"

text \<open>The classes under test with their collaborators as functions; the mocks count their calls.\<close>

definition Painter_DrawCircle :: "(nat \<Rightarrow> nat) \<Rightarrow> nat \<Rightarrow> int \<Rightarrow> int \<Rightarrow> int \<Rightarrow> bool \<times> nat" where
  "Painter_DrawCircle PenDown turtle x y r = (True, PenDown turtle)"

definition gmock_CanDrawSomething :: bool where
  "gmock_CanDrawSomething = (let (ret, calls) = Painter_DrawCircle Suc 0 0 0 10 in ret \<and> calls \<ge> 1)"

definition PacketReader_ReadPackets :: "(nat \<Rightarrow> 's \<Rightarrow> 's) \<Rightarrow> 's \<Rightarrow> nat \<Rightarrow> 's" where
  "PacketReader_ReadPackets GetPacket stream packet_num = GetPacket packet_num stream"

text \<open>\<open>ConcretePacketStream\<close>, whose functions do nothing; a packet is an incomplete type and a pointer to one is null.\<close>

definition ConcretePacketStream_AppendPacket :: "'p \<Rightarrow> 's \<Rightarrow> 's" where
  "ConcretePacketStream_AppendPacket new_packet stream = stream"

definition ConcretePacketStream_GetPacket :: "nat \<Rightarrow> 's \<Rightarrow> 'p option" where
  "ConcretePacketStream_GetPacket packet_number stream = None"

definition ConcretePacketStream_NumberOfPackets :: "'s \<Rightarrow> nat" where
  "ConcretePacketStream_NumberOfPackets stream = 0"

definition gmock_HelloWorld :: bool where
  "gmock_HelloWorld = (length (filter (\<lambda>n. n = 1) (PacketReader_ReadPackets (\<lambda>n calls. calls @ [n]) [] (1 :: nat))) \<ge> 1)"

definition ClientFileInterface_DoRead :: "(string \<Rightarrow> int \<Rightarrow> bool \<times> int) \<Rightarrow> bool" where
  "ClientFileInterface_DoRead Open = fst (Open [] 0)"

definition File_OpenFile :: "string \<Rightarrow> int \<Rightarrow> bool \<times> int" where
  "File_OpenFile path mode = (False, mode)"

definition File_Open :: "string \<Rightarrow> int \<Rightarrow> bool \<times> int" where
  "File_Open path mode = File_OpenFile path mode"

text \<open>
  The expectation on \<open>Open\<close>: the first matching call sets its second argument to 0 and returns true. Whether the call
  matches depends on the comparison of two literals as pointers, which is left open.
\<close>

definition MockFI_Open :: "bool \<Rightarrow> string \<Rightarrow> int \<Rightarrow> bool \<times> int" where
  "MockFI_Open matches path mode = (if matches then (True, 0) else (False, mode))"

definition gmock_TestStatic :: "bool \<Rightarrow> cout list" where
  "gmock_TestStatic matches =
     (if ClientFileInterface_DoRead (MockFI_Open matches) then [CStr '' Return value is true'', CEndl] else [])"

declare Heap_SiftDown.simps [code]

section \<open>Properties\<close>

lemma gtests:
  "gtest_DArray_SizeCapacity = Inr []" "gtest_DArray_Pop = Inr []" "gtest_Queue_Pop = Inr []"
  "gtest_IsNotEmptyInitially = Inr []"
  by code_simp+

lemma cppunit_tests:
  "TestDArray = Inr ()" "TestLinkedList = Some (Inr ())" "TestQueue = Inr ()"
  by code_simp+

text \<open>A stack of 256 cells is not evaluated, but reasoned about.\<close>

lemma stack_of_three:
  "\<exists>s0 s. Stack_ctor 256 = Inr s0 \<and> foldE Stack_Push s0 [a, b, c] = Inr s \<and> stack_ok s \<and> stack_items s = [c, b, a] \<and>
     stack_cap s = 256"
proof -
  obtain s0 where s0: "Stack_ctor 256 = Inr s0" "stack_ok s0" "stack_items s0 = []" "stack_cap s0 = 256"
    using Stack_ctor_ok [of 256] by auto
  obtain s1 where s1: "Stack_Push s0 a = Inr s1" "stack_ok s1" "stack_items s1 = [a]" "stack_cap s1 = 256"
    using stack_container.push_room [OF s0(2), of a] s0 by auto
  obtain s2 where s2: "Stack_Push s1 b = Inr s2" "stack_ok s2" "stack_items s2 = [b, a]" "stack_cap s2 = 256"
    using stack_container.push_room [OF s1(2), of b] s1 by auto
  obtain s3 where "Stack_Push s2 c = Inr s3" "stack_ok s3" "stack_items s3 = [c, b, a]" "stack_cap s3 = 256"
    using stack_container.push_room [OF s2(2), of c] s2 by auto
  with s0 s1 s2 show ?thesis by auto
qed

lemma Stack_Size_eq: "stack_ok s \<Longrightarrow> Stack_Size s = of_nat (length (stack_items s))"
  by (simp flip: Stack_Size_items)

lemma cppunit_stack: "TestStack = Inr ()"
proof -
  obtain s0 s3 where s3: "Stack_ctor 256 = Inr s0" "foldE Stack_Push s0 [5, 10, 20] = Inr s3" "stack_ok s3"
    "stack_items s3 = [20, 10, 5]" using stack_of_three [of 5 10 20] by blast
  obtain s2 where s2: "Stack_Pop s3 = Inr (20, s2)" "stack_ok s2" "stack_items s2 = [10, 5]"
    using stack_container.pop_some [OF s3(3,4)] by blast
  obtain s1 where s1: "Stack_Pop s2 = Inr (10, s1)" "stack_ok s1" "stack_items s1 = [5]"
    using stack_container.pop_some [OF s2(2,3)] by blast
  obtain s where "Stack_Pop s1 = Inr (5, s)" "stack_ok s" "stack_items s = []"
    using stack_container.pop_some [OF s1(2,3)] by blast
  with s3 s2 s1 Stack_Top_items [OF s3(3,4)] show ?thesis
    by (simp add: TestStack_def CPPUNIT_ASSERT_MESSAGE_def Stack_Size_eq)
qed

lemma cppunit_heap:
  "fst TestHeap_fixture = Some (Inr ())"
  "map_option da_released (snd TestHeap_fixture) = Some [HeapRelease Free Malloc]"
  by code_simp+

lemma gmock_TestStatic_prints: "gmock_TestStatic True = [CStr '' Return value is true'', CEndl]"
  by (simp add: gmock_TestStatic_def ClientFileInterface_DoRead_def MockFI_Open_def)

lemma gmock_tests:
  "gmock_CanDrawSomething" "gmock_HelloWorld" "gmock_ReallocateCalledOnce = Inl (Undefined OutOfBoundsWrite)"
  by code_simp+

lemma UseQueue_runs:
  "UseQueue \<lparr>cw_mem = m, cw_out = t\<rparr> = (Inr [HeapRelease Free Malloc], \<lparr>cw_mem = m, cw_out = t @
     [CStr ''--------- Queue ---------'', CEndl, CEndl,
      CStr ''Front() = '', CInt 20, CEndl, CStr ''Back() = '', CInt 20, CEndl,
      CStr ''Front() = '', CInt 20, CEndl, CStr ''Back() = '', CInt 60, CEndl,
      CStr ''error : '', CStr ''queue is full'', CEndl, CEndl]\<rparr>)"
  by (code_simp, simp)

lemma UseStack_runs:
  "UseStack \<lparr>cw_mem = m, cw_out = t\<rparr> = (Inr [HeapRelease DeleteArray NewArray], \<lparr>cw_mem = m, cw_out = t @
     [CStr ''--------- Stack ---------'', CEndl, CEndl, CInt 5, CStr tab, CInt 10, CStr tab, CInt 20, CStr tab,
      CEndl, CEndl]\<rparr>)"
proof -
  obtain s0 s where s: "Stack_ctor 256 = Inr s0" "foldE Stack_Push s0 [5, 10, 20] = Inr s" "stack_ok s"
    "stack_items s = [20, 10, 5]" "stack_cap s = 256" using stack_of_three [of 5 10 20] by blast
  have "stk_kind s = stk_kind s0"
    using s(2) by (auto simp: Stack_Push_def Let_def bindE_eq_Inr_iff split: if_splits)
  moreover have "stk_kind s0 = NewArray"
    using s(1) by (auto simp: Stack_ctor_def bindE_eq_Inr_iff)
  moreover have "Stack_Display s = Inr (display_tokens [5, 10, 20])"
    using Stack_Display_prints [OF s(3)] s(4,5) by simp
  ultimately show ?thesis
    using s(1,2) by (simp add: UseStack_def prog_defs display_tokens_def Stack_dtor_def)
qed

lemma UseDArray_runs:
  "UseDArray \<lparr>cw_mem = m, cw_out = t\<rparr> =
     (Inl (Undefined InvalidFree), \<lparr>cw_mem = m, cw_out = t @ [CStr ''--------- DArray ---------'', CEndl, CEndl]\<rparr>)"
proof -
  have "foldE PushBack (DArray_ctor 3) [a, b, c, d, e, f, g] = Inl (Undefined InvalidFree)" for a b c d e f g
    by (simp add: PushBack_def defined_so_far_def DArray_PushBack_def DArray_ctor_def DArray_Reallocate_def new_array_def
        memcpy_cells_def DArray_set_def)
  then show ?thesis by (simp add: UseDArray_def prog_defs)
qed

lemma UseLinkedList_runs:
  "UseLinkedList \<lparr>cw_mem = m, cw_out = t\<rparr> =
     (Inl (Undefined InvalidFree), \<lparr>cw_mem = m, cw_out = t @
       [CStr ''--------- Linked List ---------'', CEndl, CEndl,
        CInt 5, CStr tab, CInt 10, CStr tab, CInt 15, CStr tab, CEndl,
        CInt 5, CStr tab, CInt 10, CStr tab, CInt 100, CStr tab, CInt 15, CStr tab, CEndl,
        CInt 5, CStr tab, CInt 10, CStr tab, CInt 15, CStr tab, CEndl]\<rparr>)"
  by (code_simp, simp)

definition shown_row :: "rat list \<Rightarrow> cout list" where
  "shown_row xs = concat (map (\<lambda>x. [CDbl (Fin x), CStr tab]) xs) @ [CEndl]"

lemma UseHeap_runs:
  "UseHeap \<lparr>cw_mem = m, cw_out = t\<rparr> = (Inr (), \<lparr>cw_mem = m, cw_out = t @
     [CStr ''--------- Heap ---------'', CEndl, CEndl] @
     [CStr ''d: ''] @ shown_row [3, 1, 4, 1, 5, 9] @ [CStr ''d: ''] @ shown_row [9, 5, 4, 1, 1, 3] @
     [CStr ''largest element: '', CDbl (Fin 9), CStr lf, CStr ''heap without largest: ''] @ shown_row [5, 3, 4, 1, 1] @
     [CStr ''heap after add : ''] @ shown_row [20, 3, 5, 1, 1, 4] @
     [CStr ''heap after add : ''] @ shown_row [20, 3, 6, 1, 1, 4, 5]\<rparr>)"
  by (code_simp, simp)

text \<open>
  The demo program has no defined behaviour beyond its first function: the fourth \<open>PushBack\<close> of \<open>UseDArray\<close> grows an array of
  three, and \<open>Reallocate\<close> gives the block of \<open>malloc\<close> to \<open>delete[]\<close>. Each function on its own: \<open>UseLinkedList\<close> prints its three
  lines and ends in the \<open>delete []\<close> of a single node; \<open>UseStack\<close>, \<open>UseQueue\<close> (which catches the exception of
  a full queue) and \<open>UseHeap\<close> return, with every release fitting its allocation.
\<close>

theorem containers_main_undefined:
  "\<exists>w. containers_main start = (Inl (Undefined InvalidFree), w) \<and>
     cw_out w = [CStr ''--------- DArray ---------'', CEndl, CEndl] \<and>
     fst (UseLinkedList start) = Inl (Undefined InvalidFree) \<and> fst (UseStack start) = Inr [HeapRelease DeleteArray NewArray] \<and>
     fst (UseQueue start) = Inr [HeapRelease Free Malloc] \<and> fst (UseHeap start) = Inr ()"
  unfolding start_def UseLinkedList_runs UseStack_runs UseQueue_runs UseHeap_runs containers_main_def thenP_def bindP_def
  by (simp add: UseDArray_runs)

text \<open>
  Every test of the three test programs passes on the model, the one of
  \<open>ReallocateCalledOnce\<close> apart: its mock replaces \<open>Reallocate\<close> by a function that does nothing, so that the third
  \<open>PushBack\<close> writes outside the array of two.
\<close>

theorem unit_tests_pass:
  "gtest_DArray_SizeCapacity = Inr [] \<and> gtest_DArray_Pop = Inr [] \<and> gtest_Queue_Pop = Inr [] \<and>
   gtest_IsNotEmptyInitially = Inr [] \<and>
   TestDArray = Inr () \<and> TestLinkedList = Some (Inr ()) \<and> TestStack = Inr () \<and> TestQueue = Inr () \<and>
   fst TestHeap_fixture = Some (Inr ()) \<and>
   map_option da_released (snd TestHeap_fixture) = Some [HeapRelease Free Malloc] \<and>
   gmock_CanDrawSomething \<and> gmock_HelloWorld \<and>
   gmock_ReallocateCalledOnce = Inl (Undefined OutOfBoundsWrite) \<and>
   gmock_TestStatic True = [CStr '' Return value is true'', CEndl]"
  by (simp only: gmock_TestStatic_prints gtests cppunit_tests cppunit_stack cppunit_heap gmock_tests simp_thms)

end
