(* ===== verification/Asio_Apps.thy ===== *)
theory Asio_Apps
  imports Cpp_String Cpp_Prog
begin

text \<open>
  \<open>src/net/asio/main.cpp\<close>: the asynchronous server of \<open>Client\<close> and \<open>Server\<close>, the HTTP client
  \<open>sync_http_full\<close> with the formatted input it uses, the synchronous client \<open>sync\<close>, and the exercises
  \<open>queue_test\<close> and \<open>bind_test\<close>. Boost.Asio is not part of the repository. Its operations appear as
  data: what a connection answers is an argument of the clients, and the server is a state machine in which
  each step is the completion of one outstanding asynchronous operation, with the error code, the number of
  bytes and the remote address that the library reports.
\<close>

section \<open>The asynchronous server\<close>

text \<open>An outstanding operation; its handler holds the \<open>shared_ptr\<close> of the client with that number.\<close>

datatype asio_op =
    OpAccept nat
  | OpRead nat
  | OpWrite nat "char option list"

fun op_client :: "asio_op \<Rightarrow> nat" where
  "op_client (OpAccept c) = c"
| "op_client (OpRead c) = c"
| "op_client (OpWrite c d) = c"

fun is_OpAccept :: "asio_op \<Rightarrow> bool" where
  "is_OpAccept (OpAccept c) = True"
| "is_OpAccept _ = False"

text \<open>
  The state of the program: the operations that the service waits for, \<open>m_SendBuf\<close> of each client made so
  far (a byte that was never written is \<open>None\<close>), the bytes each connection was sent, and the log.
\<close>

record asio_state =
  as_ops :: "asio_op list"
  as_bufs :: "char option list list"
  as_sent :: "(nat \<times> char option list) list"
  as_log :: "cout list"

datatype asio_ec = NoError | Eof | OtherError

text \<open>
  The completion of operation number \<open>cp_op\<close>; \<open>cp_remote\<close> is the address of the peer, or the message of
  the exception that \<open>remote_endpoint()\<close> throws on a socket that is no longer connected.
\<close>

record completion =
  cp_op :: nat
  cp_ec :: asio_ec
  cp_bytes :: nat
  cp_remote :: "string + string"
  cp_thread :: int

definition log_to :: "asio_state \<Rightarrow> cout list \<Rightarrow> asio_state" where
  "log_to s ts = s\<lparr>as_log := as_log s @ ts\<rparr>"

text \<open>\<open>snprintf(buf + k, n, str)\<close> for a format without directives.\<close>

definition snprintf :: "char option list \<Rightarrow> nat \<Rightarrow> nat \<Rightarrow> string \<Rightarrow> char option list" where
  "snprintf buf k n str =
     (if n = 0 then buf
      else let t = take (n - 1) str @ [CHR 0x00] in take k buf @ map Some t @ drop (k + length t) buf)"

definition response_parts :: "string list" where
  "response_parts = [''HTTP/1.1 200 OK'' @ crlf, ''Content-Length: 26'' @ crlf @ crlf, ''ready proxy'']"

fun Client_format :: "string list \<Rightarrow> nat \<Rightarrow> char option list \<Rightarrow> char option list" where
  "Client_format [] k buf = buf"
| "Client_format (p # ps) k buf = Client_format ps (k + length p) (snprintf buf k (1024 - k) p)"

definition Client_read :: "nat \<Rightarrow> asio_state \<Rightarrow> asio_state" where
  "Client_read c s = s\<lparr>as_ops := as_ops s @ [OpRead c]\<rparr>"

definition Client_handleRead :: "nat \<Rightarrow> completion \<Rightarrow> asio_state \<Rightarrow> cpp_error + asio_state" where
  "Client_handleRead c ev s =
     bindE (if cp_ec ev = Eof then
              (case cp_remote ev of
                 Inl what \<Rightarrow> Inl (Throw what)
               | Inr addr \<Rightarrow> Inr (log_to s [CStr ''-client: '', CStr addr, CEndl]))
            else Inr s) (\<lambda>s1.
       if cp_ec ev \<noteq> NoError then Inr s1
       else
         let s2 = log_to s1 [CStr ''read: '', CInt (int (cp_bytes ev)), CStr '' bytes'', CEndl,
                             CStr ''read thread is '', CInt (cp_thread ev), CEndl];
             buf = Client_format response_parts 0 (as_bufs s2 ! c)
         in Inr (s2\<lparr>as_bufs := (as_bufs s2)[c := buf], as_ops := as_ops s2 @ [OpWrite c buf]\<rparr>))"

text \<open>The lambda that is called when the write is done: the error code is not looked at.\<close>

definition Client_written :: "nat \<Rightarrow> completion \<Rightarrow> asio_state \<Rightarrow> cpp_error + asio_state" where
  "Client_written c ev s = Inr (Client_read c s)"

text \<open>\<open>char m_SendBuf[1024]\<close> of a new client.\<close>

definition fresh_buf :: "char option list" where
  "fresh_buf = replicate 1024 None"

definition Server_startAccept :: "asio_state \<Rightarrow> asio_state" where
  "Server_startAccept s =
     s\<lparr>as_bufs := as_bufs s @ [fresh_buf], as_ops := as_ops s @ [OpAccept (length (as_bufs s))]\<rparr>"

definition Server_onAccept :: "nat \<Rightarrow> completion \<Rightarrow> asio_state \<Rightarrow> cpp_error + asio_state" where
  "Server_onAccept c ev s =
     (if cp_ec ev \<noteq> NoError then Inr s
      else
        case cp_remote ev of
          Inl what \<Rightarrow> Inl (Throw what)
        | Inr addr \<Rightarrow>
            Inr (Server_startAccept (Client_read c (log_to s [CStr ''+client: '', CStr addr, CEndl]))))"

text \<open>One step of a thread in \<open>service_.run()\<close>: an operation is complete and its handler is called.\<close>

definition Server_complete :: "completion \<Rightarrow> asio_state \<Rightarrow> cpp_error + asio_state" where
  "Server_complete ev s =
     (let rest = s\<lparr>as_ops := take (cp_op ev) (as_ops s) @ drop (Suc (cp_op ev)) (as_ops s)\<rparr>
      in case as_ops s ! cp_op ev of
           OpAccept c \<Rightarrow> Server_onAccept c ev rest
         | OpRead c \<Rightarrow> Client_handleRead c ev rest
         | OpWrite c d \<Rightarrow>
             Client_written c ev (rest\<lparr>as_sent := as_sent rest @ [(c, take (cp_bytes ev) d)]\<rparr>))"

text \<open>
  \<open>service_.run()\<close> in the threads of the server, under a sequence of completions: the run is over when no
  operation is outstanding, and an exception that leaves a handler ends the program.
\<close>

fun AsioServer_run :: "completion list \<Rightarrow> asio_state \<Rightarrow> cpp_error + asio_state" where
  "AsioServer_run [] s = Inr s"
| "AsioServer_run (ev # evs) s =
     (if as_ops s = [] then Inr s
      else if cp_op ev < length (as_ops s) then bindE (Server_complete ev s) (AsioServer_run evs)
      else AsioServer_run evs s)"

text \<open>\<open>setup\<close> is what \<open>open\<close>, \<open>set_option\<close>, \<open>bind\<close> or \<open>listen\<close> throw, if one of them does.\<close>

definition asio_init :: asio_state where
  "asio_init = \<lparr>as_ops = [], as_bufs = [], as_sent = [], as_log = []\<rparr>"

definition Server_startServer :: "string option \<Rightarrow> completion list \<Rightarrow> asio_state \<Rightarrow> cpp_error + asio_state" where
  "Server_startServer setup evs s =
     (case setup of
        Some what \<Rightarrow> Inl (Throw what)
      | None \<Rightarrow> AsioServer_run evs (log_to (Server_startAccept s) [CStr ''listen on port: '', CInt 5555, CEndl]))"

definition asio_main :: "int \<Rightarrow> string option \<Rightarrow> completion list \<Rightarrow> cpp_error + int \<times> asio_state" where
  "asio_main tid setup evs =
     bindE (Server_startServer setup evs (log_to asio_init [CStr ''main thread is '', CInt tid, CEndl]))
       (\<lambda>s. Inr (0, s))"

section \<open>Formatted input from a stream\<close>

text \<open>What is left to read, and \<open>!s\<close>.\<close>

record in_stream =
  is_rest :: string
  is_bad :: bool

definition read_word :: "in_stream \<Rightarrow> string \<times> in_stream" where
  "read_word s =
     (if is_bad s then ([], s)
      else let t = dropWhile is_space (is_rest s); w = takeWhile (\<lambda>c. \<not> is_space c) t
           in (w, \<lparr>is_rest = drop (length w) t, is_bad = (w = [])\<rparr>))"

text \<open>Into an \<open>unsigned int\<close>: a minus sign negates modulo $2^{32}$, a number that is too large fails.\<close>

definition read_unsigned :: "in_stream \<Rightarrow> nat \<times> in_stream" where
  "read_unsigned s =
     (if is_bad s then (0, s)
      else
        let t = dropWhile is_space (is_rest s);
            neg = (t \<noteq> [] \<and> hd t = CHR ''-'');
            u = (if t \<noteq> [] \<and> (hd t = CHR ''-'' \<or> hd t = CHR ''+'') then tl t else t);
            ds = takeWhile is_digit u;
            v = nat (digits_val ds)
        in if ds = [] then (0, \<lparr>is_rest = u, is_bad = True\<rparr>)
           else if v \<ge> 2 ^ 32 then (2 ^ 32 - 1, \<lparr>is_rest = drop (length ds) u, is_bad = True\<rparr>)
           else (if neg then (2 ^ 32 - v) mod 2 ^ 32 else v, \<lparr>is_rest = drop (length ds) u, is_bad = False\<rparr>))"

definition getline :: "in_stream \<Rightarrow> string \<times> in_stream" where
  "getline s =
     (if is_bad s \<or> is_rest s = [] then ([], s\<lparr>is_bad := True\<rparr>)
      else let l = takeWhile (\<lambda>c. c \<noteq> CHR 0x0A) (is_rest s)
           in (l, \<lparr>is_rest = drop (Suc (length l)) (is_rest s), is_bad = False\<rparr>))"

lemma getline_shorter: "getline s = (l, s') \<Longrightarrow> \<not> is_bad s' \<Longrightarrow> length (is_rest s') < length (is_rest s)"
  by (cases "is_rest s") (auto simp: getline_def Let_def split: if_splits)

section \<open>The HTTP client\<close>

text \<open>The header loop: what it prints, and the stream behind it.\<close>

function http_headers :: "in_stream \<Rightarrow> cout list \<times> in_stream" where
  "http_headers s =
     (let (header, s1) = getline s
      in if \<not> is_bad s1 \<and> header \<noteq> [CHR 0x0D] then
           (let (ts, s2) = http_headers s1 in ([CStr header, CStr [CHR 0x0A]] @ ts, s2))
         else ([], s1))"
  by auto
termination
  by (relation "measure (\<lambda>s. length (is_rest s))") (auto dest!: getline_shorter [OF sym])

declare http_headers.simps [simp del]

text \<open>\<open>s.c_str()\<close> where a C string is expected.\<close>

definition c_str :: "string \<Rightarrow> string" where
  "c_str s = takeWhile (\<lambda>c. c \<noteq> CHR 0x00) s"

definition http_request :: "string \<Rightarrow> string \<Rightarrow> string" where
  "http_request url host =
     ''GET '' @ c_str url @ '' HTTP/1.0'' @ crlf @ ''Host: '' @ c_str host @ crlf @ ''Accept: */*'' @ crlf @
     ''Connection: close'' @ crlf @ crlf"

text \<open>The part of \<open>sync_http_full\<close> that reads the response.\<close>

definition http_response :: "in_stream \<Rightarrow> cout list" where
  "http_response s =
     (let (http_version, s1) = read_word s;
          (status_code, s2) = read_unsigned s1;
          (status_message, s3) = getline s2
      in if is_bad s3 \<or> take 5 http_version \<noteq> ''HTTP/'' then [CStr (''Invalid response'' @ lf)]
         else if status_code \<noteq> 200 then
           [CStr ''Response returned with status code '', CInt (int status_code), CStr lf]
         else let (ts, s4) = http_headers s3 in ts @ [CStr lf, CStr (is_rest s4)])"

text \<open>
  \<open>connect host\<close> is the error message, or what the server sends for a request. The result is what is
  printed.
\<close>

definition sync_http_full :: "(string \<Rightarrow> string + (string \<Rightarrow> string)) \<Rightarrow> string \<Rightarrow> cout list" where
  "sync_http_full connect url =
     (case url_host url of
        Inr host \<Rightarrow>
          (case connect (c_str host) of
             Inl msg \<Rightarrow> [CStr ''Unable to connect: '', CStr msg, CStr lf]
           | Inr server \<Rightarrow> http_response \<lparr>is_rest = server (http_request url host), is_bad = False\<rparr>)
      | Inl (Throw what) \<Rightarrow> [CStr ''Exception: '', CStr what, CStr lf]
      | Inl e \<Rightarrow> [])"

text \<open>\<open>sync_http\<close>: a stream that could not be connected takes and gives nothing.\<close>

definition sync_http :: "(string \<Rightarrow> string + (string \<Rightarrow> string)) \<Rightarrow> cout list" where
  "sync_http connect =
     [CStr (case connect ''www.boost.org'' of
              Inl msg \<Rightarrow> []
            | Inr server \<Rightarrow>
                server (''GET /LICENSE_1_0.txt HTTP/1.0'' @ crlf @ ''Host: www.boost.org'' @ crlf @
                  ''Accept: */*'' @ crlf @ ''Connection: close'' @ crlf @ crlf))]"

section \<open>The synchronous client\<close>

text \<open>
  \<open>ec\<close> is the error of the resolver or of the connection, \<open>received\<close> what \<open>read_some\<close> puts into the
  buffer, at most 1024 bytes; the rest of the buffer is as it was, uninitialised.
\<close>

definition sync_reply :: "string \<Rightarrow> cval option list" where
  "sync_reply received =
     map (\<lambda>c. Some (VChar c)) (take 1024 received) @ replicate (1024 - length received) None"

definition sync :: "string option \<Rightarrow> string \<Rightarrow> unit prog" where
  "sync ec received =
     (case ec of
        Some msg \<Rightarrow> failP (Throw msg)
      | None \<Rightarrow>
          thenP (print [CStr ''Reply is: ''])
            (bindP (liftP (c_chars (sync_reply received))) (\<lambda>reply. print [CStr reply, CStr lf])))"

section \<open>Handlers\<close>

definition Class_funcA :: "int \<Rightarrow> unit prog" where
  "Class_funcA arg = print [CStr ''Class::func().int: '', CInt arg, CEndl]"

definition Class_funcB :: "int \<Rightarrow> string \<Rightarrow> unit prog" where
  "Class_funcB arg1 arg2 = print [CStr ''Class::func(). arg1: '', CInt arg1, CStr '', arg2: '', CStr arg2, CEndl]"

definition Class_funcC :: "unit prog" where
  "Class_funcC = println ''Class::func2()''"

definition func :: "unit prog" where
  "func = println ''func1''"

definition Struct_call :: "unit prog" where
  "Struct_call = println ''Struct::operator()''"

definition posted :: "unit prog list" where
  "posted = [func, println ''lambda'', Struct_call, Class_funcC, Class_funcC, Class_funcA 10]"

text \<open>
  \<open>io.run_one()\<close>: the service runs one of the \<open>n\<close> handlers that wait, \<open>pick n\<close> being its choice.
\<close>

fun run_one :: "(nat \<Rightarrow> nat) \<Rightarrow> unit prog list \<Rightarrow> unit prog list prog" where
  "run_one pick hs =
     (if hs = [] then returnP []
      else let i = pick (length hs) in thenP (hs ! i) (returnP (take i hs @ drop (Suc i) hs)))"

fun run_many :: "(nat \<Rightarrow> nat) \<Rightarrow> nat \<Rightarrow> unit prog list \<Rightarrow> unit prog list prog" where
  "run_many pick 0 hs = returnP hs"
| "run_many pick (Suc n) hs = bindP (run_one pick hs) (run_many pick n)"

definition queue_test :: "(nat \<Rightarrow> nat) \<Rightarrow> unit prog list prog" where
  "queue_test pick = run_many pick 6 posted"

definition bind_test :: "unit prog" where
  "bind_test =
     (let f1 = Class_funcA; f2 = Class_funcB; f3 = Class_funcB; f0 = Class_funcC
      in seqP [f1 123, f2 456 ''abcd'', f3 789 ''zxcv'', f0])"

section \<open>Properties of the server\<close>

text \<open>The answer as it stands in the buffer of a client: 50 bytes, a NUL, and 973 bytes that nobody has written.\<close>

definition full_response :: "char option list" where
  "full_response = map Some (concat response_parts @ [CHR 0x00]) @ replicate 973 None"

lemma Client_format_fresh: "Client_format response_parts 0 fresh_buf = full_response"
  by (simp add: fresh_buf_def response_parts_def snprintf_def full_response_def)

lemma Client_format_again: "Client_format response_parts 0 full_response = full_response"
  by (simp add: response_parts_def snprintf_def full_response_def)

definition asio_inv :: "asio_state \<Rightarrow> bool" where
  "asio_inv s \<longleftrightarrow>
     distinct (map op_client (as_ops s)) \<and> (\<forall>p \<in> set (as_ops s). op_client p < length (as_bufs s)) \<and>
     length (filter is_OpAccept (as_ops s)) \<le> 1 \<and>
     (\<forall>b \<in> set (as_bufs s). b = fresh_buf \<or> b = full_response) \<and>
     (\<forall>c d. OpWrite c d \<in> set (as_ops s) \<longrightarrow> d = full_response \<and> as_bufs s ! c = d) \<and>
     (\<forall>(c, d) \<in> set (as_sent s). \<exists>n. d = take n full_response)"

text \<open>What a handler finds: its operation is gone, and no other operation of its client is outstanding.\<close>

definition handles_client :: "nat \<Rightarrow> asio_state \<Rightarrow> bool" where
  "handles_client c s \<longleftrightarrow> asio_inv s \<and> c \<notin> op_client ` set (as_ops s) \<and> c < length (as_bufs s)"

lemma asio_inv_take_op:
  assumes "asio_inv s" "i < length (as_ops s)"
  shows "handles_client (op_client (as_ops s ! i)) (s\<lparr>as_ops := take i (as_ops s) @ drop (Suc i) (as_ops s)\<rparr>)"
proof -
  obtain xs p ys where ops: "as_ops s = xs @ p # ys" "length xs = i"
    using id_take_nth_drop [OF assms(2)] assms(2) by (metis length_take min.absorb4)
  with assms(1) show ?thesis by (cases "is_OpAccept p") (auto simp: handles_client_def asio_inv_def nth_append)
qed

lemma handles_client_log [simp]: "handles_client c (log_to s ts) = handles_client c s"
  by (simp add: handles_client_def asio_inv_def log_to_def)

lemma handles_client_inv: "handles_client c s \<Longrightarrow> asio_inv s"
  by (simp add: handles_client_def)

lemma asio_inv_read: "handles_client c s \<Longrightarrow> asio_inv (Client_read c s)"
  by (auto simp: handles_client_def asio_inv_def Client_read_def)

lemma asio_inv_accept:
  assumes "asio_inv s" "filter is_OpAccept (as_ops s) = []"
  shows "asio_inv (Server_startAccept s)"
  using assms by (auto simp: asio_inv_def Server_startAccept_def nth_append dest: bspec)

lemma Client_format_buf:
  "asio_inv s \<Longrightarrow> c < length (as_bufs s) \<Longrightarrow> Client_format response_parts 0 (as_bufs s ! c) = full_response"
  using Client_format_fresh Client_format_again unfolding asio_inv_def by (metis nth_mem)

lemma asio_inv_write:
  assumes "handles_client c s"
  shows "asio_inv (s\<lparr>as_bufs := (as_bufs s)[c := full_response], as_ops := as_ops s @ [OpWrite c full_response]\<rparr>)"
  using assms set_update_subset_insert [of "as_bufs s" c full_response]
  by (auto simp: handles_client_def asio_inv_def nth_list_update image_iff)

lemma asio_inv_handleRead:
  assumes "handles_client c s" "Client_handleRead c ev s = Inr s'"
  shows "asio_inv s'"
proof -
  let ?l = "log_to s [CStr ''read: '', CInt (int (cp_bytes ev)), CStr '' bytes'', CEndl,
     CStr ''read thread is '', CInt (cp_thread ev), CEndl]"
  have h: "handles_client c ?l" using assms(1) by simp
  then have "Client_format response_parts 0 (as_bufs ?l ! c) = full_response"
    using Client_format_buf unfolding handles_client_def by blast
  with assms asio_inv_write [OF h] handles_client_inv show ?thesis
    by (auto simp: Client_handleRead_def Let_def split: if_splits sum.splits)
qed

lemma no_accept_left:
  assumes "asio_inv s" "i < length (as_ops s)" "as_ops s ! i = OpAccept c"
  shows "filter is_OpAccept (take i (as_ops s) @ drop (Suc i) (as_ops s)) = []"
proof -
  have "as_ops s = take i (as_ops s) @ OpAccept c # drop (Suc i) (as_ops s)"
    using id_take_nth_drop [OF assms(2)] assms(3) by simp
  then have "filter is_OpAccept (as_ops s) =
     filter is_OpAccept (take i (as_ops s)) @ OpAccept c # filter is_OpAccept (drop (Suc i) (as_ops s))"
    by (metis filter.simps(2) filter_append is_OpAccept.simps(1))
  with assms(1) show ?thesis by (simp add: asio_inv_def)
qed

lemma asio_inv_complete:
  assumes "asio_inv s" "cp_op ev < length (as_ops s)" "Server_complete ev s = Inr s'"
  shows "asio_inv s'"
proof -
  define rest where "rest = s\<lparr>as_ops := take (cp_op ev) (as_ops s) @ drop (Suc (cp_op ev)) (as_ops s)\<rparr>"
  note h = asio_inv_take_op [OF assms(1,2), folded rest_def]
  show ?thesis
  proof (cases "as_ops s ! cp_op ev")
    case (OpAccept c)
    have "filter is_OpAccept (as_ops rest) = []"
      using no_accept_left [OF assms(1,2) OpAccept] by (simp add: rest_def)
    then have "asio_inv (Server_startAccept (Client_read c (log_to rest ts)))" for ts
      using h OpAccept by (intro asio_inv_accept asio_inv_read) (simp_all add: Client_read_def, simp add: log_to_def)
    with assms(3) OpAccept handles_client_inv [OF h] show ?thesis
      by (auto simp: Server_complete_def Server_onAccept_def Let_def simp flip: rest_def split: if_splits sum.splits)
  next
    case (OpRead c)
    with assms(3) h asio_inv_handleRead show ?thesis by (auto simp: Server_complete_def Let_def simp flip: rest_def)
  next
    case (OpWrite c d)
    have "d = full_response"
      using assms(1) OpWrite nth_mem [OF assms(2)] unfolding asio_inv_def by metis
    with h OpWrite have "handles_client c (rest\<lparr>as_sent := as_sent rest @ [(c, take (cp_bytes ev) d)]\<rparr>)"
      by (auto simp: handles_client_def asio_inv_def)
    with assms(3) OpWrite asio_inv_read show ?thesis
      by (auto simp: Server_complete_def Client_written_def Let_def simp flip: rest_def)
  qed
qed

lemma asio_inv_run: "asio_inv s \<Longrightarrow> AsioServer_run evs s = Inr s' \<Longrightarrow> asio_inv s'"
proof (induction evs s rule: AsioServer_run.induct)
  case (2 ev evs s)
  then show ?case using asio_inv_complete by (auto simp: bindE_eq_Inr_iff split: if_splits)
qed simp

lemma asio_main_run:
  assumes "asio_main tid None evs = Inr (r, s)"
  shows "\<exists>s0. asio_inv s0 \<and> AsioServer_run evs s0 = Inr s"
proof -
  have "asio_inv (log_to (Server_startAccept (log_to asio_init a)) b)" for a b
    by (simp add: asio_inv_def log_to_def Server_startAccept_def asio_init_def)
  with assms show ?thesis
    unfolding asio_main_def Server_startServer_def by (auto simp: bindE_eq_Inr_iff)
qed



text \<open>
  C24: whatever completions the service reports, and whichever of the four threads runs a handler, no
  client has two operations outstanding, so its handlers never run at the same time, at most one accept is
  pending, the buffer of a pending write is not touched, and what a peer receives is a piece of the one answer.
\<close>

theorem asio_server_serialised:
  assumes "asio_main tid None evs = Inr (r, s)"
  shows "distinct (map op_client (as_ops s)) \<and> length (filter is_OpAccept (as_ops s)) \<le> 1 \<and>
    (\<forall>c d. OpWrite c d \<in> set (as_ops s) \<longrightarrow> as_bufs s ! c = d) \<and>
    (\<forall>(c, d) \<in> set (as_sent s). \<exists>n. d = take n full_response)"
proof -
  have "asio_inv s" using asio_main_run [OF assms] asio_inv_run by blast
  then show ?thesis by (simp add: asio_inv_def)
qed

text \<open>A client connects, sends a request and is sent the first 60 bytes of the answer, of which 9 were never written.\<close>

theorem asio_server_serialised_witness:
  "\<exists>s. asio_main 7 None
     [\<lparr>cp_op = 0, cp_ec = NoError, cp_bytes = 0, cp_remote = Inr ''127.0.0.1'', cp_thread = 8\<rparr>,
      \<lparr>cp_op = 0, cp_ec = NoError, cp_bytes = 16, cp_remote = Inr [], cp_thread = 9\<rparr>,
      \<lparr>cp_op = 1, cp_ec = NoError, cp_bytes = 60, cp_remote = Inr [], cp_thread = 8\<rparr>] = Inr (0, s) \<and>
     as_ops s = [OpAccept 1, OpRead 0] \<and> distinct (map op_client (as_ops s))"
proof -
  let ?evs = "[\<lparr>cp_op = 0, cp_ec = NoError, cp_bytes = 0, cp_remote = Inr ''127.0.0.1'', cp_thread = 8\<rparr>,
      \<lparr>cp_op = 0, cp_ec = NoError, cp_bytes = 16, cp_remote = Inr [], cp_thread = 9\<rparr>,
      \<lparr>cp_op = 1, cp_ec = NoError, cp_bytes = 60, cp_remote = Inr [], cp_thread = 8\<rparr>]"
  have "\<exists>s. asio_main 7 None ?evs = Inr (0, s) \<and> as_ops s = [OpAccept 1, OpRead 0]"
    by (simp add: asio_main_def Server_startServer_def Server_startAccept_def asio_init_def log_to_def
        Server_complete_def Server_onAccept_def Client_handleRead_def Client_written_def Client_read_def Let_def)
  then show ?thesis using asio_server_serialised by blast
qed



section \<open>Properties of the HTTP client\<close>

lemma getline_crlf:
  assumes "CHR 0x0A \<notin> set l"
  shows "getline \<lparr>is_rest = l @ crlf @ rest, is_bad = False\<rparr> = (l @ [CHR 0x0D], \<lparr>is_rest = rest, is_bad = False\<rparr>)"
proof -
  have "takeWhile (\<lambda>c. c \<noteq> CHR 0x0A) (l @ crlf @ rest) = l @ [CHR 0x0D]"
    using assms by (subst takeWhile_append2) auto
  then show ?thesis by (simp add: getline_def)
qed

lemma http_headers_lines:
  assumes "\<And>h. h \<in> set hs \<Longrightarrow> h \<noteq> [] \<and> CHR 0x0A \<notin> set h"
  shows "http_headers \<lparr>is_rest = concat (map (\<lambda>h. h @ crlf) hs) @ crlf @ body, is_bad = False\<rparr> =
    (concat (map (\<lambda>h. [CStr (h @ [CHR 0x0D]), CStr lf]) hs), \<lparr>is_rest = body, is_bad = False\<rparr>)"
  using assms
proof (induction hs)
  case Nil
  show ?case using getline_crlf [of "[]" body] by (subst http_headers.simps) simp
next
  case (Cons h hs)
  then have h: "h \<noteq> []" "CHR 0x0A \<notin> set h" by auto
  have "http_headers \<lparr>is_rest = concat (map (\<lambda>h. h @ crlf) hs) @ crlf @ body, is_bad = False\<rparr> =
    (concat (map (\<lambda>h. [CStr (h @ [CHR 0x0D]), CStr lf]) hs), \<lparr>is_rest = body, is_bad = False\<rparr>)"
    using Cons by simp
  with h getline_crlf [OF h(2), of "concat (map (\<lambda>h. h @ crlf) hs) @ crlf @ body"] show ?case
    by (subst http_headers.simps) simp
qed

lemma read_word_plain:
  assumes "w \<noteq> []" "\<forall>c \<in> set w. \<not> is_space c"
  shows "read_word \<lparr>is_rest = w @ CHR '' '' # rest, is_bad = False\<rparr> = (w, \<lparr>is_rest = CHR '' '' # rest, is_bad = False\<rparr>)"
proof -
  have "dropWhile is_space (w @ CHR '' '' # rest) = w @ CHR '' '' # rest" using assms by (cases w) auto
  moreover have "takeWhile (\<lambda>c. \<not> is_space c) (w @ CHR '' '' # rest) = w"
    using assms(2) by (simp add: takeWhile_append2 is_space_def)
  ultimately show ?thesis using assms(1) by (simp add: read_word_def)
qed

lemma read_unsigned_decimal:
  assumes "n < 2 ^ 32"
  shows "read_unsigned \<lparr>is_rest = CHR '' '' # nat_to_string n @ CHR '' '' # rest, is_bad = False\<rparr> =
    (n, \<lparr>is_rest = CHR '' '' # rest, is_bad = False\<rparr>)"
proof -
  obtain d ds where n: "nat_to_string n = d # ds" using nat_to_string_nonempty by (meson neq_Nil_conv)
  then have d: "is_digit d" "list_all is_digit ds" using nat_to_string_digits [of n] by auto
  have "takeWhile is_digit (nat_to_string n @ CHR '' '' # rest) = nat_to_string n"
    using nat_to_string_digits [of n] by (simp add: takeWhile_append2 list_all_iff is_digit_def)
  moreover have "dropWhile is_space (CHR '' '' # nat_to_string n @ CHR '' '' # rest) = nat_to_string n @ CHR '' '' # rest"
    using is_digit_not_space [OF d(1)] n by (auto simp: is_space_def)
  ultimately show ?thesis
    using assms n is_digit_not_space [OF d(1)] digits_val_nat_to_string [of n]
    by (simp add: read_unsigned_def Let_def)
qed

text \<open>
  C30: what \<open>sync_http_full\<close> prints for a well-formed response: of a response other than 200 the status
  code alone; of a response 200 every header line with its CR, an empty line, and the body as it was sent. The
  request it answers names the host of the URL.
\<close>

theorem sync_http_full_prints:
  assumes url: "CHR ''/'' \<notin> set scheme" "CHR ''/'' \<notin> set host" "host \<noteq> []" "rest = [] \<or> hd rest = CHR ''/''"
      "length (scheme @ ''//'' @ host @ rest) < 2 ^ 63" "CHR 0x00 \<notin> set (scheme @ host @ rest)"
    and conn: "connect host = Inr server"
    and resp: "server (''GET '' @ (scheme @ ''//'' @ host @ rest) @ '' HTTP/1.0'' @ crlf @ ''Host: '' @ host @ crlf @
        ''Accept: */*'' @ crlf @ ''Connection: close'' @ crlf @ crlf) =
      ''HTTP/'' @ v @ '' '' @ nat_to_string code @ '' '' @ msg @ crlf @ concat (map (\<lambda>h. h @ crlf) hs) @ crlf @ body"
    and form: "\<forall>c \<in> set v. \<not> is_space c" "code < 2 ^ 32" "CHR 0x0A \<notin> set msg"
      "\<And>h. h \<in> set hs \<Longrightarrow> h \<noteq> [] \<and> CHR 0x0A \<notin> set h"
  shows "sync_http_full connect (scheme @ ''//'' @ host @ rest) =
    (if code = 200 then concat (map (\<lambda>h. [CStr (h @ [CHR 0x0D]), CStr lf]) hs) @ [CStr lf, CStr body]
     else [CStr ''Response returned with status code '', CInt (int code), CStr lf])"
proof -
  let ?hb = "concat (map (\<lambda>h. h @ crlf) hs) @ crlf @ body"
  have z: "c_str host = host" "c_str (scheme @ ''//'' @ host @ rest) = scheme @ ''//'' @ host @ rest"
    using url(6) by (auto simp: c_str_def takeWhile_eq_all_conv)
  have "sync_http_full connect (scheme @ ''//'' @ host @ rest) = http_response
     \<lparr>is_rest = (''HTTP/'' @ v) @ CHR '' '' # nat_to_string code @ CHR '' '' # msg @ crlf @ ?hb, is_bad = False\<rparr>"
    using url_host_between [OF url(1-5)] z conn resp by (simp add: sync_http_full_def http_request_def)
  moreover have "read_word \<lparr>is_rest = (''HTTP/'' @ v) @ CHR '' '' # nat_to_string code @ CHR '' '' # msg @ crlf @ ?hb,
      is_bad = False\<rparr> =
    (''HTTP/'' @ v, \<lparr>is_rest = CHR '' '' # nat_to_string code @ CHR '' '' # msg @ crlf @ ?hb, is_bad = False\<rparr>)"
    using form(1) by (intro read_word_plain) (auto simp: is_space_def)
  moreover have "getline \<lparr>is_rest = (CHR '' '' # msg) @ crlf @ ?hb, is_bad = False\<rparr> =
    ((CHR '' '' # msg) @ [CHR 0x0D], \<lparr>is_rest = ?hb, is_bad = False\<rparr>)"
    using form(3) by (intro getline_crlf) simp
  ultimately show ?thesis
    using read_unsigned_decimal [OF form(2), of "msg @ crlf @ ?hb"] http_headers_lines [of hs body] form(4)
    by (simp add: http_response_def)
qed

theorem sync_http_full_prints_witness:
  "sync_http_full (\<lambda>host. Inr (\<lambda>request. ''HTTP/1.1 200 OK'' @ crlf @ ''A: b'' @ crlf @ crlf @ ''text''))
     ''http://ya.ru/'' = [CStr (''A: b'' @ [CHR 0x0D]), CStr lf, CStr lf, CStr ''text'']"
proof -
  have "nat_to_string 200 = ''200''" by code_simp
  then show ?thesis
    using sync_http_full_prints [of "''http:''" "''ya.ru''" "''/''"
      "\<lambda>host. Inr (\<lambda>request. ''HTTP/1.1 200 OK'' @ crlf @ ''A: b'' @ crlf @ crlf @ ''text'')"
      "\<lambda>request. ''HTTP/1.1 200 OK'' @ crlf @ ''A: b'' @ crlf @ crlf @ ''text''" "''1.1''" 200 "''OK''" "[''A: b'']" "''text''"]
    by (simp add: is_space_def)
qed

section \<open>Properties of the other functions\<close>

text \<open>\<open>sync\<close> prints the buffer as a C string: a reply without a NUL byte is never terminated.\<close>

theorem sync_reply_unterminated:
  assumes "CHR 0x00 \<notin> set received"
  shows "fst (sync None received w) =
    Inl (Undefined (if length received < 1024 then UninitialisedRead else OutOfBoundsRead))"
proof -
  have "CHR 0x00 \<notin> set (take 1024 received)" using assms by (auto dest: in_set_takeD)
  moreover have "c_chars (replicate (1024 - length received) None) =
      Inl (Undefined (if length received < 1024 then UninitialisedRead else OutOfBoundsRead))"
    by (cases "1024 - length received") auto
  ultimately have "c_chars (sync_reply received) =
      Inl (Undefined (if length received < 1024 then UninitialisedRead else OutOfBoundsRead))"
    using c_chars_plain unfolding sync_reply_def by simp
  then show ?thesis by (simp add: sync_def prog_defs)
qed

text \<open>Each of the posted handlers runs once, in whatever order the service takes them.\<close>

lemma run_many_all:
  assumes "\<And>n. 0 < n \<Longrightarrow> pick n < n" "\<And>h w. h \<in> set hs \<Longrightarrow> \<exists>ts. h = print ts"
  shows "\<exists>ps. mset ps = mset hs \<and> run_many pick (length hs) hs w = (Inr [], snd (seqP ps w))"
  using assms(2)
proof (induction "length hs" arbitrary: hs w)
  case (Suc n)
  let ?i = "pick (length hs)"
  have i: "?i < length hs" using Suc(2) by (intro assms(1)) linarith
  let ?rest = "take ?i hs @ drop (Suc ?i) hs"
  obtain ts where ts: "hs ! ?i = print ts" using Suc(3) i nth_mem by blast
  have n: "n = length ?rest" using Suc(2) i by simp
  moreover have "set ?rest \<subseteq> set hs" by (auto dest: in_set_takeD in_set_dropD)
  ultimately obtain ps where ps: "mset ps = mset ?rest"
      "run_many pick (length ?rest) ?rest (w\<lparr>cw_out := cw_out w @ ts\<rparr>) =
       (Inr [], snd (seqP ps (w\<lparr>cw_out := cw_out w @ ts\<rparr>)))"
    using Suc(1) [of ?rest] Suc(3) by blast
  have "mset (hs ! ?i # ps) = mset hs"
    using ps(1) arg_cong [OF id_take_nth_drop [OF i], of mset] by simp
  moreover have "hs \<noteq> []" using i by auto
  then have "run_many pick (Suc n) hs w = (Inr [], snd (seqP (hs ! ?i # ps) w))"
    using ps(2) ts n by (simp add: thenP_def bindP_def print_def returnP_def Let_def)
  ultimately show ?case unfolding Suc(2) by blast
qed (auto simp: returnP_def intro: exI [of _ "[]"])

theorem queue_test_runs_all:
  assumes "\<And>n. 0 < n \<Longrightarrow> pick n < n"
  shows "\<exists>ps. mset ps = mset posted \<and> queue_test pick w = (Inr [], snd (seqP ps w))"
proof -
  have "\<exists>ts. h = print ts" if "h \<in> set posted" for h
    using that by (auto simp: posted_def func_def Struct_call_def Class_funcA_def Class_funcC_def println_def)
  moreover have "length posted = 6" by (simp add: posted_def)
  ultimately show ?thesis using run_many_all [OF assms, of posted w] by (simp add: queue_test_def)
qed

end
