(* ===== verification/Libevent_App.thy ===== *)
theory Libevent_App
  imports Socket Asio_Apps
begin

text \<open>
  \<open>src/net/libevent/main.cpp\<close>: an echo server made of callbacks. libevent is not part of the
  repository: \<open>evbuffer_readln\<close> is an argument of the model, and the loop \<open>event_base_dispatch\<close> is
  given as the sequence of the events for which it calls the callbacks. The callbacks, the two buffers of a
  \<open>bufferevent\<close> and \<open>main\<close> are modelled whole.
\<close>

section \<open>State and callbacks\<close>

text \<open>A \<open>bufferevent\<close>: its descriptor, what has come in and was not taken, what is to be sent.\<close>

record bufferevent =
  be_fd :: int
  be_input :: string
  be_output :: string

text \<open>A freed \<open>bufferevent\<close> is an empty position.\<close>

record event_base =
  eb_bufs :: "bufferevent option list"
  eb_log :: "cout list"
  eb_exit :: bool

definition eb_say :: "cout list \<Rightarrow> event_base \<Rightarrow> event_base" where
  "eb_say ts b = b\<lparr>eb_log := eb_log b @ ts\<rparr>"

type_synonym readln = "string \<Rightarrow> (string \<times> string) option"

definition echo_line :: "string \<Rightarrow> string" where
  "echo_line line = ''echo: '' @ line @ crlf"

definition echo_read_cb :: "readln \<Rightarrow> int \<Rightarrow> nat \<Rightarrow> bufferevent \<Rightarrow> event_base \<Rightarrow> event_base" where
  "echo_read_cb evbuffer_readln tid i be b =
     (case evbuffer_readln (be_input be) of
        None \<Rightarrow> b\<lparr>eb_bufs := (eb_bufs b)[i := Some be]\<rparr>
      | Some (line, rest) \<Rightarrow>
          let request_line = c_str line
          in eb_say [CStr ''thread id : '', CInt tid, CStr ''read: '', CStr request_line, CEndl]
               (b\<lparr>eb_bufs := (eb_bufs b)[i := Some (be\<lparr>be_input := rest,
                  be_output := be_output be @ echo_line request_line\<rparr>)]\<rparr>))"

definition echo_event_cb :: "bool \<Rightarrow> bool \<Rightarrow> string \<Rightarrow> nat \<Rightarrow> event_base \<Rightarrow> event_base" where
  "echo_event_cb error eof strerror i b =
     (let b1 = (if error then eb_say [CStr ''bufferevent error: '', CStr strerror, CEndl] b else b)
      in if eof \<or> error then
           (eb_say [CStr ''client close connection'', CEndl] b1)\<lparr>eb_bufs := (eb_bufs b1)[i := None]\<rparr>
         else b1)"

text \<open>\<open>made\<close> tells whether \<open>bufferevent_socket_new\<close> returns an object; the code goes on with a null pointer.\<close>

definition accept_connection_cb :: "bool \<Rightarrow> int \<Rightarrow> 32 word \<Rightarrow> event_base \<Rightarrow> cpp_error + event_base" where
  "accept_connection_cb made fd addr b =
     (let b1 = eb_say [CStr ''accepted from: '', CStr (int2ipv4 addr), CEndl] b
      in if made then Inr (b1\<lparr>eb_bufs := eb_bufs b1 @ [Some \<lparr>be_fd = fd, be_input = [], be_output = []\<rparr>]\<rparr>)
         else Inl (Undefined NullDeref))"

definition accept_error_cb :: "int \<Rightarrow> string \<Rightarrow> event_base \<Rightarrow> event_base" where
  "accept_error_cb error msg b =
     (eb_say [CStr ''listener error: '', CInt error, CStr '' ('', CStr msg, CStr '')'', CEndl] b)\<lparr>eb_exit := True\<rparr>"

section \<open>The loop\<close>

text \<open>
  What the loop reports: a connection, an error of the listener, data that was read into the input buffer
  of a \<open>bufferevent\<close>, bytes of its output buffer that were sent, an error or the end of its connection.
\<close>

datatype lev_event =
    LevAccept bool int "32 word"
  | LevAcceptError int string
  | LevRead int nat string
  | LevWritten nat nat
  | LevEvent nat bool bool string

definition live_buf :: "event_base \<Rightarrow> nat \<Rightarrow> bufferevent option" where
  "live_buf b i = (if i < length (eb_bufs b) then eb_bufs b ! i else None)"

text \<open>
  The loop itself is the library's. As its documentation says, it appends what has arrived to the input buffer and calls the
  read callback once, takes what was sent off the output buffer, and calls callbacks of live objects
  only; other events do not occur, and change nothing here.
\<close>

fun lev_dispatch1 :: "readln \<Rightarrow> lev_event \<Rightarrow> event_base \<Rightarrow> cpp_error + event_base" where
  "lev_dispatch1 readln (LevAccept made fd addr) b = accept_connection_cb made fd addr b"
| "lev_dispatch1 readln (LevAcceptError error msg) b = Inr (accept_error_cb error msg b)"
| "lev_dispatch1 readln (LevRead tid i data) b =
     Inr (case live_buf b i of
            None \<Rightarrow> b
          | Some be \<Rightarrow> echo_read_cb readln tid i (be\<lparr>be_input := be_input be @ data\<rparr>) b)"
| "lev_dispatch1 readln (LevWritten i n) b =
     Inr (case live_buf b i of
            None \<Rightarrow> b
          | Some be \<Rightarrow> b\<lparr>eb_bufs := (eb_bufs b)[i := Some (be\<lparr>be_output := drop n (be_output be)\<rparr>)]\<rparr>)"
| "lev_dispatch1 readln (LevEvent i error eof msg) b =
     Inr (case live_buf b i of None \<Rightarrow> b | Some be \<Rightarrow> echo_event_cb error eof msg i b)"

fun event_base_dispatch :: "readln \<Rightarrow> lev_event list \<Rightarrow> event_base \<Rightarrow> cpp_error + event_base" where
  "event_base_dispatch readln [] b = Inr b"
| "event_base_dispatch readln (ev # evs) b =
     (if eb_exit b then Inr b else bindE (lev_dispatch1 readln ev b) (event_base_dispatch readln evs))"

section \<open>main\<close>

text \<open>\<open>atoi\<close>; a number outside of \<open>int\<close> has no defined result.\<close>

definition c_atoi :: "string \<Rightarrow> cpp_error + int" where
  "c_atoi s =
     (case stoi s of
        Inr v \<Rightarrow> Inr v
      | Inl e \<Rightarrow> if e = Throw ''std::invalid_argument'' then Inr 0 else Inl (Undefined IntOverflow))"

text \<open>What the library answers: whether it can make the base and the listener, and what it says about itself.\<close>

record libevent =
  le_base :: bool
  le_methods :: "string list"
  le_version :: string
  le_method :: string
  le_listener :: bool

definition libevent_main :: "libevent \<Rightarrow> readln \<Rightarrow> lev_event list \<Rightarrow> string list \<Rightarrow> cpp_error + int \<times> event_base" where
  "libevent_main lib readln evs argv =
     bindE (if length argv > 1 then c_atoi (argv ! 1) else Inr 5001) (\<lambda>port.
       let b = \<lparr>eb_bufs = [], eb_log = [], eb_exit = False\<rparr>
       in if port < 0 \<or> port > 65535 then Inr (- 1, eb_say [CStr ''bad port'', CEndl] b)
          else if \<not> le_base lib then Inr (- 1, eb_say [CStr ''error to create event_loop base'', CEndl] b)
          else
            let b1 = eb_say ([CStr (''Starting Libevent '' @ le_version lib @ ''.  Available methods are:'' @ lf)] @
                   map (\<lambda>m. CStr (''    '' @ m @ lf)) (le_methods lib) @
                   [CStr (''default method for Libevent is '' @ le_method lib @ lf)]) b
            in if \<not> le_listener lib then Inr (- 1, eb_say [CStr ''error to create event listener'', CEndl] b1)
               else
                 bindE (event_base_dispatch readln evs (eb_say [CStr ''start listen on port: '', CInt port, CEndl] b1))
                   (\<lambda>b2. Inr (0, b2)))"

section \<open>Properties\<close>

text \<open>
  What libevent documents of \<open>evbuffer_readln\<close> with \<open>EVBUFFER_EOL_CRLF\<close>: a line ends with a linefeed,
  before which one carriage return is dropped; without a linefeed there is no line.
\<close>

definition drop_cr :: "string \<Rightarrow> string" where
  "drop_cr l = (if l \<noteq> [] \<and> last l = CHR 0x0D then butlast l else l)"

definition eol_crlf :: "readln \<Rightarrow> bool" where
  "eol_crlf readln \<longleftrightarrow>
     (\<forall>b. CHR 0x0A \<notin> set b \<longrightarrow> readln b = None) \<and>
     (\<forall>l rest. CHR 0x0A \<notin> set l \<longrightarrow> readln (l @ CHR 0x0A # rest) = Some (drop_cr l, rest))"

text \<open>The events of one connection that sends \<open>segs\<close>, piece by piece.\<close>

definition segments :: "nat \<Rightarrow> string list \<Rightarrow> lev_event list" where
  "segments i segs = map (LevRead 1 i) segs"

lemma readln_crlf:
  assumes "eol_crlf readln" "CHR 0x0A \<notin> set l"
  shows "readln (l @ crlf @ rest) = Some (l, rest)"
proof -
  have "CHR 0x0A \<notin> set (l @ [CHR 0x0D])" using assms(2) by simp
  then have "readln ((l @ [CHR 0x0D]) @ CHR 0x0A # rest) = Some (drop_cr (l @ [CHR 0x0D]), rest)"
    using assms(1) unfolding eol_crlf_def by blast
  then show ?thesis by (simp add: drop_cr_def)
qed

lemma c_str_plain: "CHR 0x00 \<notin> set l \<Longrightarrow> c_str l = l"
  by (auto simp: c_str_def takeWhile_eq_all_conv)

text \<open>One read callback: a line that is complete is answered, what follows it stays in the buffer.\<close>

lemma read_one_line:
  assumes "eol_crlf readln" "CHR 0x0A \<notin> set l" "CHR 0x00 \<notin> set l" "live_buf b i = Some be"
    and "be_input be @ data = l @ crlf @ rest"
  shows "\<exists>b'. lev_dispatch1 readln (LevRead tid i data) b = Inr b' \<and> eb_exit b' = eb_exit b \<and>
    live_buf b' i = Some (be\<lparr>be_input := rest, be_output := be_output be @ echo_line l\<rparr>)"
proof -
  have "i < length (eb_bufs b)" using assms(4) by (auto simp: live_buf_def split: if_splits)
  then show ?thesis
    using assms(4,5) readln_crlf [OF assms(1,2)] c_str_plain [OF assms(3)]
    by (simp add: echo_read_cb_def eb_say_def live_buf_def Let_def)
qed

lemma segments_echo:
  assumes "eol_crlf readln" "live_buf b i = Some be" "be_input be = []" "\<not> eb_exit b"
    and "\<And>l. l \<in> set ls \<Longrightarrow> CHR 0x0A \<notin> set l \<and> CHR 0x00 \<notin> set l"
  shows "\<exists>b'. event_base_dispatch readln (segments i (map (\<lambda>l. l @ crlf) ls)) b = Inr b' \<and>
    live_buf b' i = Some (be\<lparr>be_output := be_output be @ concat (map echo_line ls)\<rparr>)"
  using assms(2-5)
proof (induction ls arbitrary: b be)
  case (Cons l ls)
  have l: "CHR 0x0A \<notin> set l" "CHR 0x00 \<notin> set l" using Cons.prems(4) by auto
  obtain b1 where b1: "lev_dispatch1 readln (LevRead 1 i (l @ crlf)) b = Inr b1" "eb_exit b1 = eb_exit b"
      "live_buf b1 i = Some (be\<lparr>be_input := [], be_output := be_output be @ echo_line l\<rparr>)"
    using read_one_line [OF assms(1) l Cons.prems(1), of "l @ crlf" "[]" 1] Cons.prems(2) by auto
  then show ?case
    using Cons.IH [OF b1(3)] Cons.prems by (fastforce simp: segments_def)
qed (simp add: segments_def)

text \<open>
  C35: a client that sends one line per segment has every line echoed. When the same lines arrive in
  one segment only the first is: the callback takes one line, and it is not called again before more data
  arrives, so the other lines stay in the input buffer.
\<close>

theorem libevent_echo:
  assumes "eol_crlf readln" "live_buf b i = Some be" "be_input be = []" "\<not> eb_exit b"
    and "\<And>k. k \<in> set (l # ls) \<Longrightarrow> CHR 0x0A \<notin> set k \<and> CHR 0x00 \<notin> set k"
  shows "(\<exists>b'. event_base_dispatch readln (segments i (map (\<lambda>k. k @ crlf) (l # ls))) b = Inr b' \<and>
      live_buf b' i = Some (be\<lparr>be_output := be_output be @ concat (map echo_line (l # ls))\<rparr>)) \<and>
    (\<exists>b'. event_base_dispatch readln (segments i [concat (map (\<lambda>k. k @ crlf) (l # ls))]) b = Inr b' \<and>
      live_buf b' i = Some (be\<lparr>be_input := concat (map (\<lambda>k. k @ crlf) ls), be_output := be_output be @ echo_line l\<rparr>))"
proof (rule conjI)
  show "\<exists>b'. event_base_dispatch readln (segments i (map (\<lambda>k. k @ crlf) (l # ls))) b = Inr b' \<and>
      live_buf b' i = Some (be\<lparr>be_output := be_output be @ concat (map echo_line (l # ls))\<rparr>)"
    using assms by (rule segments_echo)
  have "CHR 0x0A \<notin> set l" "CHR 0x00 \<notin> set l" using assms(5) [of l] by auto
  from read_one_line [OF assms(1) this assms(2), of _ "concat (map (\<lambda>k. k @ crlf) ls)" 1] assms(3,4)
  show "\<exists>b'. event_base_dispatch readln (segments i [concat (map (\<lambda>k. k @ crlf) (l # ls))]) b = Inr b' \<and>
      live_buf b' i = Some (be\<lparr>be_input := concat (map (\<lambda>k. k @ crlf) ls), be_output := be_output be @ echo_line l\<rparr>)"
    by (fastforce simp: segments_def)
qed

text \<open>A reader with the documented behaviour.\<close>

definition split_line :: readln where
  "split_line b =
     (if CHR 0x0A \<in> set b
      then Some (drop_cr (takeWhile (\<lambda>c. c \<noteq> CHR 0x0A) b), tl (dropWhile (\<lambda>c. c \<noteq> CHR 0x0A) b)) else None)"

lemma split_line_eol_crlf: "eol_crlf split_line"
proof -
  have "split_line (l @ CHR 0x0A # rest) = Some (drop_cr l, rest)" if "CHR 0x0A \<notin> set l" for l rest
  proof -
    have "\<And>c. c \<in> set l \<Longrightarrow> c \<noteq> CHR 0x0A" using that by auto
    then show ?thesis by (simp add: split_line_def takeWhile_append2 dropWhile_append2)
  qed
  then show ?thesis by (simp add: eol_crlf_def split_line_def)
qed

theorem libevent_echo_witness:
  "\<exists>b'. event_base_dispatch split_line (segments 0 [''a'' @ crlf @ ''b'' @ crlf])
     \<lparr>eb_bufs = [Some \<lparr>be_fd = 5, be_input = [], be_output = []\<rparr>], eb_log = [], eb_exit = False\<rparr> = Inr b' \<and>
     live_buf b' 0 = Some \<lparr>be_fd = 5, be_input = ''b'' @ crlf, be_output = ''echo: a'' @ crlf\<rparr>"
proof -
  let ?be = "\<lparr>be_fd = 5, be_input = [], be_output = []\<rparr>"
  let ?b = "\<lparr>eb_bufs = [Some ?be], eb_log = [], eb_exit = False\<rparr>"
  have "live_buf ?b 0 = Some ?be" by (simp add: live_buf_def)
  moreover have "CHR 0x0A \<notin> set k \<and> CHR 0x00 \<notin> set k" if "k \<in> set [''a'', ''b'']" for k
    using that by auto
  ultimately show ?thesis
    using libevent_echo [OF split_line_eol_crlf, of ?b 0 ?be "''a''" "[''b'']"] by (simp add: echo_line_def)
qed

text \<open>
  A port outside of the range is refused before anything is made; without a base or a listener the program
  ends with -1 as well.
\<close>

theorem libevent_main_refuses:
  assumes "length argv > 1" "c_atoi (argv ! 1) = Inr port"
    and "port < 0 \<or> port > 65535 \<or> \<not> le_base lib \<or> \<not> le_listener lib"
  shows "\<exists>b. libevent_main lib readln evs argv = Inr (- 1, b) \<and> eb_bufs b = []"
  using assms by (auto simp: libevent_main_def eb_say_def Let_def)

end
