(* ===== verification/Patterns.thy ===== *)
theory Patterns
  imports Cpp_Prog
begin

text \<open>
  The examples on patterns and on the standard containers: \<open>027_RTTI.cpp\<close>, \<open>029_abstract_factory.cpp\<close>,
  \<open>030_adapter.cpp\<close>, \<open>032_command.cpp\<close>, \<open>033_observer.cpp\<close>, \<open>034_visitor.cpp\<close>, \<open>035_vector.cpp\<close>,
  \<open>036_vector_2.cpp\<close>, \<open>040_erase_remove.cpp\<close> and \<open>042_crtp_class.cpp\<close>. A class hierarchy is a datatype of its
  concrete classes, and a virtual function a function by cases on it; an object behind a pointer lives in a store.
\<close>

section \<open>027\_RTTI.cpp\<close>

datatype rtti_class = RA | RB | RC

fun derives :: "rtti_class \<Rightarrow> rtti_class \<Rightarrow> bool" where
  "derives RB RA = True"
| "derives x y = (x = y)"

text \<open>\<open>new A\<close>, \<open>new B\<close>, \<open>new C\<close>: the constructor of \<open>B\<close> runs after that of \<open>A\<close> and prints the same line.\<close>

fun rtti_new :: "rtti_class \<Rightarrow> unit prog" where
  "rtti_new RA = println ''ctor A()''"
| "rtti_new RB = thenP (println ''ctor A()'') (println ''ctor A()'')"
| "rtti_new RC = returnP ()"

text \<open>\<open>dynamic_cast<T *>(p)\<close> for an object of the dynamic type \<open>dyn\<close>.\<close>

definition dynamic_cast :: "rtti_class \<Rightarrow> rtti_class \<Rightarrow> rtti_class option" where
  "dynamic_cast T dyn = (if derives dyn T then Some dyn else None)"

definition rtti_foo :: "rtti_class \<Rightarrow> unit prog" where
  "rtti_foo dyn =
     catchP (case dynamic_cast RB dyn of None \<Rightarrow> failP (Throw ''std::bad_cast'') | Some b \<Rightarrow> returnP ())
       (\<lambda>_. print [CStr ''bad cast''])"

text \<open>\<open>name\<close> is \<open>type_info::name\<close>, which the implementation chooses.\<close>

definition main_027 :: "(string \<Rightarrow> string) \<Rightarrow> unit prog" where
  "main_027 name = seqP
     [rtti_new RB,
      (case dynamic_cast RB RB of Some b \<Rightarrow> print [CStr ''b is a child of A''] | None \<Rightarrow> print [CStr ''b is not a child of A'']),
      print [CEndl],
      rtti_new RC,
      (case dynamic_cast RB RC of Some b \<Rightarrow> print [CStr ''b is a child of C''] | None \<Rightarrow> print [CStr ''b is not a child of C'']),
      print [CEndl],
      rtti_new RB, rtti_foo RB, print [CEndl],
      rtti_new RA, rtti_new RB,
      println ''a is A*'',
      whenP (RA = RA) (println ''*a is A''),
      println ''b is A*'',
      whenP (RB = RA) (println ''*b is B''),
      whenP (RB = RB) (println ''*b is B''),
      print [CStr ''reference to non-polymorphic base: '', CStr (name ''Base''), CStr lf],
      print [CStr ''reference to polymorphic base: '', CStr (name ''Derived2''), CStr lf]]"

section \<open>029\_abstract\_factory.cpp\<close>

datatype button = WinButton | MacButton
datatype checkbox = WinCheckBox | MacCheckBox
datatype gui_factory_class = WinGUIFactory | MacGUIFactory

fun Button_paint :: "button \<Rightarrow> unit prog" where
  "Button_paint WinButton = print [CStr (''WinButton'' @ lf)]"
| "Button_paint MacButton = print [CStr (''MacButton'' @ lf)]"

fun CheckBox_paint :: "checkbox \<Rightarrow> unit prog" where
  "CheckBox_paint WinCheckBox = print [CStr (''WinCheckBox'' @ lf)]"
| "CheckBox_paint MacCheckBox = print [CStr (''MacCheckBox'' @ lf)]"

fun createButton :: "gui_factory_class \<Rightarrow> button" where
  "createButton WinGUIFactory = WinButton"
| "createButton MacGUIFactory = MacButton"

fun createCheckBox :: "gui_factory_class \<Rightarrow> checkbox" where
  "createCheckBox WinGUIFactory = WinCheckBox"
| "createCheckBox MacGUIFactory = MacCheckBox"

definition gui_client :: "gui_factory_class \<Rightarrow> unit prog" where
  "gui_client factory = thenP (Button_paint (createButton factory)) (CheckBox_paint (createCheckBox factory))"

definition main_029 :: "unit prog" where
  "main_029 = gui_client MacGUIFactory"

section \<open>030\_adapter.cpp\<close>

definition fecthJson :: string where
  "fecthJson = ''{}'' @ lf"

datatype xml_reader = XmlReader | JsonToXmlAdapter | JsonToXmlAdapterClass

fun XmlReader_read :: "xml_reader \<Rightarrow> string prog" where
  "XmlReader_read XmlReader = returnP (''<>'' @ lf)"
| "XmlReader_read JsonToXmlAdapter = thenP (print [CStr fecthJson]) (returnP (''<>'' @ lf))"
| "XmlReader_read JsonToXmlAdapterClass = thenP (print [CStr fecthJson]) (returnP (''<>'' @ lf))"

definition Presentaion_Show :: "xml_reader \<Rightarrow> unit prog" where
  "Presentaion_Show reader = bindP (XmlReader_read reader) (\<lambda>s. print [CStr s])"

definition main_030 :: "unit prog" where
  "main_030 = seqP
     [Presentaion_Show XmlReader,
      print [CStr (''composition: '' @ lf)], Presentaion_Show JsonToXmlAdapter,
      print [CStr (''class: '' @ lf)], Presentaion_Show JsonToXmlAdapterClass]"

section \<open>032\_command.cpp\<close>

datatype document = Document

definition Document_insert :: "document \<Rightarrow> unit prog" where
  "Document_insert d = print [CStr (''insert command'' @ lf)]"

definition Document_remove :: "document \<Rightarrow> unit prog" where
  "Document_remove d = print [CStr (''remove command'' @ lf)]"

definition Document_copy :: "document \<Rightarrow> unit prog" where
  "Document_copy d = print [CStr (''copy command'' @ lf)]"

text \<open>A null pointer and an empty \<open>std::function\<close> are \<open>None\<close>.\<close>

datatype command =
    CopyCommand "document option"
  | RemoveCommand "document option"
  | CustomCommand "document option" "(document \<Rightarrow> unit prog) option" "unit prog option"

definition with_doc :: "document option \<Rightarrow> (document \<Rightarrow> unit prog) \<Rightarrow> unit prog" where
  "with_doc p f = (case p of None \<Rightarrow> failP (Undefined NullDeref) | Some d \<Rightarrow> f d)"

definition CustomCommand_doc :: "document option \<Rightarrow> (document \<Rightarrow> unit prog) option \<Rightarrow> command" where
  "CustomCommand_doc doc command = CustomCommand doc command None"

definition CustomCommand_any :: "unit prog option \<Rightarrow> command" where
  "CustomCommand_any command = CustomCommand None None command"

fun execute :: "command \<Rightarrow> unit prog" where
  "execute (CopyCommand doc) = with_doc doc Document_copy"
| "execute (RemoveCommand doc) = with_doc doc Document_remove"
| "execute (CustomCommand doc command any) =
     with_doc doc (\<lambda>d. case command of None \<Rightarrow> failP (Throw ''bad_function_call'') | Some f \<Rightarrow> f d)"

fun custom_execute :: "command \<Rightarrow> unit prog" where
  "custom_execute (CopyCommand doc) = returnP ()"
| "custom_execute (RemoveCommand doc) = returnP ()"
| "custom_execute (CustomCommand doc command any) =
     (case any of None \<Rightarrow> failP (Throw ''bad_function_call'') | Some f \<Rightarrow> f)"

text \<open>A \<open>CopyButton\<close> has no command, not even a null one, before \<open>setCommand\<close>.\<close>

type_synonym copy_button = "command option option"

definition setCommand :: "command option \<Rightarrow> copy_button \<Rightarrow> copy_button" where
  "setCommand command btn = Some command"

definition onClick :: "copy_button \<Rightarrow> unit prog" where
  "onClick btn =
     (case btn of
        None \<Rightarrow> failP (Undefined UninitialisedRead)
      | Some None \<Rightarrow> failP (Undefined NullDeref)
      | Some (Some command) \<Rightarrow> execute command)"

definition main_032 :: "unit prog" where
  "main_032 = seqP
     [onClick (setCommand (Some (CopyCommand (Some Document))) None),
      print [CStr (''Custom command '' @ lf)],
      Document_copy Document,
      Document_copy Document,
      execute (CustomCommand_doc (Some Document) (Some Document_copy)),
      custom_execute (CustomCommand_any (Some (Document_copy Document)))]"

section \<open>033\_observer.cpp\<close>

datatype observer = ConcreteObserver1 | ConcreteObserver2 | ConcreteObserver3

fun OnModelChanched :: "observer \<Rightarrow> unit prog" where
  "OnModelChanched ConcreteObserver1 = print [CStr (''hello from model 1'' @ lf)]"
| "OnModelChanched ConcreteObserver2 = print [CStr (''hello from model 2'' @ lf)]"
| "OnModelChanched ConcreteObserver3 = print [CStr (''hello from model 3'' @ lf)]"

text \<open>A model holds addresses of observers; \<open>objs\<close> tells what lives at an address.\<close>

record obs_model =
  observers :: "nat list"

definition AddObserver :: "nat \<Rightarrow> obs_model \<Rightarrow> obs_model" where
  "AddObserver p m = m\<lparr>observers := observers m @ [p]\<rparr>"

definition RemoveObserver :: "nat \<Rightarrow> obs_model \<Rightarrow> obs_model" where
  "RemoveObserver p m = m\<lparr>observers := filter (\<lambda>q. q \<noteq> p) (observers m)\<rparr>"

definition call_observer :: "(nat \<rightharpoonup> observer) \<Rightarrow> nat \<Rightarrow> unit prog" where
  "call_observer objs p = (case objs p of None \<Rightarrow> failP (Undefined UseAfterFree) | Some ob \<Rightarrow> OnModelChanched ob)"

definition Notify :: "(nat \<rightharpoonup> observer) \<Rightarrow> obs_model \<Rightarrow> unit prog" where
  "Notify objs m = seqP (map (call_observer objs) (observers m))"

definition SetData :: "(nat \<rightharpoonup> observer) \<Rightarrow> int \<Rightarrow> obs_model \<Rightarrow> unit prog" where
  "SetData objs new_data m = Notify objs m"

definition main_033 :: "unit prog" where
  "main_033 =
     (let objs = [1 \<mapsto> ConcreteObserver1, 2 \<mapsto> ConcreteObserver2, 3 \<mapsto> ConcreteObserver3];
          model = AddObserver 3 (AddObserver 2 (AddObserver 1 \<lparr>observers = []\<rparr>))
      in SetData objs 5 model)"

section \<open>034\_visitor.cpp\<close>

datatype building = City | Industry | House

fun BuildingVisitor_visit :: "building \<Rightarrow> unit prog" where
  "BuildingVisitor_visit City = print [CStr (''City visited'' @ lf)]"
| "BuildingVisitor_visit Industry = print [CStr (''Industry visited'' @ lf)]"
| "BuildingVisitor_visit House = print [CStr (''House visited'' @ lf)]"

fun BuildingVisitor_visit2 :: "building \<Rightarrow> unit prog" where
  "BuildingVisitor_visit2 City = print [CStr (''City*'' @ lf)]"
| "BuildingVisitor_visit2 Industry = print [CStr (''Industry*'' @ lf)]"
| "BuildingVisitor_visit2 House = print [CStr (''House*'' @ lf)]"

text \<open>A visitor is its two overloaded functions; each class passes itself, with its own type, to both.\<close>

definition accept :: "(building \<Rightarrow> unit prog) \<Rightarrow> (building \<Rightarrow> unit prog) \<Rightarrow> building \<Rightarrow> unit prog" where
  "accept visit visit2 b = thenP (visit b) (visit2 b)"

definition visit_all :: "building list \<Rightarrow> unit prog" where
  "visit_all buildings = seqP (map (accept BuildingVisitor_visit BuildingVisitor_visit2) buildings)"

definition main_034 :: "unit prog" where
  "main_034 = visit_all [City, House, Industry]"

section \<open>042\_crtp\_class.cpp\<close>

datatype crtp = Derived1 | Derived2 | Derived3

fun implementation :: "crtp \<Rightarrow> unit prog" where
  "implementation Derived1 = println ''Implementation Derived1''"
| "implementation Derived2 = println ''Implementation Derived2''"
| "implementation Derived3 = println ''Implementation Base''"

definition interface :: "crtp \<Rightarrow> unit prog" where
  "interface d = implementation d"

definition execute_042 :: "crtp \<Rightarrow> unit prog" where
  "execute_042 base = interface base"

definition int_add :: "int \<Rightarrow> int \<Rightarrow> cpp_error + int" where
  "int_add a b = (if in_int_range (a + b) then Inr (a + b) else Inl (Undefined IntOverflow))"

definition main_042 :: "unit prog" where
  "main_042 = seqP
     [execute_042 Derived1, execute_042 Derived2, execute_042 Derived3,
      bindP (liftP (int_add INT_MAX 100)) (\<lambda>i. print [CEndl])]"

section \<open>040\_erase\_remove.cpp\<close>

text \<open>\<open>std::remove_if\<close>: the elements that stay are moved to the front; the result is the new end.\<close>

definition remove_if_step :: "(int \<Rightarrow> bool) \<Rightarrow> int list \<times> nat \<Rightarrow> nat \<Rightarrow> int list \<times> nat" where
  "remove_if_step pred s i =
     (let (xs, result) = s in if pred (xs ! i) then (xs, result) else (xs[result := xs ! i], Suc result))"

definition remove_if :: "(int \<Rightarrow> bool) \<Rightarrow> int list \<Rightarrow> int list \<times> nat" where
  "remove_if pred xs = foldl (remove_if_step pred) (xs, 0) [0..<length xs]"

definition erase_remove :: "(int \<Rightarrow> bool) \<Rightarrow> int list \<Rightarrow> int list" where
  "erase_remove pred e = (let (xs, result) = remove_if pred e in take result xs)"

definition main_040 :: "unit prog" where
  "main_040 =
     (let e = erase_remove (\<lambda>el. el < 5) [1, 2, 3, 4, 5, 6]
      in thenP (seqP (map (\<lambda>el. print [CInt el, CStr '' '']) e)) (print [CEndl]))"

section \<open>035\_vector.cpp and 036\_vector\_2.cpp\<close>

record A_035 =
  param1 :: string
  param2 :: int

definition A_035_ctor :: "unit prog" where
  "A_035_ctor = print [CStr (''I am being constructed.'' @ lf)]"

definition A_035_move :: "unit prog" where
  "A_035_move = print [CStr (''I am being moved.'' @ lf)]"

definition A_035_copy :: "unit prog" where
  "A_035_copy = print [CStr (''I am being copied.'' @ lf)]"

text \<open>\<open>std::vector<A>\<close>: \<open>grow\<close> is the growth policy of the implementation.\<close>

record vec =
  vec_items :: "A_035 list"
  vec_capacity :: nat

text \<open>
  The move constructor of \<open>A\<close> may throw and \<open>A\<close> can be copied, so elements are copied to new storage.
\<close>

definition vec_relocate :: "nat \<Rightarrow> vec \<Rightarrow> vec prog" where
  "vec_relocate n v =
     thenP (seqP (map (\<lambda>_. A_035_copy) (vec_items v))) (returnP (v\<lparr>vec_capacity := n\<rparr>))"

definition vec_reserve :: "nat \<Rightarrow> vec \<Rightarrow> vec prog" where
  "vec_reserve n v = (if n > vec_capacity v then vec_relocate n v else returnP v)"

definition vec_append :: "(nat \<Rightarrow> nat) \<Rightarrow> unit prog \<Rightarrow> A_035 \<Rightarrow> vec \<Rightarrow> vec prog" where
  "vec_append grow build x v =
     bindP (if length (vec_items v) = vec_capacity v
            then thenP build (vec_relocate (grow (vec_capacity v)) v) else thenP build (returnP v))
       (\<lambda>v'. returnP (v'\<lparr>vec_items := vec_items v' @ [x]\<rparr>))"

definition vec_set :: "nat \<Rightarrow> A_035 \<Rightarrow> vec \<Rightarrow> vec prog" where
  "vec_set i x v = bindP (liftP (buf_write (vec_items v) i x)) (\<lambda>xs. returnP (v\<lparr>vec_items := xs\<rparr>))"

text \<open>The ways in which the programs append: from arguments, from a temporary, from an existing object.\<close>

datatype vec_op = EmplaceArgs A_035 | AppendTemporary A_035 | AppendObject A_035

fun vec_do :: "(nat \<Rightarrow> nat) \<Rightarrow> vec_op \<Rightarrow> vec \<Rightarrow> vec prog" where
  "vec_do grow (EmplaceArgs x) v = vec_append grow A_035_ctor x v"
| "vec_do grow (AppendTemporary x) v = thenP A_035_ctor (vec_append grow A_035_move x v)"
| "vec_do grow (AppendObject x) v = vec_append grow A_035_copy x v"

fun vec_item :: "vec_op \<Rightarrow> A_035" where
  "vec_item (EmplaceArgs x) = x"
| "vec_item (AppendTemporary x) = x"
| "vec_item (AppendObject x) = x"

definition main_035 :: "(nat \<Rightarrow> nat) \<Rightarrow> vec prog" where
  "main_035 grow =
     (let some_a = \<lparr>param1 = ''test'', param2 = 1\<rparr>;
          string1 = \<lparr>param1 = ''String1'', param2 = 1000\<rparr>;
          string2 = \<lparr>param1 = ''String2'', param2 = 2000\<rparr>;
          say = (\<lambda>s. print [CStr s])
      in thenP A_035_ctor
         (bindP (vec_reserve 10 \<lparr>vec_items = [], vec_capacity = 0\<rparr>) (\<lambda>v.
          thenP (say (lf @ ''emplace_back:'' @ lf))
         (bindP (vec_do grow (EmplaceArgs string1) v) (\<lambda>v.
          thenP (say (''----'' @ lf))
         (bindP (vec_do grow (AppendTemporary string1) v) (\<lambda>v.
          thenP (say (lf @ ''push_back:'' @ lf))
         (bindP (vec_do grow (AppendTemporary string2) v) (\<lambda>v.
          thenP (say (lf @ ''appending existing object:'' @ lf))
         (bindP (vec_do grow (AppendObject some_a) v) (vec_do grow (AppendObject some_a))))))))))))"

text \<open>\<open>036\<close> as far as it has a meaning: \<open>reserve\<close> makes room, not elements.\<close>

definition main_036 :: "vec prog" where
  "main_036 =
     (let some_a = \<lparr>param1 = ''test'', param2 = 1\<rparr>
      in thenP A_035_ctor
         (bindP (vec_reserve 2 \<lparr>vec_items = [], vec_capacity = 0\<rparr>) (\<lambda>v.
          if vec_capacity v \<noteq> 2 then failP (Abort ''v.capacity() == 2'')
          else bindP (vec_set 0 some_a v) (vec_set 1 some_a))))"

section \<open>Properties\<close>

text \<open>The products of a factory fit together: an interface with one law, kept by both factories.\<close>

fun button_family :: "button \<Rightarrow> string" where
  "button_family WinButton = ''Win''"
| "button_family MacButton = ''Mac''"

fun checkbox_family :: "checkbox \<Rightarrow> string" where
  "checkbox_family WinCheckBox = ''Win''"
| "checkbox_family MacCheckBox = ''Mac''"

locale gui_factory =
  fixes make_button :: button and make_checkbox :: checkbox and family :: string
  assumes button: "button_family make_button = family"
    and checkbox: "checkbox_family make_checkbox = family"
begin

lemma paints_family:
  "thenP (Button_paint make_button) (CheckBox_paint make_checkbox) =
   print [CStr (family @ ''Button'' @ lf), CStr (family @ ''CheckBox'' @ lf)]"
  using button checkbox by (cases make_button; cases make_checkbox) (auto simp: prog_defs)

end

interpretation win_gui: gui_factory "createButton WinGUIFactory" "createCheckBox WinGUIFactory" "''Win''"
  by unfold_locales simp_all

interpretation mac_gui: gui_factory "createButton MacGUIFactory" "createCheckBox MacGUIFactory" "''Mac''"
  by unfold_locales simp_all

theorem gui_clients:
  "gui_client WinGUIFactory = print [CStr (''WinButton'' @ lf), CStr (''WinCheckBox'' @ lf)] \<and>
   main_029 = print [CStr (''MacButton'' @ lf), CStr (''MacCheckBox'' @ lf)]"
  using win_gui.paints_family mac_gui.paints_family by (simp add: gui_client_def main_029_def)

lemma seqP_prints: "seqP (map (\<lambda>x. print (f x)) xs) w = (Inr (), w\<lparr>cw_out := cw_out w @ concat (map f xs)\<rparr>)"
  by (induction xs arbitrary: w) (simp_all add: prog_defs)

text \<open>The observers of a model after a sequence of additions (\<open>True\<close>) and removals.\<close>

fun observe :: "(bool \<times> nat) list \<Rightarrow> obs_model \<Rightarrow> obs_model" where
  "observe [] m = m"
| "observe ((add, p) # ops) m = observe ops (if add then AddObserver p m else RemoveObserver p m)"

fun hello :: "observer \<Rightarrow> cout" where
  "hello ConcreteObserver1 = CStr (''hello from model 1'' @ lf)"
| "hello ConcreteObserver2 = CStr (''hello from model 2'' @ lf)"
| "hello ConcreteObserver3 = CStr (''hello from model 3'' @ lf)"

lemma OnModelChanched_hello: "OnModelChanched ob = print [hello ob]"
  by (cases ob) simp_all

lemma Notify_prints:
  assumes "\<And>p. p \<in> set (observers m) \<Longrightarrow> objs p \<noteq> None"
  shows "Notify objs m w = (Inr (), w\<lparr>cw_out := cw_out w @ map (\<lambda>p. hello (the (objs p))) (observers m)\<rparr>)"
proof -
  have eq: "map (call_observer objs) (observers m) = map (\<lambda>p. print [hello (the (objs p))]) (observers m)"
    using assms by (force simp: call_observer_def OnModelChanched_hello)
  show ?thesis unfolding Notify_def eq seqP_prints by simp
qed

text \<open>How often an observer was added after its last removal.\<close>

fun registrations :: "nat \<Rightarrow> nat \<Rightarrow> (bool \<times> nat) list \<Rightarrow> nat" where
  "registrations p n [] = n"
| "registrations p n ((add, q) # ops) = registrations p (if q = p then (if add then Suc n else 0) else n) ops"

lemma count_observe: "count_list (observers (observe ops m)) p = registrations p (count_list (observers m) p) ops"
proof (induction ops arbitrary: m)
  case (Cons op ops)
  have "count_list (filter (\<lambda>q. q \<noteq> r) xs) p = (if p = r then 0 else count_list xs p)" for r xs
    by (induction xs) auto
  then show ?case using Cons by (cases op) (auto simp: AddObserver_def RemoveObserver_def)
qed simp

text \<open>
  a change of the model reaches every observer as often as it was added since it was last removed,
  provided that no observer was deleted while it was registered; with a deleted one the behaviour is undefined.
\<close>

theorem SetData_notifies:
  assumes "m = observe ops \<lparr>observers = []\<rparr>"
  shows "(\<forall>p. count_list (observers m) p = registrations p 0 ops) \<and>
    (if \<exists>p \<in> set (observers m). objs p = None then fst (SetData objs x m w) = Inl (Undefined UseAfterFree)
     else SetData objs x m w = (Inr (), w\<lparr>cw_out := cw_out w @ map (\<lambda>p. hello (the (objs p))) (observers m)\<rparr>))"
proof -
  have "fst (seqP (map (call_observer objs) ps) w) = Inl (Undefined UseAfterFree)"
    if "\<exists>p \<in> set ps. objs p = None" for ps w
    using that by (induction ps arbitrary: w)
      (auto simp: call_observer_def OnModelChanched_hello prog_defs split: option.splits)
  then show ?thesis
    using Notify_prints [of m objs w] count_observe [of ops "\<lparr>observers = []\<rparr>"] assms
    by (auto simp: SetData_def Notify_def)
qed

theorem SetData_notifies_witness:
  "SetData [2 \<mapsto> ConcreteObserver2] 5 \<lparr>observers = [2, 2]\<rparr> start =
     (Inr (), start\<lparr>cw_out := [CStr (''hello from model 2'' @ lf), CStr (''hello from model 2'' @ lf)]\<rparr>)"
proof -
  have "\<lparr>observers = [2, 2]\<rparr> = observe [(True, 1), (True, 2), (False, 1), (True, 2)] \<lparr>observers = []\<rparr>"
    by (simp add: AddObserver_def RemoveObserver_def)
  from SetData_notifies [OF this, of "[2 \<mapsto> ConcreteObserver2]" 5 start] show ?thesis by (simp add: start_def)
qed

text \<open>
  \<open>032\<close>: a \<open>CustomCommand\<close> works only through the function that fits its constructor: \<open>execute\<close> of one
  made from a free function dereferences a null pointer, \<open>custom_execute\<close> of one made for a document calls an empty
  function.
\<close>

theorem CustomCommand_calls:
  "execute (CustomCommand_doc (Some d) (Some f)) = f d \<and> custom_execute (CustomCommand_any (Some g)) = g \<and>
   execute (CustomCommand_any g') = failP (Undefined NullDeref) \<and>
   custom_execute (CustomCommand_doc p h) = failP (Throw ''bad_function_call'') \<and>
   execute (CustomCommand_doc (Some d) None) = failP (Throw ''bad_function_call'') \<and>
   onClick None = failP (Undefined UninitialisedRead)"
  by (simp add: CustomCommand_doc_def CustomCommand_any_def with_doc_def onClick_def)

text \<open>\<open>034\<close>: the visitor is called for the dynamic type of every building, in order.\<close>

lemma accept_prints:
  "accept BuildingVisitor_visit BuildingVisitor_visit2 =
   (\<lambda>b. print (case b of City \<Rightarrow> [CStr (''City visited'' @ lf), CStr (''City*'' @ lf)]
     | Industry \<Rightarrow> [CStr (''Industry visited'' @ lf), CStr (''Industry*'' @ lf)]
     | House \<Rightarrow> [CStr (''House visited'' @ lf), CStr (''House*'' @ lf)]))"
proof (rule ext)
  fix b
  show "accept BuildingVisitor_visit BuildingVisitor_visit2 b = print (case b of
       City \<Rightarrow> [CStr (''City visited'' @ lf), CStr (''City*'' @ lf)]
     | Industry \<Rightarrow> [CStr (''Industry visited'' @ lf), CStr (''Industry*'' @ lf)]
     | House \<Rightarrow> [CStr (''House visited'' @ lf), CStr (''House*'' @ lf)])"
    by (cases b) (auto simp: accept_def prog_defs)
qed

theorem visit_all_prints:
  "visit_all bs w = (Inr (), w\<lparr>cw_out := cw_out w @ concat (map (\<lambda>b. case b of
       City \<Rightarrow> [CStr (''City visited'' @ lf), CStr (''City*'' @ lf)]
     | Industry \<Rightarrow> [CStr (''Industry visited'' @ lf), CStr (''Industry*'' @ lf)]
     | House \<Rightarrow> [CStr (''House visited'' @ lf), CStr (''House*'' @ lf)]) bs)\<rparr>)"
  by (simp only: visit_all_def accept_prints seqP_prints)

text \<open>The loop of \<open>remove_if\<close>: what it has kept is in front, what it has not seen is untouched.\<close>

lemma remove_if_prefix:
  assumes "i \<le> length xs" "foldl (remove_if_step pred) (xs, 0) [0..<i] = (ys, r)"
  shows "r \<le> i \<and> length ys = length xs \<and> drop i ys = drop i xs \<and> take r ys = filter (\<lambda>x. \<not> pred x) (take i xs)"
  using assms
proof (induction i arbitrary: ys r)
  case (Suc i)
  obtain zs k where f: "foldl (remove_if_step pred) (xs, 0) [0..<i] = (zs, k)" by fastforce
  with Suc have IH: "k \<le> i" "length zs = length xs" "drop i zs = drop i xs"
      "take k zs = filter (\<lambda>x. \<not> pred x) (take i xs)" by auto
  have i: "i < length xs" using Suc by simp
  then have z: "zs ! i = xs ! i" "drop (Suc i) zs = drop (Suc i) xs"
    using IH(2,3) Cons_nth_drop_Suc [of i xs] Cons_nth_drop_Suc [of i zs] by (metis list.inject)+
  have step: "remove_if_step pred (zs, k) i = (ys, r)" using Suc.prems f by simp
  show ?case
  proof (cases "pred (xs ! i)")
    case True
    with step z IH i show ?thesis by (simp add: remove_if_step_def take_Suc_conv_app_nth)
  next
    case False
    then have "ys = zs[k := xs ! i]" "r = Suc k" using step z by (auto simp: remove_if_step_def)
    with False z IH i show ?thesis by (simp add: take_Suc_conv_app_nth)
  qed
qed simp

lemma erase_remove_eq: "erase_remove pred e = filter (\<lambda>x. \<not> pred x) e"
proof -
  obtain ys r where "remove_if pred e = (ys, r)" by fastforce
  moreover from this have "take r ys = filter (\<lambda>x. \<not> pred x) e"
    using remove_if_prefix [of "length e" e pred ys r] by (simp add: remove_if_def)
  ultimately show ?thesis by (simp add: erase_remove_def)
qed

text \<open>
  \<open>remove_if\<close> followed by \<open>erase\<close> leaves exactly the elements that do not satisfy the predicate, in
  their order; the program of \<open>040\<close> prints 5 and 6.
\<close>

theorem erase_remove_filters:
  "erase_remove pred e = filter (\<lambda>x. \<not> pred x) e \<and>
   cw_out (snd (main_040 start)) = [CInt 5, CStr '' '', CInt 6, CStr '' '', CEndl]"
  by (simp add: erase_remove_eq main_040_def prog_defs start_def)

text \<open>What one way of appending prints when there is room.\<close>

fun append_log :: "vec_op \<Rightarrow> string list" where
  "append_log (EmplaceArgs x) = [''constructed'']"
| "append_log (AppendTemporary x) = [''constructed'', ''moved'']"
| "append_log (AppendObject x) = [''copied'']"

definition being :: "string list \<Rightarrow> cout list" where
  "being vs = map (\<lambda>v. CStr (''I am being '' @ v @ ''.'' @ lf)) vs"

fun vec_run :: "(nat \<Rightarrow> nat) \<Rightarrow> vec_op list \<Rightarrow> vec \<Rightarrow> vec prog" where
  "vec_run grow [] v = returnP v"
| "vec_run grow (op # ops) v = bindP (vec_do grow op v) (vec_run grow ops)"

lemma vec_do_room:
  assumes "length (vec_items v) < vec_capacity v"
  shows "vec_do grow op v w =
    (Inr (v\<lparr>vec_items := vec_items v @ [vec_item op]\<rparr>), w\<lparr>cw_out := cw_out w @ being (append_log op)\<rparr>)"
  using assms by (cases op)
    (auto simp: vec_append_def A_035_ctor_def A_035_move_def A_035_copy_def being_def prog_defs)

text \<open>
  as long as the appended elements fit into the reserved capacity, whatever the growth policy, no
  element is ever copied to new storage: an element made from arguments costs one construction, a temporary a
  construction and a move, an existing object one copy.
\<close>

theorem vec_reserved_appends:
  assumes "length (vec_items v) + length ops \<le> vec_capacity v"
  shows "vec_run grow ops v w = (Inr (v\<lparr>vec_items := vec_items v @ map vec_item ops\<rparr>),
     w\<lparr>cw_out := cw_out w @ being (concat (map append_log ops))\<rparr>)"
  using assms
proof (induction ops arbitrary: v w)
  case (Cons op ops)
  then have "length (vec_items v) < vec_capacity v" by simp
  from vec_do_room [OF this, of grow op w] Cons show ?case by (simp add: bindP_def being_def)
qed (simp add: returnP_def being_def)

theorem vec_reserved_appends_witness:
  "vec_run (\<lambda>n. 2 * n + 1) [EmplaceArgs \<lparr>param1 = ''String1'', param2 = 1000\<rparr>, AppendObject \<lparr>param1 = ''test'', param2 = 1\<rparr>]
     \<lparr>vec_items = [], vec_capacity = 10\<rparr> start =
   (Inr \<lparr>vec_items = [\<lparr>param1 = ''String1'', param2 = 1000\<rparr>, \<lparr>param1 = ''test'', param2 = 1\<rparr>], vec_capacity = 10\<rparr>,
    start\<lparr>cw_out := being [''constructed'', ''copied'']\<rparr>)"
  using vec_reserved_appends [of "\<lparr>vec_items = [], vec_capacity = 10\<rparr>"
      "[EmplaceArgs \<lparr>param1 = ''String1'', param2 = 1000\<rparr>, AppendObject \<lparr>param1 = ''test'', param2 = 1\<rparr>]"
      "\<lambda>n. 2 * n + 1" start]
  by (simp add: start_def)

text \<open>What the programs print; \<open>036\<close> writes to an element that does not exist, \<open>042\<close> overflows an \<open>int\<close>.\<close>

lemmas pattern_defs = prog_defs Document_copy_def with_doc_def onClick_def setCommand_def CustomCommand_doc_def
  CustomCommand_any_def Presentaion_Show_def fecthJson_def dynamic_cast_def rtti_foo_def
  A_035_ctor_def A_035_move_def A_035_copy_def vec_reserve_def vec_relocate_def vec_append_def vec_set_def start_def

theorem main_027_output:
  "cw_out (snd (main_027 name start)) =
     [CStr ''ctor A()'', CEndl, CStr ''ctor A()'', CEndl, CStr ''b is a child of A'', CEndl,
      CStr ''b is not a child of C'', CEndl, CStr ''ctor A()'', CEndl, CStr ''ctor A()'', CEndl, CEndl,
      CStr ''ctor A()'', CEndl, CStr ''ctor A()'', CEndl, CStr ''ctor A()'', CEndl,
      CStr ''a is A*'', CEndl, CStr ''*a is A'', CEndl, CStr ''b is A*'', CEndl, CStr ''*b is B'', CEndl,
      CStr ''reference to non-polymorphic base: '', CStr (name ''Base''), CStr lf,
      CStr ''reference to polymorphic base: '', CStr (name ''Derived2''), CStr lf]"
  by (simp add: main_027_def pattern_defs)

theorem pattern_mains:
  "cw_out (snd (main_030 start)) = [CStr (''<>'' @ lf), CStr (''composition: '' @ lf), CStr (''{}'' @ lf), CStr (''<>'' @ lf),
     CStr (''class: '' @ lf), CStr (''{}'' @ lf), CStr (''<>'' @ lf)] \<and>
   main_032 start = (Inr (), start\<lparr>cw_out := [CStr (''copy command'' @ lf), CStr (''Custom command '' @ lf),
     CStr (''copy command'' @ lf), CStr (''copy command'' @ lf), CStr (''copy command'' @ lf), CStr (''copy command'' @ lf)]\<rparr>) \<and>
   cw_out (snd (main_040 start)) = [CInt 5, CStr '' '', CInt 6, CStr '' '', CEndl] \<and>
   fst (main_036 start) = Inl (Undefined OutOfBoundsWrite) \<and>
   fst (main_042 start) = Inl (Undefined IntOverflow)"
  by (simp add: main_030_def main_032_def main_040_def erase_remove_eq main_036_def main_042_def execute_042_def
      interface_def int_add_def in_int_range_def pattern_defs Let_def)

theorem main_035_output:
  "cw_out (snd (main_035 grow start)) =
     being [''constructed''] @ [CStr (lf @ ''emplace_back:'' @ lf)] @ being [''constructed''] @ [CStr (''----'' @ lf)] @
     being [''constructed'', ''moved''] @ [CStr (lf @ ''push_back:'' @ lf)] @ being [''constructed'', ''moved''] @
     [CStr (lf @ ''appending existing object:'' @ lf)] @ being [''copied'', ''copied'']"
  by (simp add: main_035_def being_def pattern_defs Let_def)

end
