(* ===== verification/Lifetimes.thy ===== *)
theory Lifetimes
  imports Cpp_Prog
begin

text \<open>
  The order in which C++ runs constructors and destructors, and the examples that print it:
  \<open>010_initializer_list_vs_constructor_body.cpp\<close>, \<open>011_destructors.cpp\<close>, \<open>025_contr_order.cpp\<close> and
  \<open>026_diamond_inheritance.cpp\<close>. A class is described by its bases (virtual or not) and members in the order of
  their declaration, and by the bodies of a constructor and of the destructor; two constructors of a class are two
  descriptions. The order of construction is computed from the description, and the order of destruction
  separately, by the rules of the standard for each.
\<close>

section \<open>Classes\<close>

datatype cls = Cls (cname: string) (cbases: "(bool \<times> cls) list") (cmembers: "cls list") (cctor: "unit prog") (cdtor: "unit prog")

lemma size_base: "p \<in> set bs \<Longrightarrow> size (snd p) < size (Cls n bs ms c d)"
proof (induction bs)
  case (Cons q bs)
  then show ?case by (cases q) auto
qed simp

lemma size_member: "m \<in> set ms \<Longrightarrow> size m < size (Cls n bs ms c d)"
  by (induction ms) auto

lemma size_member2: "m \<in> set ms \<Longrightarrow> Suc (2 * size m) < 2 * size (Cls n bs ms c d)"
  using size_member [of m ms n bs c d] by linarith

text \<open>The virtual bases of a class, direct and indirect: depth first, from left to right, each once.\<close>

fun all_vbases :: "cls \<Rightarrow> cls list" where
  "all_vbases (Cls n bs ms c d) = concat (map (\<lambda>p. all_vbases (snd p) @ (if fst p then [snd p] else [])) bs)"

fun first_named :: "string set \<Rightarrow> cls list \<Rightarrow> cls list" where
  "first_named seen [] = []"
| "first_named seen (x # xs) =
     (if cname x \<in> seen then first_named seen xs else x # first_named (insert (cname x) seen) xs)"

definition vbases :: "cls \<Rightarrow> cls list" where
  "vbases x = first_named {} (all_vbases x)"

lemma set_first_named: "set (first_named seen xs) \<subseteq> set xs"
  by (induction seen xs rule: first_named.induct) auto

lemma size_all_vbases: "b \<in> set (all_vbases x) \<Longrightarrow> size b < size x"
proof (induction x rule: all_vbases.induct)
  case (1 n bs ms c d)
  then obtain p where p: "p \<in> set bs" "b \<in> set (all_vbases (snd p)) \<or> b = snd p"
    by (auto split: if_splits)
  with 1 size_base [OF p(1)] show ?case by (metis order.strict_trans)
qed

lemma size_vbases: "b \<in> set (vbases x) \<Longrightarrow> size b < size x"
  using set_first_named size_all_vbases unfolding vbases_def by blast

text \<open>
  The subobjects in the order in which their constructor bodies run: the most derived object begins with
  the virtual bases; then come, for it and for every base, its other bases, its members and its own body.
\<close>

function (sequential) built :: "bool \<Rightarrow> cls \<Rightarrow> cls list" where
  "built True x = concat (map (built False) (vbases x)) @ built False x"
| "built False (Cls n bs ms c d) =
     concat (map (\<lambda>p. if fst p then [] else built False (snd p)) bs) @ concat (map (built True) ms) @ [Cls n bs ms c d]"
  by pat_completeness auto
termination
  by (relation "measure (\<lambda>(full, x). 2 * size x + (if full then 1 else 0))")
    (auto dest: size_vbases simp del: cls.size intro: size_base size_member2)

text \<open>The order of the destructor bodies: the own body, the members and the bases from the last to the first.\<close>

function (sequential) destroyed :: "bool \<Rightarrow> cls \<Rightarrow> cls list" where
  "destroyed True x = destroyed False x @ concat (map (destroyed False) (rev (vbases x)))"
| "destroyed False (Cls n bs ms c d) =
     [Cls n bs ms c d] @ concat (map (destroyed True) (rev ms)) @
     concat (map (\<lambda>p. if fst p then [] else destroyed False (snd p)) (rev bs))"
  by pat_completeness auto
termination
  by (relation "measure (\<lambda>(full, x). 2 * size x + (if full then 1 else 0))")
    (auto dest: size_vbases simp del: cls.size intro: size_base size_member2)

definition construct :: "cls \<Rightarrow> unit prog" where
  "construct x = seqP (map cctor (built True x))"

definition destruct :: "cls \<Rightarrow> unit prog" where
  "destruct x = seqP (map cdtor (destroyed True x))"

text \<open>A local variable of class \<open>x\<close> in front of the statements \<open>body\<close>, to the end of its block.\<close>

definition local_var :: "cls \<Rightarrow> unit prog \<Rightarrow> unit prog" where
  "local_var x body = thenP (construct x) (finallyP body (destruct x))"

definition nothing :: "unit prog" where
  "nothing = returnP ()"

section \<open>010\_initializer\_list\_vs\_constructor\_body.cpp\<close>

definition A_010 :: cls where "A_010 = Cls ''A'' [] [] (println ''A()'') nothing"
definition A_010_copy :: cls where "A_010_copy = Cls ''A'' [] [] (println ''A(const A &a)'') nothing"
definition A_010_assign :: "unit prog" where "A_010_assign = println ''A &operator=(A &a)''"

definition B_010 :: cls where "B_010 = Cls ''B'' [] [] (println ''B()'') nothing"
definition B_010_copy :: cls where "B_010_copy = Cls ''B'' [] [] (println ''B(const B &b)'') nothing"
definition B_010_assign :: "unit prog" where "B_010_assign = println ''B &operator=(B &b)''"

text \<open>Only \<open>E\<close> has an initializer list; the other constructors default-construct the members first.\<close>

definition C_010 :: cls where "C_010 = Cls ''C'' [] [A_010, B_010] (println ''C()'') nothing"
definition C_010_from :: cls where
  "C_010_from = Cls ''C'' [] [A_010, B_010] (seqP [A_010_assign, B_010_assign]) nothing"
definition C_010_copy :: cls where
  "C_010_copy = Cls ''C'' [] [A_010, B_010] (println ''C(const C &c)'') nothing"
definition C_010_assign :: "unit prog" where "C_010_assign = println ''C &operator=(C &c)''"

definition D_010 :: cls where "D_010 = Cls ''D'' [] [A_010, B_010, C_010] (println ''D()'') nothing"
definition D_010_from :: cls where
  "D_010_from = Cls ''D'' [] [A_010, B_010, C_010] (seqP [A_010_assign, B_010_assign, C_010_assign]) nothing"
definition D_010_copy :: cls where
  "D_010_copy = Cls ''D'' [] [A_010, B_010, C_010] (println ''D(const D &d)'') nothing"

definition E_010 :: cls where
  "E_010 = Cls ''E'' [] [A_010_copy, B_010_copy, C_010_copy, D_010_copy] nothing nothing"

definition main_010 :: "unit prog" where
  "main_010 =
     local_var A_010 (local_var B_010 (
       thenP (println ''C(a, b)'') (local_var C_010_from (
       thenP (println ''D(a, b, c)'') (local_var D_010_from (
       thenP (println ''E(a, b, c, d)'') (local_var E_010 nothing)))))))"

section \<open>011\_destructors.cpp\<close>

definition A_011 :: cls where "A_011 = Cls ''A'' [] [] (println ''A()'') (println ''~A()'')"
definition A_011_copy :: cls where "A_011_copy = Cls ''A'' [] [] (println ''A(const &a)'') (println ''~A()'')"
definition B_011 :: cls where "B_011 = Cls ''B'' [] [] (println ''B()'') (println ''~B()'')"
definition B_011_copy :: cls where "B_011_copy = Cls ''B'' [] [] (println ''B(const &b)'') (println ''~B()'')"
definition C_011 :: cls where "C_011 = Cls ''C'' [] [A_011_copy, B_011_copy] nothing (println ''~C()'')"

definition Object_011 :: cls where "Object_011 = Cls ''Object'' [] [] (println ''Object::ctor()'') (println ''Object::dtor()'')"
definition Base_011 :: cls where "Base_011 = Cls ''Base'' [] [] (println ''Base::ctor()'') (println ''Base::dtor()'')"
definition Derived_011 :: cls where
  "Derived_011 = Cls ''Derived'' [(False, Base_011)] [Object_011] (println ''Derived::ctor()'') (println ''Derived::dtor()'')"

definition main_011 :: "unit prog" where
  "main_011 =
     local_var A_011 (local_var B_011 (
       thenP (println ''C(a, b)'') (local_var C_011 (
       seqP [println ''C(a, b)'',
             local_var C_011 (seqP [println ''C(a, b)'', construct C_011, println ''end of scope'']),
             println ''destructor call'', destruct C_011, println ''end of scope'']))))"

section \<open>025\_contr\_order.cpp\<close>

text \<open>The destructor of \<open>A\<close> prints the member \<open>a_\<close>, which is 0 unless the constructor is given a value.\<close>

definition A_025 :: "int option \<Rightarrow> cls" where
  "A_025 a =
     Cls ''A'' [] [] (println (case a of None \<Rightarrow> ''ctor A()'' | Some i \<Rightarrow> ''ctor A() from int''))
       (print [CStr ''dtor ~A() : a_ == '', CInt (case a of None \<Rightarrow> 0 | Some i \<Rightarrow> i), CEndl])"

definition B_025 :: cls where
  "B_025 = Cls ''B'' [(False, A_025 None)] [A_025 (Some 5)] (println ''ctor B()'') (println ''dtor ~B()'')"

definition Alpha_025 :: cls where
  "Alpha_025 = Cls ''Alpha'' [] [] (println ''ctor Alpha()'') (println ''dtor ~Alpha()'')"

definition C_025 :: cls where
  "C_025 = Cls ''C'' [(False, Alpha_025), (False, B_025)] [] (println ''ctor C()'') (println ''dtor ~C()'')"

definition D_025 :: cls where
  "D_025 = Cls ''D'' [] [C_025] (println ''ctor D()'') (println ''dtor ~D()'')"

text \<open>In the constructor of \<open>AA\<close> the dynamic type is \<open>AA\<close>, where \<open>bar\<close> is pure; in that of \<open>BB\<close> it does nothing.\<close>

definition AA_025 :: cls where
  "AA_025 = Cls ''AA'' [] [] (failP (Undefined PureVirtualCall)) nothing"

definition BB_025 :: cls where
  "BB_025 = Cls ''BB'' [(False, AA_025)] [] nothing nothing"

definition main_025 :: "unit prog" where
  "main_025 = thenP (local_var D_025 nothing) (local_var BB_025 nothing)"

section \<open>026\_diamond\_inheritance.cpp\<close>

definition A_026 :: "int option \<Rightarrow> cls" where
  "A_026 a =
     Cls ''A'' [] [] (case a of None \<Rightarrow> println ''ctor A()'' | Some i \<Rightarrow> print [CStr ''ctor A() '', CStr '' a = '', CInt i, CEndl])
       nothing"

definition A_026_foo :: "unit prog" where
  "A_026_foo = print [CStr ''foo1'', CEndl, CEndl]"

definition Bfirst_026 :: cls where
  "Bfirst_026 = Cls ''Bfirst'' [] [] (println ''ctor Bfirst()'') nothing"

text \<open>
  \<open>B(int a) : A(a)\<close>. The initializer of a virtual base counts in the most derived class only, so the
  description of \<open>B\<close> as a base of \<open>D\<close> carries the \<open>A\<close> that \<open>D\<close> constructs.
\<close>

definition B_026 :: "cls \<Rightarrow> int option \<Rightarrow> cls" where
  "B_026 virtual_A a =
     Cls ''B'' [(False, Bfirst_026), (True, virtual_A)] []
       (case a of None \<Rightarrow> println ''ctor B()'' | Some i \<Rightarrow> print [CStr ''ctor B() '', CStr '' a = '', CInt i, CEndl]) nothing"

definition C_026 :: "cls \<Rightarrow> cls" where
  "C_026 virtual_A = Cls ''C'' [(True, virtual_A)] [] (println ''ctor C()'') nothing"

definition NonVirtual_026 :: cls where
  "NonVirtual_026 = Cls ''NonVirtual'' [] [] (println ''ctor Nonvirtual()'') nothing"

definition D_026 :: cls where
  "D_026 =
     Cls ''D'' [(False, NonVirtual_026), (False, B_026 (A_026 None) (Some 5)), (False, C_026 (A_026 None))] []
       (println ''ctor D()'') nothing"

text \<open>The second namespace of the file; \<open>using C::foo\<close> makes the call unambiguous. \<open>main\<close> does not use it.\<close>

definition other_B_026 :: cls where
  "other_B_026 = Cls ''B'' [] [] (println ''ctor B()'') nothing"

definition other_C_026 :: cls where
  "other_C_026 = Cls ''C'' [] [] (println ''ctor C()'') nothing"

definition other_C_026_foo :: "unit prog" where
  "other_C_026_foo = print [CStr ''foo3'', CEndl, CEndl]"

definition other_D_026 :: cls where
  "other_D_026 = Cls ''D'' [(False, other_B_026), (False, other_C_026)] [] (println ''ctor D()'') nothing"

definition other_D_026_foo :: "unit prog" where
  "other_D_026_foo = other_C_026_foo"

definition main_026 :: "unit prog" where
  "main_026 = local_var D_026 A_026_foo"

section \<open>Properties\<close>

lemma concat_map_rev:
  "(\<And>y. y \<in> set ys \<Longrightarrow> f y = rev (g y)) \<Longrightarrow> concat (map f (rev ys)) = rev (concat (map g ys))"
  by (induction ys) auto

lemma destroyed_rev_built: "destroyed full x = rev (built full x)"
proof (induction full x rule: built.induct)
  case (1 x)
  then have "concat (map (destroyed False) (rev (vbases x))) = rev (concat (map (built False) (vbases x)))"
    by (intro concat_map_rev) simp
  with 1 show ?case by simp
next
  case (2 n bs ms c d)
  have "concat (map (destroyed True) (rev ms)) = rev (concat (map (built True) ms))"
    using 2 by (intro concat_map_rev) simp
  moreover have "concat (map (\<lambda>p. if fst p then [] else destroyed False (snd p)) (rev bs)) =
     rev (concat (map (\<lambda>p. if fst p then [] else built False (snd p)) bs))"
    using 2 by (intro concat_map_rev) simp
  ultimately show ?case by simp
qed

lemma first_named_distinct: "distinct (map cname (first_named seen xs)) \<and> cname ` set (first_named seen xs) \<inter> seen = {}"
  by (induction seen xs rule: first_named.induct) auto

text \<open>
  For every class, whatever its bases and members: the destructor bodies run in exactly the reverse
  of the order of the constructor bodies, and no virtual base is constructed twice.
\<close>

theorem destruction_reverses_construction:
  "destruct x = seqP (map cdtor (rev (built True x))) \<and> distinct (map cname (vbases x))"
  using first_named_distinct [of "{}"] by (simp add: destruct_def destroyed_rev_built vbases_def)

lemmas class_defs = A_010_def A_010_copy_def A_010_assign_def B_010_def B_010_copy_def B_010_assign_def C_010_def
  C_010_from_def C_010_copy_def C_010_assign_def D_010_def D_010_from_def D_010_copy_def E_010_def
  A_011_def A_011_copy_def B_011_def B_011_copy_def C_011_def Object_011_def Base_011_def Derived_011_def
  A_025_def B_025_def Alpha_025_def C_025_def D_025_def AA_025_def BB_025_def
  A_026_def A_026_foo_def Bfirst_026_def B_026_def C_026_def NonVirtual_026_def D_026_def nothing_def

lemmas lifetime_defs = local_var_def construct_def destruct_def vbases_def prog_defs

definition lines :: "string list \<Rightarrow> cout list" where
  "lines ls = concat (map (\<lambda>l. [CStr l, CEndl]) ls)"

text \<open>
  What the programs print. In \<open>010\<close> the members of \<open>C\<close> and \<open>D\<close> are constructed and then assigned, those of
  \<open>E\<close> are copied at once.
\<close>

theorem main_010_output:
  "main_010 start = (Inr (), start\<lparr>cw_out := lines
     [''A()'', ''B()'', ''C(a, b)'', ''A()'', ''B()'', ''A &operator=(A &a)'', ''B &operator=(B &b)'',
      ''D(a, b, c)'', ''A()'', ''B()'', ''A()'', ''B()'', ''C()'',
      ''A &operator=(A &a)'', ''B &operator=(B &b)'', ''C &operator=(C &c)'',
      ''E(a, b, c, d)'', ''A(const A &a)'', ''B(const B &b)'', ''A()'', ''B()'', ''C(const C &c)'',
      ''A()'', ''B()'', ''A()'', ''B()'', ''C()'', ''D(const D &d)'']\<rparr>)"
  by (simp add: main_010_def class_defs lifetime_defs lines_def start_def)

text \<open>
  What \<open>011\<close> prints: the members of a \<open>C\<close> are built before and destroyed after it, the object of the inner
  block dies at its end, the one made with \<open>new\<close> at the \<open>delete\<close>, and the rest at the end of \<open>main\<close> in reverse.
\<close>

theorem main_011_output:
  "main_011 start = (Inr (), start\<lparr>cw_out := lines
     [''A()'', ''B()'', ''C(a, b)'', ''A(const &a)'', ''B(const &b)'',
      ''C(a, b)'', ''A(const &a)'', ''B(const &b)'', ''C(a, b)'', ''A(const &a)'', ''B(const &b)'', ''end of scope'',
      ''~C()'', ''~B()'', ''~A()'', ''destructor call'', ''~C()'', ''~B()'', ''~A()'', ''end of scope'',
      ''~C()'', ''~B()'', ''~A()'', ''~B()'', ''~A()'']\<rparr>)"
  by (simp add: main_011_def class_defs lifetime_defs lines_def start_def)

text \<open>
  In \<open>025\<close> the object \<open>d\<close> is built from \<open>Alpha\<close>, the base \<open>A\<close> and the member \<open>A(5)\<close> of \<open>B\<close> outwards and taken
  down in reverse; then the constructor of \<open>AA\<close> calls a pure virtual function. In \<open>026\<close> the virtual base \<open>A\<close> is built
  once, first, and by its default constructor although \<open>B(5)\<close> names another one.
\<close>

theorem main_025_output:
  "main_025 start = (Inl (Undefined PureVirtualCall), start\<lparr>cw_out := lines
     [''ctor Alpha()'', ''ctor A()'', ''ctor A() from int'', ''ctor B()'', ''ctor C()'', ''ctor D()'',
      ''dtor ~D()'', ''dtor ~C()'', ''dtor ~B()''] @
     [CStr ''dtor ~A() : a_ == '', CInt 5, CEndl, CStr ''dtor ~A() : a_ == '', CInt 0, CEndl,
      CStr ''dtor ~Alpha()'', CEndl]\<rparr>)"
  by (simp add: main_025_def class_defs lifetime_defs lines_def start_def)

theorem main_026_output:
  "main_026 start = (Inr (), start\<lparr>cw_out := lines [''ctor A()'', ''ctor Nonvirtual()'', ''ctor Bfirst()''] @
     [CStr ''ctor B() '', CStr '' a = '', CInt 5, CEndl] @ lines [''ctor C()'', ''ctor D()''] @ [CStr ''foo1'', CEndl, CEndl]\<rparr>)"
  by (simp add: main_026_def class_defs lifetime_defs lines_def start_def)

theorem other_026_output:
  "local_var other_D_026 other_D_026_foo start =
     (Inr (), start\<lparr>cw_out := lines [''ctor B()'', ''ctor C()'', ''ctor D()''] @ [CStr ''foo3'', CEndl, CEndl]\<rparr>)"
  by (simp add: other_D_026_def other_B_026_def other_C_026_def other_C_026_foo_def other_D_026_foo_def
      lifetime_defs class_defs lines_def start_def)

end
