(* ===== verification/Constructors.thy ===== *)
theory Constructors
  imports Lifetimes Cpp_String
begin

text \<open>
  The short examples on constructors and conversions: \<open>004_default_contructor.cpp\<close>,
  \<open>006_constructor_with_one_argument.cpp\<close>, \<open>009_transform_constuctors_and_operations.cpp\<close>,
  \<open>012_placement_new.cpp\<close>, \<open>013_simple_initializers_in_cpp11.cpp\<close>, \<open>017_defaults_constructors.cpp\<close>,
  \<open>020_RVO_NRVO.cpp\<close> and \<open>023_noexcept_destructor.cpp\<close>. A member that a constructor leaves without a value is
  \<open>None\<close>, and to print it is undefined.
\<close>

text \<open>A member that is read.\<close>

definition member :: "'a option \<Rightarrow> 'a prog" where
  "member x = (case x of None \<Rightarrow> failP (Undefined UninitialisedRead) | Some v \<Rightarrow> returnP v)"

section \<open>004 and 006: arguments with defaults\<close>

record sample_004 =
  ipr :: int
  dpr :: double

text \<open>\<open>Sample(int ipr = 0, double dpr = 0.0)\<close>; an argument that is not given is \<open>None\<close>.\<close>

definition Sample_004 :: "int option \<Rightarrow> double option \<Rightarrow> sample_004" where
  "Sample_004 i d =
     \<lparr>ipr = (case i of None \<Rightarrow> 0 | Some x \<Rightarrow> x), dpr = (case d of None \<Rightarrow> Fin 0 | Some x \<Rightarrow> x)\<rparr>"

definition Sample_004_print :: "sample_004 \<Rightarrow> unit prog" where
  "Sample_004_print s = print [CInt (ipr s), CStr '' '', CDbl (dpr s), CStr '' '', CEndl]"

definition main_004 :: "unit prog" where
  "main_004 = seqP [Sample_004_print (Sample_004 None None), Sample_004_print (Sample_004 (Some 10) None),
     Sample_004_print (Sample_004 (Some 10) (Some (Fin 5)))]"

record sample_006 =
  prm :: "int option"
  drm :: "double option"

definition Sample_006 :: "int \<Rightarrow> double \<Rightarrow> sample_006 prog" where
  "Sample_006 p d = thenP (print [CStr ''ctor '', CInt p, CEndl]) (returnP \<lparr>prm = Some p, drm = Some d\<rparr>)"

text \<open>The copy constructor initialises nothing.\<close>

definition Sample_006_copy :: "sample_006 \<Rightarrow> sample_006 prog" where
  "Sample_006_copy rhs = thenP (println ''copy ctor '') (returnP \<lparr>prm = None, drm = None\<rparr>)"

definition Sample_006_print :: "sample_006 \<Rightarrow> unit prog" where
  "Sample_006_print s = bindP (member (prm s)) (\<lambda>p. print [CInt p, CEndl])"

fun make_all :: "(int \<times> double) list \<Rightarrow> sample_006 list prog" where
  "make_all [] = returnP []"
| "make_all ((p, d) # ps) = bindP (Sample_006 p d) (\<lambda>s. bindP (make_all ps) (\<lambda>ss. returnP (s # ss)))"

text \<open>
  A temporary that only initialises an object is not made. The fifth element of \<open>array2\<close> has no initializer:
  it is made by the default constructor. The literals \<open>0.1\<close> and \<open>-3.6\<close> are never printed; \<open>d1\<close> and \<open>d2\<close> are their values.
\<close>

definition main_006 :: "double \<Rightarrow> double \<Rightarrow> unit prog" where
  "main_006 d1 d2 =
     bindP (Sample_006 10 (Fin 0)) (\<lambda>sample1. bindP (Sample_006 10 (Fin 0)) (\<lambda>sample2.
     bindP (Sample_006 10 (Fin 0)) (\<lambda>sample3. bindP (Sample_006_copy sample1) (\<lambda>sample4.
     thenP (seqP [Sample_006_print sample1, Sample_006_print sample2, Sample_006_print sample3])
     (bindP (make_all [(10, Fin 0), (- 5, Fin 0), (0, Fin 0), (127, Fin 0)]) (\<lambda>array1.
     thenP (println ''array1[]'')
     (thenP (seqP (map Sample_006_print array1))
     (bindP (make_all [(10, d1), (- 5, d2), (0, Fin 0), (0, Fin 0), (0, Fin 0)]) (\<lambda>array2.
     thenP (print [CStr ''array2['', CInt 5, CStr '']'', CEndl])
     (seqP (map Sample_006_print array2)))))))))))"

section \<open>009: conversions\<close>

record sample_009 =
  int_prm :: int
  dbl_prm :: double

text \<open>\<open>time\<close> is the result of \<open>std::time(NULL)\<close>, as a \<open>double\<close>; \<open>asctime\<close> what the library prints for it.\<close>

definition Sample_009_chars :: "double \<Rightarrow> string \<Rightarrow> sample_009 prog" where
  "Sample_009_chars time s =
     thenP (println ''Sample(const char *s)'') (returnP \<lparr>int_prm = int (length s), dbl_prm = time\<rparr>)"

definition Sample_009_string :: "double \<Rightarrow> string \<Rightarrow> sample_009 prog" where
  "Sample_009_string time s =
     thenP (println ''Sample(std::string &s)'') (returnP \<lparr>int_prm = int (length s), dbl_prm = time\<rparr>)"

definition Sample_009_int :: "sample_009 \<Rightarrow> int prog" where
  "Sample_009_int s = thenP (println ''int()'') (returnP (int_prm s))"

definition Sample_009_double :: "sample_009 \<Rightarrow> double prog" where
  "Sample_009_double s = thenP (println ''double()'') (returnP (dbl_prm s))"

definition Sample_009_charp :: "(double \<Rightarrow> string) \<Rightarrow> sample_009 \<Rightarrow> string prog" where
  "Sample_009_charp asctime s =
     thenP (println ''char *()'') (bindP (Sample_009_double s) (\<lambda>time. returnP (asctime time)))"

text \<open>\<open>std::cout << s[i]\<close> for \<open>i < len\<close>: the terminating NUL can be read, what follows it cannot.\<close>

definition print_char :: "string \<Rightarrow> nat \<Rightarrow> unit prog" where
  "print_char s i = bindP (liftP (buf_read (s @ [CHR 0x00]) i)) (\<lambda>c. print [CStr [c]])"

definition main_009 :: "double \<Rightarrow> double \<Rightarrow> (double \<Rightarrow> string) \<Rightarrow> unit prog" where
  "main_009 time1 time2 asctime =
     bindP (Sample_009_chars time1 ''Hello'') (\<lambda>s1.
     bindP (Sample_009_string time2 ''Hello'') (\<lambda>s2.
     bindP (Sample_009_int s1) (\<lambda>len.
     thenP (seqP (map (print_char ''Hello'') [0..<nat len]))
     (thenP (print [CEndl])
     (bindP (Sample_009_charp asctime s2) (\<lambda>p. print [CStr p, CEndl]))))))"

section \<open>012: placement new\<close>

text \<open>The one cell of an \<open>A\<close> in the buffer: its counter.\<close>

definition A_012_default :: "pointer \<Rightarrow> unit prog" where
  "A_012_default buffer = (\<lambda>w.
     case block_at w buffer of
       Inl e \<Rightarrow> (Inl e, w)
     | Inr (b, k, blk) \<Rightarrow>
         println ''A()'' (w\<lparr>cw_mem := (cw_mem w)[b := Some (blk\<lparr>mb_cells := (mb_cells blk)[nat k := None]\<rparr>)]\<rparr>))"

definition A_012_int :: "pointer \<Rightarrow> int \<Rightarrow> unit prog" where
  "A_012_int buffer counter = thenP (store_cell buffer 0 (VInt counter)) (println ''A(int)'')"

definition A_012_counter :: "pointer \<Rightarrow> int prog" where
  "A_012_counter a =
     bindP (load_cell a 0) (\<lambda>v. case v of VInt i \<Rightarrow> returnP i | _ \<Rightarrow> failP (Undefined UninitialisedRead))"

definition A_012_inc :: "pointer \<Rightarrow> unit prog" where
  "A_012_inc a = bindP (A_012_counter a) (\<lambda>i. bindP (liftP (int_incr i)) (\<lambda>j. store_cell a 0 (VInt j)))"

definition A_012_print :: "pointer \<Rightarrow> unit prog" where
  "A_012_print a = bindP (A_012_counter a) (\<lambda>i. print [CInt i, CEndl])"

definition A_012_dtor :: "pointer \<Rightarrow> unit prog" where
  "A_012_dtor a = println ''~A()''"

definition main_012 :: "unit prog" where
  "main_012 =
     bindP (alloc NewArray 1) (\<lambda>buffer. seqP
       [A_012_int buffer 0, A_012_print buffer, A_012_inc buffer, A_012_inc buffer, A_012_print buffer, A_012_dtor buffer,
        A_012_default buffer, A_012_print buffer, A_012_inc buffer, A_012_inc buffer, A_012_print buffer, A_012_dtor buffer,
        dealloc DeleteArray buffer])"

section \<open>013: default member initializers and initializer lists\<close>

record sample_013 =
  msg :: string
  ident :: int
  n_013 :: int

text \<open>
  Every constructor takes the next number from the global \<open>counter\<close>; the result is the object and the
  counter. The copy constructor does not look at its argument.
\<close>

definition Sample_013_with :: "string \<Rightarrow> int \<Rightarrow> int \<Rightarrow> (sample_013 \<times> int) prog" where
  "Sample_013_with line n counter =
     bindP (liftP (int_incr counter)) (\<lambda>counter'.
       thenP (println line)
         (returnP (\<lparr>msg = ''Abeunt studia in mores'', ident = counter', n_013 = n\<rparr>, counter')))"

definition Sample_013 :: "int \<Rightarrow> (sample_013 \<times> int) prog" where
  "Sample_013 counter = Sample_013_with ''Sample()'' 42 counter"

definition Sample_013_int :: "int \<Rightarrow> int \<Rightarrow> (sample_013 \<times> int) prog" where
  "Sample_013_int n counter = Sample_013_with ''Sample(int)'' n counter"

definition Sample_013_copy :: "sample_013 \<Rightarrow> int \<Rightarrow> (sample_013 \<times> int) prog" where
  "Sample_013_copy s counter = Sample_013_with ''Sample(const Sample &s)'' 42 counter"

definition Sample_013_print :: "sample_013 \<Rightarrow> unit prog" where
  "Sample_013_print s = print [CInt (ident s), CStr '' '', CInt (n_013 s), CStr '' '', CStr (msg s), CEndl]"

text \<open>\<open>std::copy\<close> into the array of three.\<close>

fun copy_coords :: "int list \<Rightarrow> nat \<Rightarrow> int option list \<Rightarrow> cpp_error + int option list" where
  "copy_coords [] i coords = Inr coords"
| "copy_coords (x # xs) i coords = bindE (buf_write coords i (Some x)) (copy_coords xs (Suc i))"

definition Coord3D :: "int list \<Rightarrow> int option list prog" where
  "Coord3D l =
     thenP (println ''Coord3D(std::initializer_list<int>)'') (liftP (copy_coords l 0 (replicate 3 None)))"

definition Coord3D_print :: "int option list \<Rightarrow> unit prog" where
  "Coord3D_print c =
     bindP (member (c ! 0)) (\<lambda>x. bindP (member (c ! 1)) (\<lambda>y. bindP (member (c ! 2)) (\<lambda>z.
       print [CInt x, CStr '' '', CInt y, CStr '' '', CInt z, CEndl])))"

definition main_013 :: "unit prog" where
  "main_013 =
     bindP (Sample_013 0) (\<lambda>(s1, c). bindP (Sample_013_int 10 c) (\<lambda>(s2, c).
     bindP (Sample_013_int 1 c) (\<lambda>(s3, c). bindP (Sample_013_int 2 c) (\<lambda>(s4, c).
     bindP (Sample_013_copy s4 c) (\<lambda>(s5, c).
     thenP (seqP (map Sample_013_print [s1, s2, s3, s4, s5]))
     (bindP (Coord3D [1, 2, 3]) (\<lambda>a. bindP (Coord3D [4, 5, 6]) (\<lambda>b.
       let c = a in seqP (map Coord3D_print [a, b, c])))))))))"

section \<open>017: implicit constructors\<close>

definition A_017 :: "bool \<Rightarrow> cls" where
  "A_017 moved = Cls ''A'' [] [] (println (if moved then ''A(A &&a)'' else ''A()'')) nothing"

definition B_017 :: "bool \<Rightarrow> cls" where
  "B_017 moved = Cls ''B'' [] [] (println (if moved then ''B(B &&b)'' else ''B()'')) nothing"

definition C_017 :: "bool \<Rightarrow> cls" where
  "C_017 moved = Cls ''C'' [] [A_017 moved, B_017 moved] nothing nothing"

definition main_017 :: "unit prog" where
  "main_017 = local_var (C_017 False) (local_var (C_017 True) nothing)"

section \<open>020: copies that may be left out\<close>

text \<open>
  The program is to be run with and without \<open>-fno-elide-constructors\<close>; \<open>elide\<close> tells which. An object is its
  address; \<open>addr\<close> prints an address, and \<open>return_value\<close> initialises an object from a returned one by two moves, unless
  these are elided and the two are the same object.
\<close>

definition A_020_ctor :: "unit prog" where "A_020_ctor = println ''A()''"
definition A_020_move :: "unit prog" where "A_020_move = println ''A(A &&)''"
definition A_020_copy :: "unit prog" where "A_020_copy = println ''A(A const &)''"

definition return_value :: "bool \<Rightarrow> unit prog" where
  "return_value elide = (if elide then returnP () else thenP A_020_move A_020_move)"

definition example_RVO :: "bool \<Rightarrow> unit prog" where
  "example_RVO elide = seqP [A_020_copy, println ''inside example_RVO'', A_020_copy, return_value elide]"

definition example_NRVO :: "(nat \<Rightarrow> string) \<Rightarrow> bool \<Rightarrow> nat \<Rightarrow> nat \<Rightarrow> unit prog" where
  "example_NRVO addr elide newA target = seqP
     [A_020_copy, println ''inside example_NRVO'', A_020_copy, println (addr (if elide then target else newA)), return_value elide]"

definition main_020 :: "(nat \<Rightarrow> string) \<Rightarrow> bool \<Rightarrow> unit prog" where
  "main_020 addr elide = seqP
     [A_020_ctor, println ''before example_RVO'', example_RVO elide, println ''between example_RVO and example_NRVO'',
      example_NRVO addr elide 4 3, println (addr 3), println ''after example_NRVO'']"

section \<open>023: a destructor that throws\<close>

text \<open>An exception that leaves a \<open>noexcept\<close> function ends the program through \<open>std::terminate\<close>.\<close>

definition noexcept :: "'a prog \<Rightarrow> 'a prog" where
  "noexcept m = (\<lambda>w. case m w of (Inl (Throw e), w') \<Rightarrow> (Inl (Abort ''std::terminate''), w') | r \<Rightarrow> r)"

definition A_023 :: cls where
  "A_023 = Cls ''A'' [] [] nothing (noexcept (failP (Throw ''Exception'')))"

definition B_023 :: cls where
  "B_023 = Cls ''B'' [] [] nothing (noexcept nothing)"

definition main_023 :: "unit prog" where
  "main_023 = thenP (catchP (local_var A_023 nothing) (\<lambda>_. print [CStr ''catched''])) (local_var B_023 nothing)"

section \<open>Properties\<close>

lemmas constructor_defs = prog_defs member_def lifetime_defs nothing_def start_def
  Sample_004_def Sample_004_print_def Sample_006_def Sample_006_copy_def Sample_006_print_def
  Sample_009_chars_def Sample_009_string_def Sample_009_int_def Sample_009_double_def Sample_009_charp_def print_char_def
  A_012_default_def A_012_int_def A_012_counter_def A_012_inc_def A_012_print_def A_012_dtor_def
  Sample_013_with_def Sample_013_def Sample_013_int_def Sample_013_copy_def Sample_013_print_def
  A_017_def B_017_def C_017_def A_020_ctor_def A_020_move_def A_020_copy_def return_value_def example_RVO_def
  example_NRVO_def noexcept_def A_023_def B_023_def

text \<open>\<open>004\<close> and \<open>006\<close>: what is printed; the copy of a \<open>Sample\<close> has no value.\<close>

theorem main_004_output:
  "cw_out (snd (main_004 start)) =
     [CInt 0, CStr '' '', CDbl (Fin 0), CStr '' '', CEndl, CInt 10, CStr '' '', CDbl (Fin 0), CStr '' '', CEndl,
      CInt 10, CStr '' '', CDbl (Fin 5), CStr '' '', CEndl]"
  by (simp add: main_004_def constructor_defs)

lemma make_all_prints:
  "make_all ps w = (Inr (map (\<lambda>(p, d). \<lparr>prm = Some p, drm = Some d\<rparr>) ps),
     w\<lparr>cw_out := cw_out w @ concat (map (\<lambda>(p, d). [CStr ''ctor '', CInt p, CEndl]) ps)\<rparr>)"
  by (induction ps arbitrary: w) (auto simp: Sample_006_def prog_defs)

lemma samples_print:
  "seqP (map Sample_006_print (map (\<lambda>(p, d). \<lparr>prm = Some p, drm = Some d\<rparr>) ps)) w =
     (Inr (), w\<lparr>cw_out := cw_out w @ concat (map (\<lambda>(p, d). [CInt p, CEndl]) ps)\<rparr>)"
  by (induction ps arbitrary: w) (auto simp: Sample_006_print_def member_def prog_defs)

theorem Sample_006_copy_loses:
  "bindP (Sample_006_copy s) Sample_006_print w =
     (Inl (Undefined UninitialisedRead), w\<lparr>cw_out := cw_out w @ [CStr ''copy ctor '', CEndl]\<rparr>)"
  by (simp add: constructor_defs)

theorem main_006_output:
  "fst (main_006 d1 d2 start) = Inr () \<and>
   filter (\<lambda>t. t = CStr ''ctor '') (cw_out (snd (main_006 d1 d2 start))) = replicate 12 (CStr ''ctor '')"
proof -
  have "seqP (map Sample_006_print [\<lparr>prm = Some a, drm = Some x\<rparr>, \<lparr>prm = Some b, drm = Some y\<rparr>,
      \<lparr>prm = Some c, drm = Some z\<rparr>]) w = (Inr (), w\<lparr>cw_out := cw_out w @ [CInt a, CEndl, CInt b, CEndl, CInt c, CEndl]\<rparr>)"
    for a b c x y z w using samples_print [of "[(a, x), (b, y), (c, z)]" w] by simp
  then show ?thesis
    unfolding main_006_def
    by (simp add: make_all_prints samples_print bindP_def thenP_def println_def print_def returnP_def Sample_006_def
        Sample_006_copy_def Sample_006_print_def member_def start_def)
qed

text \<open>\<open>009\<close>: five characters are printed, as many as the conversion to \<open>int\<close> says.\<close>

theorem main_009_output:
  "main_009 t1 t2 asctime start = (Inr (), start\<lparr>cw_out := lines [''Sample(const char *s)'', ''Sample(std::string &s)'', ''int()''] @
     [CStr ''H'', CStr ''e'', CStr ''l'', CStr ''l'', CStr ''o'', CEndl] @
     lines [''char *()'', ''double()'', asctime t2]\<rparr>)"
  by (simp add: main_009_def constructor_defs lines_def upt_rec numeral_eq_Suc)

text \<open>
  \<open>012\<close>: the default constructor does not set the counter, so printing the second object is undefined; the
  value that the first object had left in the buffer does not count.
\<close>

theorem main_012_outcome:
  "\<exists>w. main_012 start = (Inl (Undefined UninitialisedRead), w) \<and>
     cw_out w = [CStr ''A(int)'', CEndl, CInt 0, CEndl, CInt 2, CEndl, CStr ''~A()'', CEndl, CStr ''A()'', CEndl]"
  by (simp add: main_012_def constructor_defs alloc_def store_cell_def load_cell_def block_at_def read_int_index_def
      write_int_index_def int_incr_def)

text \<open>\<open>013\<close>: what is printed; the copy \<open>s5\<close> of \<open>s4\<close> has a number of its own and the default 42 where \<open>s4\<close> has 2.\<close>

theorem main_013_output:
  "let line = (\<lambda>i n. [CInt i, CStr '' '', CInt n, CStr '' '', CStr ''Abeunt studia in mores'', CEndl]);
       coords = (\<lambda>x y z. [CInt x, CStr '' '', CInt y, CStr '' '', CInt z, CEndl])
   in main_013 start = (Inr (), start\<lparr>cw_out :=
        lines [''Sample()'', ''Sample(int)'', ''Sample(int)'', ''Sample(int)'', ''Sample(const Sample &s)''] @
        line 1 42 @ line 2 10 @ line 3 1 @ line 4 2 @ line 5 42 @
        lines [''Coord3D(std::initializer_list<int>)'', ''Coord3D(std::initializer_list<int>)''] @
        coords 1 2 3 @ coords 4 5 6 @ coords 1 2 3\<rparr>)"
  by (simp add: main_013_def Coord3D_def Coord3D_print_def constructor_defs int_incr_def lines_def Let_def numeral_eq_Suc)

lemma copy_coords_fits:
  "i + length l \<le> length cs \<Longrightarrow> copy_coords l i cs = Inr (take i cs @ map Some l @ drop (i + length l) cs)"
proof (induction l i cs rule: copy_coords.induct)
  case (2 x xs i cs)
  then show ?case by (simp add: take_Suc_list_update)
qed simp

lemma copy_coords_overruns:
  "length cs < i + length l \<Longrightarrow> i \<le> length cs \<Longrightarrow> copy_coords l i cs = Inl (Undefined OutOfBoundsWrite)"
proof (induction l i cs rule: copy_coords.induct)
  case (2 x xs i cs)
  then show ?case by (cases "i < length cs") auto
qed simp

text \<open>
  A \<open>Coord3D\<close> can be made from any list: a list of three is stored and printed as it is; a longer one is
  written past the array, and of a shorter one the missing coordinates cannot be printed.
\<close>

theorem Coord3D_lengths:
  "fst (bindP (Coord3D l) Coord3D_print w) =
     (if length l = 3 then Inr () else Inl (Undefined (if length l > 3 then OutOfBoundsWrite else UninitialisedRead)))"
proof (cases "length l \<le> 3")
  case True
  then have "copy_coords l 0 (replicate 3 None) = Inr (map Some l @ drop (length l) (replicate 3 None))"
    using copy_coords_fits [of 0 l "replicate 3 None"] by simp
  moreover have "length l = 0 \<or> length l = 1 \<or> length l = 2 \<or> length l = 3" using True by arith
  ultimately show ?thesis
    by (auto simp: Coord3D_def Coord3D_print_def constructor_defs numeral_eq_Suc length_Suc_conv)
next
  case False
  then show ?thesis
    using copy_coords_overruns [of "replicate 3 None" 0 l] by (simp add: Coord3D_def prog_defs)
qed

text \<open>
  \<open>017\<close>, \<open>020\<close>, \<open>023\<close>. With elision the four moves of \<open>020\<close> are left out and the object that the function
  names is the one it initialises; without it they are two objects. In \<open>023\<close> nothing is caught.
\<close>

theorem main_017_output:
  "main_017 start = (Inr (), start\<lparr>cw_out := lines [''A()'', ''B()'', ''A(A &&a)'', ''B(B &&b)'']\<rparr>)"
  by (simp add: main_017_def constructor_defs lines_def)

theorem main_020_output:
  "let moves = (if elide then [] else [''A(A &&)'', ''A(A &&)''])
   in main_020 addr elide start = (Inr (), start\<lparr>cw_out := lines
     ([''A()'', ''before example_RVO'', ''A(A const &)'', ''inside example_RVO'', ''A(A const &)''] @ moves @
      [''between example_RVO and example_NRVO'', ''A(A const &)'', ''inside example_NRVO'', ''A(A const &)'',
       addr (if elide then 3 else 4)] @ moves @ [addr 3, ''after example_NRVO''])\<rparr>)"
  by (simp add: main_020_def constructor_defs lines_def)

theorem main_023_outcome:
  "main_023 start = (Inl (Abort ''std::terminate''), start)"
  by (simp add: main_023_def constructor_defs)

end
