(* ===== verification/Namespaces.thy ===== *)
theory Namespaces
  imports Constructors
begin

text \<open>
  \<open>002_namespaces.cpp\<close> and \<open>024_using_conflicts.cpp\<close>. The programs show which function an unqualified name
  denotes. The scopes around a call, from the inside to the outside, with the declarations that stand before it,
  are a list, and \<open>call\<close> follows the rule of the language: the first scope that declares the name decides. A
  using-declaration declares the name in its scope; the names of a using-directive count as declared in the nearest
  namespace around both the directive and the named namespace. Here no scope declares a name twice.
\<close>

type_synonym scope = "(string \<times> unit prog) list"

fun call :: "scope list \<Rightarrow> string \<Rightarrow> unit prog" where
  "call [] name = failP (Abort ''undeclared name'')"
| "call (s # ss) name = (case map_of s name of Some f \<Rightarrow> f | None \<Rightarrow> call ss name)"

section \<open>002\_namespaces.cpp\<close>

definition N1_A_print :: "unit prog" where "N1_A_print = println ''N1::A''"
definition N1_A_static_print :: "unit prog" where "N1_A_static_print = println ''N1::A''"
definition com_print :: "unit prog" where "com_print = println ''www::example::com::print()''"
definition big_foo1 :: "unit prog" where "big_foo1 = println ''big::foo1()''"
definition small_foo :: "unit prog" where "small_foo = println ''small::foo()''"
definition big_foo2 :: "unit prog" where "big_foo2 = println ''big::foo2()''"

definition global_A_print :: "unit prog" where "global_A_print = println ''A::print()''"
definition local_A_print :: "unit prog" where "local_A_print = println ''local::A::print()''"

text \<open>\<open>A::print(); ::A::print();\<close>\<close>

definition global_from_namespace_print :: "unit prog" where
  "global_from_namespace_print =
     thenP (call [[(''A::print'', local_A_print)], [(''A::print'', global_A_print)]] ''A::print'')
       (call [[(''A::print'', global_A_print)]] ''A::print'')"

definition bar_int :: "unit prog" where "bar_int = println ''::bar(int)''"
definition gns_foo_int :: "unit prog" where "gns_foo_int = println ''global_names_search::foo(int)''"
definition gns_bar_float :: "unit prog" where "gns_bar_float = println ''global_names_search::bar(float)''"

definition gns_print :: "unit prog" where
  "gns_print =
     (let scopes = [[(''foo'', gns_foo_int)], [(''bar'', bar_int)]]
      in thenP (call scopes ''foo'') (call scopes ''bar''))"

definition ins_foo_float :: "unit prog" where
  "ins_foo_float = println ''global_names_search::inner_names_search::foo(float)''"

definition ins_bar_float :: "unit prog" where
  "ins_bar_float = println ''global_names_search::inner_names_search::bar(float)''"

definition ins_print :: "unit prog" where
  "ins_print =
     (let scopes = [[(''foo'', ins_foo_float)], [(''foo'', gns_foo_int), (''bar'', gns_bar_float)], [(''bar'', bar_int)]]
      in thenP (call scopes ''foo'') (call scopes ''bar''))"

definition global_foo_int :: "unit prog" where "global_foo_int = println ''::foo(int)''"
definition ueo_foo_int :: "unit prog" where "ueo_foo_int = println ''using_example_outer::foo(int)''"

definition uei_before_print :: "unit prog" where
  "uei_before_print = call [[], [(''foo'', ueo_foo_int)], [(''bar'', bar_int), (''foo'', global_foo_int)]] ''foo''"

definition uei_after_print :: "unit prog" where
  "uei_after_print =
     call [[(''foo'', global_foo_int)], [(''foo'', ueo_foo_int)], [(''bar'', bar_int), (''foo'', global_foo_int)]] ''foo''"

definition uneo_before_print :: "unit prog" where
  "uneo_before_print = println ''using_namespace_example_outer::before_print()''"
definition with_using_before_print :: "unit prog" where
  "with_using_before_print = println ''using_namespace_example_outer::with_using::before_print()''"
definition inner_before_print :: "unit prog" where
  "inner_before_print = println ''using_namepace_example_outer::with_using::inner::before_print()''"
definition inner_after_print :: "unit prog" where
  "inner_after_print = println ''using_namepace_example_outer::with_using::inner::after_print()''"
definition with_using_after_print :: "unit prog" where
  "with_using_after_print = println ''using_namespace_example_outer::with_using::after_print()''"
definition uneo_after_print :: "unit prog" where
  "uneo_after_print = println ''using_namespace_example_outer::after_print()''"

definition inner1_foo_int :: "unit prog" where "inner1_foo_int = println ''outer::inner1::foo(int)''"
definition inner2_foo_float :: "unit prog" where "inner2_foo_float = println ''outer::inner2::foo(float)''"

text \<open>The directive makes \<open>inner1::foo\<close> visible in \<open>outer\<close>, behind the \<open>foo\<close> of \<open>inner2\<close>; the declaration in the block.\<close>

definition print_with_using_namespace :: "unit prog" where
  "print_with_using_namespace =
     call [[], [(''foo'', inner2_foo_float)], [(''foo'', inner1_foo_int)], [(''foo'', global_foo_int)]] ''foo''"

definition print_with_using_foo :: "unit prog" where
  "print_with_using_foo =
     call [[(''foo'', inner1_foo_int)], [(''foo'', inner2_foo_float)], [], [(''foo'', global_foo_int)]] ''foo''"

definition print_with_explicit_foo :: "unit prog" where
  "print_with_explicit_foo = thenP inner1_foo_int inner2_foo_float"

record sum_object =
  so_a :: "int option"
  so_b :: "int option"

definition SumObject_default :: sum_object where
  "SumObject_default = \<lparr>so_a = None, so_b = None\<rparr>"

definition SumObject :: "int \<Rightarrow> int \<Rightarrow> sum_object" where
  "SumObject a b = \<lparr>so_a = Some a, so_b = Some b\<rparr>"

definition SumObject_print :: "sum_object \<Rightarrow> unit prog" where
  "SumObject_print s =
     bindP (member (so_a s)) (\<lambda>a. bindP (member (so_b s)) (\<lambda>b.
       print [CInt a, CStr '' '', CInt b, CStr '' '', CEndl]))"

text \<open>An \<open>int\<close> result, or overflow.\<close>

definition int_result :: "int \<Rightarrow> int prog" where
  "int_result i = (if in_int_range i then returnP i else failP (Undefined IntOverflow))"

definition SumObject_op :: "string \<Rightarrow> (int \<Rightarrow> int \<Rightarrow> int) \<Rightarrow> sum_object \<Rightarrow> sum_object \<Rightarrow> sum_object prog" where
  "SumObject_op line f x y =
     thenP (println line)
     (bindP (member (so_a x)) (\<lambda>xa. bindP (member (so_a y)) (\<lambda>ya. bindP (int_result (f xa ya)) (\<lambda>a.
      bindP (member (so_b x)) (\<lambda>xb. bindP (member (so_b y)) (\<lambda>yb. bindP (int_result (f xb yb)) (\<lambda>b.
      returnP (SumObject a b))))))))"

definition SumObject_plus :: "sum_object \<Rightarrow> sum_object \<Rightarrow> sum_object prog" where
  "SumObject_plus x y = SumObject_op ''ADL::outer::inner::operator+'' (+) x y"

definition SumObject_minus :: "sum_object \<Rightarrow> sum_object \<Rightarrow> sum_object prog" where
  "SumObject_minus x y = SumObject_op ''ADL::outer::operator-'' (-) x y"

definition anon_foo :: "unit prog" where "anon_foo = println ''NotStaticInAnonNamespace::foo()''"
definition long_print :: "unit prog" where "long_print = println ''long_outer::long_middle::long_inner::print()''"

text \<open>The block at the end: the inner \<open>k\<close> hides the outer one, which keeps its value.\<close>

definition scopes_of_k :: "unit prog" where
  "scopes_of_k =
     (let k = 0 in seqP
       [print [CStr ''Scope defines new namespace. For example, k = '', CInt k, CEndl],
        (let k = 42 in print
          [CStr ''Now we defined new k in inner scope => in inner namespace, so now k = '', CInt k, CEndl]),
        print [CStr ''Old k did not change: k = '', CInt k, CEndl],
        println ''At least, prefer explicit namespace prefix or use aliases for long ones'',
        println (''And don'' @ [CHR 0x27] @ ''t use '' @ [CHR 0x27] @ ''using namespace std'' @ [CHR 0x27] @ '' etc in header files!!!'')])"

text \<open>\<open>main\<close>, in three parts: the calls of functions, the operators, the rest.\<close>

definition main_002_names :: "unit prog" where
  "main_002_names = seqP
     [N1_A_static_print, N1_A_print, com_print, big_foo1, big_foo2, small_foo, global_from_namespace_print,
      gns_print, ins_print, uei_before_print, uei_after_print,
      uneo_before_print, with_using_before_print, inner_before_print, inner_after_print, with_using_after_print,
      uneo_after_print,
      print_with_using_namespace, print_with_using_foo, print_with_explicit_foo]"

definition main_002_sums :: "sum_object \<Rightarrow> unit prog" where
  "main_002_sums c =
     (let a = SumObject 1 2; b = SumObject 3 4
      in thenP (SumObject_print a) (thenP (SumObject_print b) (thenP (SumObject_print c)
     (bindP (SumObject_plus a b) (\<lambda>c. thenP (SumObject_print c)
     (bindP (SumObject_minus a b) (\<lambda>c. thenP (SumObject_print c)
     (bindP (SumObject_plus a b) (\<lambda>d. thenP (SumObject_print d)
     (bindP (SumObject_plus a b) SumObject_print))))))))))"

definition main_002 :: "unit prog" where
  "main_002 = seqP [main_002_names, main_002_sums SumObject_default, anon_foo, long_print, long_print, scopes_of_k]"

section \<open>024\_using\_conflicts.cpp\<close>

definition N1_foo :: "unit prog" where "N1_foo = println ''N1::foo()''"
definition N1_bar :: "unit prog" where "N1_bar = println ''N1::bar()''"
definition N2_foo :: "unit prog" where "N2_foo = println ''N2::foo()''"
definition N2_baz :: "unit prog" where "N2_baz = println ''N2::baz()''"

definition main_024 :: "unit prog" where
  "main_024 =
     (let scopes = [[(''baz'', N2_baz)], [(''foo'', N1_foo), (''bar'', N1_bar)]]
      in seqP [call scopes ''foo'', call scopes ''bar'', call scopes ''baz''])"

section \<open>Properties\<close>

lemmas namespace_defs = prog_defs N1_A_print_def N1_A_static_print_def com_print_def big_foo1_def small_foo_def big_foo2_def
  global_A_print_def local_A_print_def global_from_namespace_print_def bar_int_def gns_foo_int_def gns_bar_float_def
  gns_print_def ins_foo_float_def ins_print_def global_foo_int_def ueo_foo_int_def uei_before_print_def
  uei_after_print_def uneo_before_print_def with_using_before_print_def inner_before_print_def inner_after_print_def
  with_using_after_print_def uneo_after_print_def inner1_foo_int_def inner2_foo_float_def
  print_with_using_namespace_def print_with_using_foo_def print_with_explicit_foo_def

text \<open>Which functions the names denote.\<close>

theorem main_002_names_output:
  "main_002_names start = (Inr (), start\<lparr>cw_out := lines
     [''N1::A'', ''N1::A'', ''www::example::com::print()'', ''big::foo1()'', ''big::foo2()'', ''small::foo()'',
      ''local::A::print()'', ''A::print()'', ''global_names_search::foo(int)'', ''::bar(int)'',
      ''global_names_search::inner_names_search::foo(float)'', ''global_names_search::bar(float)'',
      ''using_example_outer::foo(int)'', ''::foo(int)'',
      ''using_namespace_example_outer::before_print()'', ''using_namespace_example_outer::with_using::before_print()'',
      ''using_namepace_example_outer::with_using::inner::before_print()'',
      ''using_namepace_example_outer::with_using::inner::after_print()'',
      ''using_namespace_example_outer::with_using::after_print()'', ''using_namespace_example_outer::after_print()'',
      ''outer::inner2::foo(float)'', ''outer::inner1::foo(int)'', ''outer::inner1::foo(int)'', ''outer::inner2::foo(float)'']\<rparr>)"
  by (simp add: main_002_names_def namespace_defs lines_def start_def Let_def)

text \<open>
  The program prints the object \<open>c\<close> before it has a value, which is undefined; with a value there, the sums are
  as expected.
\<close>

theorem main_002_outcome:
  "fst (main_002 start) = Inl (Undefined UninitialisedRead) \<and>
   main_002_sums (SumObject x y) w = (Inr (), w\<lparr>cw_out := cw_out w @
     [CInt 1, CStr '' '', CInt 2, CStr '' '', CEndl, CInt 3, CStr '' '', CInt 4, CStr '' '', CEndl,
      CInt x, CStr '' '', CInt y, CStr '' '', CEndl,
      CStr ''ADL::outer::inner::operator+'', CEndl, CInt 4, CStr '' '', CInt 6, CStr '' '', CEndl,
      CStr ''ADL::outer::operator-'', CEndl, CInt (- 2), CStr '' '', CInt (- 2), CStr '' '', CEndl,
      CStr ''ADL::outer::inner::operator+'', CEndl, CInt 4, CStr '' '', CInt 6, CStr '' '', CEndl,
      CStr ''ADL::outer::inner::operator+'', CEndl, CInt 4, CStr '' '', CInt 6, CStr '' '', CEndl]\<rparr>)"
proof -
  have "fst (main_002_sums SumObject_default w) = Inl (Undefined UninitialisedRead)" for w
    by (simp add: main_002_sums_def SumObject_default_def SumObject_def SumObject_print_def member_def prog_defs Let_def)
  then have "fst (main_002 start) = Inl (Undefined UninitialisedRead)"
    using main_002_names_output by (simp add: main_002_def thenP_def bindP_def prod.case_eq_if sum.case_eq_if)
  then show ?thesis
    by (simp add: main_002_sums_def SumObject_def SumObject_print_def SumObject_plus_def SumObject_minus_def
        SumObject_op_def int_result_def in_int_range_def member_def prog_defs Let_def)
qed

theorem main_024_output:
  "main_024 start = (Inr (), start\<lparr>cw_out := lines [''N1::foo()'', ''N1::bar()'', ''N2::baz()'']\<rparr>)"
  by (simp add: main_024_def N1_foo_def N1_bar_def N2_baz_def prog_defs lines_def start_def Let_def)

end
