(* ===== verification/Async_Start.thy ===== *)
theory Async_Start
  imports Poll_Async
begin

text \<open>
  The beginning of \<open>EventLoop::run\<close> (\<open>net/libtpevent/src/poll_async.cpp\<close>): each of the four
  worker threads takes \<open>conn_manager_mutex\<close>, and the one that finds the static
  counter at zero starts the thread of the connection manager before it counts it. The steps of a
  worker are those between which another thread may run; what comes after the block is the
  loop of the worker (\<open>EventLoop_worker_step\<close>), which has no end, so that \<open>conn_manager->join()\<close> behind it,
  through a pointer that is null in three of the workers, is never reached.
\<close>

section \<open>Definitions\<close>

datatype start_pc = Enter | Test | StartManager | Nap | Count | Leave | Working

record start_state =
  ss_mutex :: "nat option"
  ss_started :: int
  ss_managers :: "nat list"
  ss_pc :: "nat \<Rightarrow> start_pc"

definition goto_pc :: "nat \<Rightarrow> start_pc \<Rightarrow> start_state \<Rightarrow> start_state" where
  "goto_pc t p s = s\<lparr>ss_pc := (ss_pc s)(t := p)\<rparr>"

text \<open>
  One step of worker \<open>t\<close>; \<open>None\<close> when it has to wait for the mutex or is past the
  block. \<open>ss_managers\<close> lists the workers whose \<open>conn_manager\<close> holds a thread.
\<close>

definition EventLoop_run_step :: "nat \<Rightarrow> start_state \<Rightarrow> start_state option" where
  "EventLoop_run_step t s =
     (case ss_pc s t of
        Enter \<Rightarrow> if ss_mutex s = None then Some (goto_pc t Test (s\<lparr>ss_mutex := Some t\<rparr>)) else None
      | Test \<Rightarrow> Some (goto_pc t (if ss_started s = 0 then StartManager else Leave) s)
      | StartManager \<Rightarrow> Some (goto_pc t Nap (s\<lparr>ss_managers := ss_managers s @ [t]\<rparr>))
      | Nap \<Rightarrow> Some (goto_pc t Count s)
      | Count \<Rightarrow> Some (goto_pc t Leave (s\<lparr>ss_started := ss_started s + 1\<rparr>))
      | Leave \<Rightarrow> Some (goto_pc t Working (s\<lparr>ss_mutex := None\<rparr>))
      | Working \<Rightarrow> None)"

definition start_init :: start_state where
  "start_init = \<lparr>ss_mutex = None, ss_started = 0, ss_managers = [], ss_pc = (\<lambda>_. Enter)\<rparr>"

text \<open>The states that \<open>n\<close> workers can reach; \<open>AsyncPollEngine::run\<close> starts four.\<close>

inductive start_reach :: "nat \<Rightarrow> start_state \<Rightarrow> bool" for n where
  start_init: "start_reach n start_init"
| start_step: "start_reach n s \<Longrightarrow> t < n \<Longrightarrow> EventLoop_run_step t s = Some s' \<Longrightarrow> start_reach n s'"

inductive_cases start_reach_cases: "start_reach n s"

text \<open>The same along a schedule.\<close>

fun start_run :: "nat list \<Rightarrow> start_state \<Rightarrow> start_state option" where
  "start_run [] s = Some s"
| "start_run (t # ts) s = (case EventLoop_run_step t s of None \<Rightarrow> None | Some s' \<Rightarrow> start_run ts s')"

lemma start_run_reach:
  "start_run ts s = Some s' \<Longrightarrow> list_all (\<lambda>t. t < n) ts \<Longrightarrow> start_reach n s \<Longrightarrow> start_reach n s'"
  by (induction ts arbitrary: s) (auto split: option.splits intro: start_step)

section \<open>The invariant\<close>

definition inside :: "start_pc \<Rightarrow> bool" where
  "inside p \<longleftrightarrow> p \<notin> {Enter, Working}"

text \<open>The managers that are started, by the step the owner of the mutex is at.\<close>

definition start_inv :: "nat \<Rightarrow> start_state \<Rightarrow> bool" where
  "start_inv n s \<longleftrightarrow>
     (\<forall>t. inside (ss_pc s t) \<longleftrightarrow> ss_mutex s = Some t) \<and>
     (\<forall>t. ss_pc s t \<noteq> Enter \<longrightarrow> t < n) \<and>
     set (ss_managers s) \<subseteq> {t. t < n} \<and>
     (\<forall>t. ss_pc s t = Working \<longrightarrow> ss_started s = 1) \<and>
     (case ss_mutex s of
        None \<Rightarrow> int (length (ss_managers s)) = ss_started s \<and> ss_started s \<in> {0, 1}
      | Some t \<Rightarrow>
          (case ss_pc s t of
             Test \<Rightarrow> int (length (ss_managers s)) = ss_started s \<and> ss_started s \<in> {0, 1}
           | StartManager \<Rightarrow> ss_managers s = [] \<and> ss_started s = 0
           | Nap \<Rightarrow> ss_managers s = [t] \<and> ss_started s = 0
           | Count \<Rightarrow> ss_managers s = [t] \<and> ss_started s = 0
           | _ \<Rightarrow> length (ss_managers s) = 1 \<and> ss_started s = 1))"

lemma start_inv_init: "start_inv n start_init"
  by (simp add: start_inv_def start_init_def inside_def)

lemma start_inv_step:
  assumes "start_inv n s" "t < n" "EventLoop_run_step t s = Some s'"
  shows "start_inv n s'"
proof -
  have mutex: "ss_mutex s = Some t" if "inside (ss_pc s t)" using assms(1) that by (simp add: start_inv_def)
  have others: "\<not> inside (ss_pc s u)" if "ss_mutex s = Some t" "u \<noteq> t" for u
    using assms(1) that by (simp add: start_inv_def)
  show ?thesis
  proof (cases "ss_pc s t")
    case Enter
    with assms show ?thesis
      by (auto simp: start_inv_def EventLoop_run_step_def goto_pc_def inside_def split: if_splits)
  next
    case Working
    with assms(3) show ?thesis by (simp add: EventLoop_run_step_def)
  qed (use assms mutex others in
      \<open>auto simp: start_inv_def EventLoop_run_step_def goto_pc_def inside_def split: if_splits\<close>)
qed

lemma start_reach_inv: "start_reach n s \<Longrightarrow> start_inv n s"
  by (induction rule: start_reach.induct) (auto intro: start_inv_init start_inv_step)

lemma start_enabled:
  assumes "start_inv n s" "t < n" "ss_pc s t \<noteq> Working"
  shows "\<exists>u < n. EventLoop_run_step u s \<noteq> None"
proof (cases "ss_mutex s")
  case None
  with assms have "ss_pc s t = Enter" by (auto simp: start_inv_def inside_def)
  with None assms(2) show ?thesis by (auto simp: EventLoop_run_step_def intro!: exI [of _ t])
next
  case (Some u)
  with assms(1) have "inside (ss_pc s u)" "u < n" by (auto simp: start_inv_def inside_def)
  then show ?thesis by (auto simp: EventLoop_run_step_def inside_def intro!: exI [of _ u] split: start_pc.split)
qed

section \<open>Properties\<close>

text \<open>
  C6: however the workers interleave, the connection manager is started at most once, and by the
  worker that owns the thread; no worker is in its loop before the manager is
  started; and as long as a worker has not reached its loop, some worker can go on, so that the mutex does not
  lead to a deadlock.
\<close>

theorem connection_manager_started_once:
  assumes "start_reach n s"
  shows "length (ss_managers s) \<le> 1 \<and>
    (t < n \<and> ss_pc s t = Working \<longrightarrow> (\<exists>u < n. ss_managers s = [u])) \<and>
    (t < n \<and> ss_pc s t \<noteq> Working \<longrightarrow> (\<exists>u < n. EventLoop_run_step u s \<noteq> None))"
proof -
  have inv: "start_inv n s" by (rule start_reach_inv [OF assms])
  have one: "length (ss_managers s) \<le> 1"
    using inv by (auto simp: start_inv_def split: option.splits start_pc.splits)
  have "length (ss_managers s) = 1" if "ss_pc s t = Working"
  proof -
    have "ss_started s = 1" using inv that unfolding start_inv_def by blast
    with inv show ?thesis by (auto simp: start_inv_def split: option.splits start_pc.splits)
  qed
  moreover have "\<exists>u < n. ss_managers s = [u]" if "length (ss_managers s) = 1"
    using inv that by (auto simp: start_inv_def length_Suc_conv)
  ultimately show ?thesis using one start_enabled [OF inv] by blast
qed

theorem connection_manager_started_once_witness:
  "\<exists>s. start_reach 4 s \<and> ss_pc s 1 = Working \<and> ss_pc s 2 = Test \<and> (\<exists>u < 4. ss_managers s = [u])"
proof -
  obtain s where s: "start_run [1, 1, 1, 1, 1, 1, 2] start_init = Some s" "ss_pc s 1 = Working" "ss_pc s 2 = Test"
    by (simp add: EventLoop_run_step_def goto_pc_def start_init_def)
  have "start_reach 4 s" by (rule start_run_reach [OF s(1)]) (simp_all add: start_reach.start_init)
  with connection_manager_started_once [OF this, of 1] s(2,3) show ?thesis by auto
qed

end
