(* ===== verification/Skia_Sdl.thy ===== *)
theory Skia_Sdl
  imports Complex_Main Posix
begin

text \<open>
  \<open>skia_sdl_example/main.cpp\<close>: a picture is drawn with Skia into a bitmap, shown in a window of
  SDL, and the program waits for the window to be closed. Both libraries are outside of the repository: their calls
  are recorded with their arguments, in order, and what they return is given (\<open>sdl_replies\<close>, and the
  events of the successive calls of \<open>SDL_PollEvent\<close>). A pointer is a number, NULL is 0. The arithmetic of
  \<open>SkScalar\<close> is an argument of \<open>star\<close>. \<open>star\<close> and \<open>draw_canvas2\<close> are not called by \<open>main\<close>.
\<close>

section \<open>The pixel format\<close>

unbundle bit_operations_syntax

record RGBA =
  rmask :: "32 word"
  gmask :: "32 word"
  bmask :: "32 word"
  amask :: "32 word"

definition RGBA_default :: RGBA where
  "RGBA_default = \<lparr>rmask = 0x00ff0000, gmask = 0x0000ff00, bmask = 0x000000ff, amask = 0xff000000\<rparr>"

text \<open>
  A pixel of \<open>kBGRA_8888_SkColorType\<close>, as its documentation has it: the bytes blue, green, red and
  alpha in this order in memory, read as a little-endian word.
\<close>

definition bgra_pixel :: "8 word \<Rightarrow> 8 word \<Rightarrow> 8 word \<Rightarrow> 8 word \<Rightarrow> 32 word" where
  "bgra_pixel r g b a =
     ucast b OR push_bit 8 (ucast g) OR push_bit 16 (ucast r) OR push_bit 24 (ucast a)"

section \<open>Drawing\<close>

datatype paint_style = kFill_Style | kStroke_Style

text \<open>Calls on the objects of a drawing function: its canvas, its paint, its rectangle and its oval.\<close>

datatype sk_call =
    CanvasDrawColor "32 word"
  | CanvasClear "32 word"
  | PaintCtor
  | PaintSetStyle paint_style
  | PaintSetAntiAlias bool
  | PaintSetStrokeWidth int
  | PaintSetColor "32 word"
  | RectMakeXYWH int int int int
  | RectOffset int int
  | OvalCtor
  | OvalSetOvalRect
  | OvalOffset int int
  | CanvasDrawRect
  | CanvasDrawRRectOval
  | CanvasDrawCircle int int int
  | CanvasDrawRoundRect int int

abbreviation SK_ColorWHITE :: "32 word" where "SK_ColorWHITE \<equiv> 0xFFFFFFFF"

definition draw_canvas :: "sk_call list" where
  "draw_canvas =
     [CanvasDrawColor SK_ColorWHITE,
      PaintCtor, PaintSetStyle kFill_Style, PaintSetAntiAlias True, PaintSetStrokeWidth 4,
      PaintSetColor 0xff4285F4,
      RectMakeXYWH 10 10 100 160, CanvasDrawRect,
      OvalCtor, OvalSetOvalRect, OvalOffset 40 80, PaintSetColor 0xffDB4437, CanvasDrawRRectOval,
      PaintSetColor 0xff0F9D58, CanvasDrawCircle 180 50 25,
      RectOffset 80 50, PaintSetColor 0xffF4B400, PaintSetStyle kStroke_Style, CanvasDrawRoundRect 10 10]"

text \<open>The scalars of \<open>star\<close>, with \<open>cos\<close> and \<open>sin\<close>; \<open>sc_lit\<close> is the value of a literal.\<close>

record 's scalar =
  sc_lit :: "real \<Rightarrow> 's"
  sc_of_int :: "int \<Rightarrow> 's"
  sc_add :: "'s \<Rightarrow> 's \<Rightarrow> 's"
  sc_mul :: "'s \<Rightarrow> 's \<Rightarrow> 's"
  sc_cos :: "'s \<Rightarrow> 's"
  sc_sin :: "'s \<Rightarrow> 's"

datatype 's path_call = MoveTo 's 's | LineTo 's 's

definition star_line :: "'s scalar \<Rightarrow> int \<Rightarrow> 's path_call" where
  "star_line S i =
     (let R = sc_lit S 60; C = sc_lit S 128;
          a = sc_mul S (sc_lit S 0.44879895) (sc_of_int S i);
          r = sc_add S R (sc_mul S R (sc_of_int S (i mod 2)))
      in LineTo (sc_add S C (sc_mul S r (sc_cos S a))) (sc_add S C (sc_mul S r (sc_sin S a))))"

definition star :: "'s scalar \<Rightarrow> 's path_call list" where
  "star S =
     (let R = sc_lit S 60; C = sc_lit S 128 in
      MoveTo (sc_add S C R) C # map (star_line S) [1..14])"

datatype 's canvas2_call =
    Paint2Ctor
  | Paint2DiscretePathEffect 's 's
  | Paint2LinearGradient "('s \<times> 's) list" "(nat \<times> nat \<times> nat) list" nat
  | Paint2AntiAlias bool
  | Canvas2Clear "32 word"
  | Canvas2DrawPath "'s path_call list"

definition draw_canvas2 :: "'s scalar \<Rightarrow> 's canvas2_call list" where
  "draw_canvas2 S =
     (let points = [(sc_lit S 0, sc_lit S 0), (sc_lit S 256, sc_lit S 256)];
          colors = [(66, 133, 244), (15, 157, 88)]
      in [Paint2Ctor, Paint2DiscretePathEffect (sc_lit S 10) (sc_lit S 4),
          Paint2LinearGradient points colors 2, Paint2AntiAlias True,
          Canvas2Clear SK_ColorWHITE, Canvas2DrawPath (star S)])"

section \<open>The program\<close>

datatype sdl_call =
    SdlInit string
  | SdlCreateWindow string string string int int "string list"
  | BitmapSetInfo int int string string
  | BitmapAllocPixels
  | CanvasOfBitmap "sk_call list"
  | SdlCreateRGBSurfaceFrom int int nat int RGBA
  | SdlCreateRenderer int int string
  | SdlRenderClear int
  | SdlCreateTextureFromSurface int int
  | SdlRenderCopy int int "int \<times> int \<times> int \<times> int"
  | SdlRenderPresent int
  | SdlPollEvent
  | SdlFreeSurface int
  | SdlDestroyTexture int
  | SdlDestroyRenderer int
  | SdlDestroyWindow int
  | SdlQuit
  | BitmapDtor

record sdl_replies =
  re_window :: int
  re_surface :: int
  re_surface_size :: "int \<times> int"
  re_renderer :: int
  re_texture :: int

text \<open>\<open>draw\<close> allocates the pixels of a bitmap of this size and draws into it.\<close>

definition draw :: "int \<Rightarrow> int \<Rightarrow> sdl_call list" where
  "draw w h =
     [BitmapSetInfo w h ''kBGRA_8888_SkColorType'' ''kOpaque_SkAlphaType'', BitmapAllocPixels,
      CanvasOfBitmap draw_canvas]"

definition create_rect :: "sdl_replies \<Rightarrow> cpp_error + int \<times> int \<times> int \<times> int" where
  "create_rect re =
     (if re_surface re = 0 then Inl (Undefined NullDeref)
      else Inr (0, 0, fst (re_surface_size re), snd (re_surface_size re)))"

text \<open>
  The loop of \<open>main\<close>: \<open>None\<close> is a call of \<open>SDL_PollEvent\<close> without an event, \<open>Some ty\<close> one with an event of
  this type. The result says whether the loop was left.
\<close>

abbreviation SDL_QUIT :: nat where "SDL_QUIT \<equiv> 0x100"

fun event_wait :: "nat option list \<Rightarrow> bool \<times> sdl_call list" where
  "event_wait [] = (False, [])"
| "event_wait (ev # evs) =
     (if ev = Some SDL_QUIT then (True, [SdlPollEvent])
      else let (quit, calls) = event_wait evs in (quit, SdlPollEvent # calls))"

text \<open>The frame of the picture, up to the loop.\<close>

definition skia_show :: "sdl_replies \<Rightarrow> int \<times> int \<times> int \<times> int \<Rightarrow> sdl_call list" where
  "skia_show re rect =
     [SdlCreateRenderer (re_window re) (- 1) ''SDL_RENDERER_ACCELERATED'', SdlRenderClear (re_renderer re),
      SdlCreateTextureFromSurface (re_renderer re) (re_surface re),
      SdlRenderCopy (re_renderer re) (re_texture re) rect, SdlRenderPresent (re_renderer re)]"

definition skia_cleanup :: "sdl_replies \<Rightarrow> sdl_call list" where
  "skia_cleanup re =
     [SdlFreeSurface (re_surface re), SdlDestroyTexture (re_texture re), SdlDestroyRenderer (re_renderer re),
      SdlDestroyWindow (re_window re), SdlQuit, BitmapDtor]"

definition skia_main :: "sdl_replies \<Rightarrow> nat option list \<Rightarrow> int outcome \<times> sdl_call list" where
  "skia_main re evs =
     (let width = 800; height = 480;
          start = [SdlInit ''SDL_INIT_VIDEO'',
            SdlCreateWindow ''Hello Skia'' ''SDL_WINDOWPOS_CENTERED'' ''SDL_WINDOWPOS_CENTERED'' width height
              [''SDL_WINDOW_RESIZABLE'', ''SDL_WINDOW_SHOWN'']] in
      if re_window re = 0 then (Ok (- 1), start @ [BitmapDtor])
      else
        let drawn = start @ draw width height @ [SdlCreateRGBSurfaceFrom width height 32 (width * 4) RGBA_default] in
        case create_rect re of
          Inl e \<Rightarrow> (Fail e, drawn)
        | Inr rect \<Rightarrow>
            let shown = drawn @ skia_show re rect; (quit, calls) = event_wait evs in
            if quit then (Ok 0, shown @ calls @ skia_cleanup re) else (Blocked, shown @ calls))"

section \<open>The pixels\<close>

lemma bgra_bits:
  "bit (bgra_pixel r g b a) n \<longleftrightarrow>
     (if n < 8 then bit b n else if n < 16 then bit g (n - 8) else if n < 24 then bit r (n - 16)
      else if n < 32 then bit a (n - 24) else False)"
  by (auto simp: bgra_pixel_def bit_simps not_less dest: bit_imp_le_length)

text \<open>
  the masks that \<open>main\<close> gives to SDL cut the four bytes of a \<open>kBGRA_8888\<close> pixel out of the word.
\<close>

theorem RGBA_masks_decode:
  "ucast (drop_bit 16 (bgra_pixel r g b a AND rmask RGBA_default)) = r \<and>
   ucast (drop_bit 8 (bgra_pixel r g b a AND gmask RGBA_default)) = g \<and>
   ucast (bgra_pixel r g b a AND bmask RGBA_default) = b \<and>
   ucast (drop_bit 24 (bgra_pixel r g b a AND amask RGBA_default)) = a"
proof -
  have masks: "rmask RGBA_default = push_bit 16 (mask 8)" "gmask RGBA_default = push_bit 8 (mask 8)"
    "bmask RGBA_default = mask 8" "amask RGBA_default = push_bit 24 (mask 8)"
    by (simp_all add: RGBA_default_def mask_eq_exp_minus_1 push_bit_eq_mult)
  show ?thesis
    unfolding masks by (intro conjI bit_word_eqI) (auto simp: bit_simps bgra_bits)
qed

section \<open>The star\<close>

definition real_scalar :: "real scalar" where
  "real_scalar = \<lparr>sc_lit = id, sc_of_int = of_int, sc_add = (+), sc_mul = (*), sc_cos = cos, sc_sin = sin\<rparr>"

definition on_circle :: "real \<Rightarrow> real path_call \<Rightarrow> bool" where
  "on_circle r c = (case c of MoveTo x y \<Rightarrow> (x - 128)\<^sup>2 + (y - 128)\<^sup>2 = r\<^sup>2
     | LineTo x y \<Rightarrow> (x - 128)\<^sup>2 + (y - 128)\<^sup>2 = r\<^sup>2)"

lemma star_line_circle: "on_circle (if i mod 2 = 0 then 60 else 120) (star_line real_scalar i)"
proof -
  have "(r * cos a)\<^sup>2 + (r * sin a)\<^sup>2 = r\<^sup>2" for r a :: real
    by (simp add: power_mult_distrib flip: distrib_left)
  moreover have "i mod 2 = 0 \<or> i mod 2 = 1" by auto
  ultimately show ?thesis by (auto simp: star_line_def on_circle_def real_scalar_def Let_def)
qed

text \<open>
  in exact arithmetic the star is a path of fifteen points that lie alternately on a circle of radius
  60 and on one of radius 120 around (128, 128), beginning with the smaller one.
\<close>

theorem star_alternates:
  "length (star real_scalar) = 15 \<and>
   (\<forall>i < 15. on_circle (if even i then 60 else 120) (star real_scalar ! i))"
proof -
  have "on_circle (if even i then 60 else 120) (star real_scalar ! i)" if "i < 15" for i
  proof (cases i)
    case 0
    then show ?thesis by (simp add: star_def on_circle_def real_scalar_def Let_def)
  next
    case (Suc j)
    with that have "star real_scalar ! i = star_line real_scalar (int i)"
      by (simp add: star_def nth_upto Let_def)
    then show ?thesis using star_line_circle [of "int i"] by (simp add: zmod_int flip: even_iff_mod_2_eq_zero)
  qed
  then show ?thesis by (simp add: star_def Let_def)
qed

section \<open>Resources\<close>

text \<open>
  What the documentation of SDL says of ownership, as a ledger over the calls: the resources alive, each with the pointer that
  stands for it, and \<open>None\<close> once a call has been given a pointer that is not alive, has made something that
  already is, or has ended something that something else alive depends on: a texture depends on its renderer, a renderer on its
  window, all of them and surfaces on the initialised library, and a surface made from pixels on these. A call ends only the resource that
  it is given.
\<close>

datatype resource = Video | Window int | Pixels | Surface int | Renderer int | Texture int

fun needs :: "sdl_call \<Rightarrow> resource set" where
  "needs (SdlCreateWindow _ _ _ _ _ _) = {Video}"
| "needs (CanvasOfBitmap _) = {Pixels}"
| "needs (SdlCreateRGBSurfaceFrom _ _ _ _ _) = {Video, Pixels}"
| "needs (SdlCreateRenderer w _ _) = {Window w}"
| "needs (SdlRenderClear r) = {Renderer r}"
| "needs (SdlCreateTextureFromSurface r s) = {Renderer r, Surface s}"
| "needs (SdlRenderCopy r t _) = {Renderer r, Texture t}"
| "needs (SdlRenderPresent r) = {Renderer r}"
| "needs SdlPollEvent = {Video}"
| "needs (SdlFreeSurface s) = {Surface s}"
| "needs (SdlDestroyTexture t) = {Texture t}"
| "needs (SdlDestroyRenderer r) = {Renderer r}"
| "needs (SdlDestroyWindow w) = {Window w}"
| "needs SdlQuit = {Video}"
| "needs _ = {}"

fun makes :: "sdl_replies \<Rightarrow> sdl_call \<Rightarrow> resource set" where
  "makes re (SdlInit _) = {Video}"
| "makes re (SdlCreateWindow _ _ _ _ _ _) = (if re_window re = 0 then {} else {Window (re_window re)})"
| "makes re BitmapAllocPixels = {Pixels}"
| "makes re (SdlCreateRGBSurfaceFrom _ _ _ _ _) = (if re_surface re = 0 then {} else {Surface (re_surface re)})"
| "makes re (SdlCreateRenderer _ _ _) = (if re_renderer re = 0 then {} else {Renderer (re_renderer re)})"
| "makes re (SdlCreateTextureFromSurface _ _) = (if re_texture re = 0 then {} else {Texture (re_texture re)})"
| "makes re _ = {}"

fun ends :: "sdl_call \<Rightarrow> resource set" where
  "ends (SdlFreeSurface s) = {Surface s}"
| "ends (SdlDestroyTexture t) = {Texture t}"
| "ends (SdlDestroyRenderer r) = {Renderer r}"
| "ends (SdlDestroyWindow w) = {Window w}"
| "ends SdlQuit = {Video}"
| "ends BitmapDtor = {Pixels}"
| "ends _ = {}"

text \<open>Whether the first resource is one on which the second depends.\<close>

fun carries :: "resource \<Rightarrow> resource \<Rightarrow> bool" where
  "carries (Renderer r) (Texture t) \<longleftrightarrow> True"
| "carries (Window w) (Renderer r) \<longleftrightarrow> True"
| "carries Pixels (Surface s) \<longleftrightarrow> True"
| "carries Video x \<longleftrightarrow> x \<noteq> Video \<and> x \<noteq> Pixels"
| "carries _ _ \<longleftrightarrow> False"

fun ledger :: "sdl_replies \<Rightarrow> resource set \<Rightarrow> sdl_call list \<Rightarrow> resource set option" where
  "ledger re alive [] = Some alive"
| "ledger re alive (c # cs) =
     (if needs c \<subseteq> alive \<and> makes re c \<inter> alive = {} \<and> (\<forall>x \<in> ends c. \<forall>y \<in> alive. \<not> carries x y)
      then ledger re (alive - ends c \<union> makes re c) cs else None)"

lemma ledger_append:
  "ledger re alive (cs @ cs') = (case ledger re alive cs of None \<Rightarrow> None | Some alive' \<Rightarrow> ledger re alive' cs')"
  by (induction cs arbitrary: alive) simp_all

lemma event_wait_quit: "fst (event_wait evs) \<longleftrightarrow> Some SDL_QUIT \<in> set evs"
  by (induction evs rule: event_wait.induct) (auto simp: split_beta Let_def)

lemma event_wait_ledger: "Video \<in> alive \<Longrightarrow> ledger re alive (snd (event_wait evs)) = Some alive"
  by (induction evs rule: event_wait.induct) (auto simp: split_beta Let_def)

text \<open>
  C31: when SDL can create what it is asked for, the program shows the picture and runs until an event of type
  \<open>SDL_QUIT\<close> is polled, whatever other events come before: every call gets the pointer of a resource that is alive, the library,
  window, surface, renderer, texture and pixels are each released by the call for it, exactly once and
  not before everything that depends on it, nothing is left, and the program returns 0; without such an
  event it waits with everything alive.
\<close>

theorem skia_main_releases:
  assumes "re_window re \<noteq> 0" "re_surface re \<noteq> 0" "re_renderer re \<noteq> 0" "re_texture re \<noteq> 0"
  shows "\<exists>calls. skia_main re evs = (if Some SDL_QUIT \<in> set evs then Ok 0 else Blocked, calls) \<and>
    ledger re {} calls =
      Some (if Some SDL_QUIT \<in> set evs then {} else {Video, Window (re_window re), Pixels, Surface (re_surface re),
        Renderer (re_renderer re), Texture (re_texture re)})"
proof -
  obtain quit calls where ev: "event_wait evs = (quit, calls)" by (cases "event_wait evs")
  with event_wait_quit [of evs] have q: "quit \<longleftrightarrow> Some SDL_QUIT \<in> set evs" by simp
  have polls: "ledger re alive (calls @ cs) = ledger re alive cs" if "Video \<in> alive" for alive cs
    using event_wait_ledger [OF that, of re evs] ev by (simp add: ledger_append)
  from polls [of _ "[]"] have "ledger re alive calls = Some alive" if "Video \<in> alive" for alive using that by simp
  with assms polls show ?thesis
    by (auto simp: skia_main_def Let_def ev q draw_def create_rect_def skia_show_def skia_cleanup_def)
qed

theorem skia_main_releases_witness:
  "\<exists>calls. skia_main \<lparr>re_window = 1, re_surface = 2, re_surface_size = (800, 480), re_renderer = 3, re_texture = 4\<rparr>
       [None, Some 0x300, None, Some SDL_QUIT, None] = (Ok 0, calls) \<and>
     ledger \<lparr>re_window = 1, re_surface = 2, re_surface_size = (800, 480), re_renderer = 3, re_texture = 4\<rparr> {} calls = Some {}"
  using skia_main_releases [of "\<lparr>re_window = 1, re_surface = 2, re_surface_size = (800, 480), re_renderer = 3, re_texture = 4\<rparr>"
      "[None, Some 0x300, None, Some SDL_QUIT, None]"] by simp

text \<open>
  What the program does when a creation fails: without a window it returns -1 and leaves SDL initialised;
  without a surface \<open>create_rect\<close> reads through a null pointer; without a renderer it
  goes on to use it.
\<close>

theorem skia_main_failures:
  "re_window re = 0 \<Longrightarrow> \<exists>calls. skia_main re evs = (Ok (- 1), calls) \<and> ledger re {} calls = Some {Video}"
  "re_window re \<noteq> 0 \<Longrightarrow> re_surface re = 0 \<Longrightarrow> \<exists>calls. skia_main re evs = (Fail (Undefined NullDeref), calls)"
  "re_window re \<noteq> 0 \<Longrightarrow> re_surface re \<noteq> 0 \<Longrightarrow> re_renderer re = 0 \<Longrightarrow> ledger re {} (snd (skia_main re evs)) = None"
  by (auto simp: skia_main_def Let_def split_beta draw_def create_rect_def skia_show_def)

end
