(* ===== verification/Std_Examples.thy ===== *)
theory Std_Examples
  imports Cpp_Prog
begin

text \<open>
  Examples whose behaviour comes from the rules of the language and of the standard library:
  \<open>037_vector_3.cpp\<close> (iterators of a vector that an insertion invalidates), \<open>041_equality_equivalent.cpp\<close>
  (equivalence in \<open>std::set\<close>, equality in \<open>std::find\<close>), \<open>003\<close> (aggregate initialisation), \<open>016_1\<close>
  (overloads on the value category of the object) and \<open>022\<close> (the operand of \<open>sizeof\<close> is not evaluated). What an
  implementation of the library may choose is an argument: the capacity to which a vector grows, the comparisons that a set
  makes, and the size of \<open>int\<close>.
\<close>

section \<open>037\_vector\_3.cpp\<close>

record Date =
  dt_date :: string

text \<open>The constructors ignore their argument; so does the copy constructor, whose member is default-initialised.\<close>

definition Date_ctor :: "string \<Rightarrow> Date" where
  "Date_ctor str = \<lparr>dt_date = []\<rparr>"

definition Date_copy :: "Date \<Rightarrow> Date" where
  "Date_copy rhs = \<lparr>dt_date = []\<rparr>"

definition Date_assign :: "Date \<Rightarrow> string \<Rightarrow> Date" where
  "Date_assign self rhs = self"

definition Date_eq :: "Date \<Rightarrow> string \<Rightarrow> bool" where
  "Date_eq self rhs = True"

definition Date_print :: "Date \<Rightarrow> cout list" where
  "Date_print c = [CStr (''Date'' @ lf)]"

text \<open>\<open>operator>>\<close> announces itself and then extracts a word, if there is one.\<close>

fun Date_extract :: "string list \<Rightarrow> cout list \<times> (Date \<times> string list) option" where
  "Date_extract [] = ([CStr (''Date: '' @ lf)], None)"
| "Date_extract (w # ws) = ([CStr (''Date: '' @ lf)], Some (\<lparr>dt_date = w\<rparr>, ws))"

definition TodaysDate :: Date where
  "TodaysDate = Date_ctor ''29/04/19''"

text \<open>A vector with its capacity; \<open>grow\<close> gives the capacity after an insertion into a full one.\<close>

record date_vec =
  dv_items :: "Date list"
  dv_cap :: nat

definition dv_push_back :: "(nat \<Rightarrow> nat) \<Rightarrow> date_vec \<Rightarrow> Date \<Rightarrow> date_vec" where
  "dv_push_back grow v d =
     \<lparr>dv_items = (if length (dv_items v) < dv_cap v then dv_items v else map Date_copy (dv_items v)) @ [Date_copy d],
      dv_cap = (if length (dv_items v) < dv_cap v then dv_cap v else grow (length (dv_items v)))\<rparr>"

text \<open>\<open>copy(istream_iterator<Date>(cin), istream_iterator<Date>(), back_inserter(e))\<close>: each step extracts.\<close>

fun copy_dates :: "(nat \<Rightarrow> nat) \<Rightarrow> string list \<Rightarrow> date_vec \<Rightarrow> cout list \<times> date_vec" where
  "copy_dates grow [] v = (fst (Date_extract []), v)"
| "copy_dates grow (w # ws) v =
     (case Date_extract (w # ws) of
        (out, None) \<Rightarrow> (out, v)
      | (out, Some (d, ws')) \<Rightarrow>
          let (out', v') = copy_dates grow ws (dv_push_back grow v d) in (out @ out', v'))"

text \<open>\<open>std::find\<close>: the index of the first element that compares equal, or the end.\<close>

fun date_find :: "Date list \<Rightarrow> string \<Rightarrow> nat" where
  "date_find [] s = 0"
| "date_find (d # ds) s = (if Date_eq d s then 0 else Suc (date_find ds s))"

text \<open>
  \<open>insert(pos, d)\<close>, and which iterators stay valid: those before the position, if no new storage is needed.
\<close>

definition dv_insert :: "(nat \<Rightarrow> nat) \<Rightarrow> date_vec \<Rightarrow> nat \<Rightarrow> Date \<Rightarrow> date_vec \<times> (nat \<Rightarrow> bool)" where
  "dv_insert grow v pos d =
     (\<lparr>dv_items = take pos (dv_items v) @ Date_copy d # drop pos (dv_items v),
       dv_cap = (if length (dv_items v) < dv_cap v then dv_cap v else grow (length (dv_items v)))\<rparr>,
      \<lambda>it. length (dv_items v) < dv_cap v \<and> it < pos)"

definition copy_out :: "date_vec \<Rightarrow> nat \<Rightarrow> nat \<Rightarrow> cout list" where
  "copy_out v from till = concat (map (\<lambda>d. Date_print d @ [CStr lf]) (drop from (take till (dv_items v))))"

definition main_037 :: "(nat \<Rightarrow> nat) \<Rightarrow> string list \<Rightarrow> cpp_error + cout list" where
  "main_037 grow cin =
     (let (out, e) = copy_dates grow cin \<lparr>dv_items = [], dv_cap = 0\<rparr>;
          first = date_find (dv_items e) ''01/01/95'';
          last_it = date_find (dv_items e) ''12/31/95''
      in if last_it \<ge> length (dv_items e) then Inl (Undefined OutOfBoundsWrite)
         else
           let e = e\<lparr>dv_items := (dv_items e)[last_it := Date_assign (dv_items e ! last_it) ''12/30/95'']\<rparr>;
               out = out @ copy_out e first last_it;
               (e, valid) = dv_insert grow e (length (dv_items e) - 1) TodaysDate
           in if \<not> valid first \<or> \<not> valid last_it then Inl (Undefined UseAfterFree)
              else Inr (out @ copy_out e first last_it))"

section \<open>041\_equality\_equivalent.cpp\<close>

record A_041 =
  a41_tmp :: string

fun str_lt :: "string \<Rightarrow> string \<Rightarrow> bool" where
  "str_lt _ [] \<longleftrightarrow> False"
| "str_lt [] (d # ds) \<longleftrightarrow> True"
| "str_lt (c # cs) (d # ds) \<longleftrightarrow>
     (of_char c :: nat) < of_char d \<or> (of_char c :: nat) = of_char d \<and> str_lt cs ds"

text \<open>Both operators report the call.\<close>

definition A_041_less :: "A_041 \<Rightarrow> A_041 \<Rightarrow> cout list \<times> bool" where
  "A_041_less self rhs =
     ([CStr ''< called this '', CStr (a41_tmp self), CStr '' rhs = '', CStr (a41_tmp rhs), CEndl],
      str_lt (a41_tmp self) (a41_tmp rhs))"

definition A_041_eq :: "A_041 \<Rightarrow> A_041 \<Rightarrow> cout list \<times> bool" where
  "A_041_eq self rhs =
     ([CStr '' == called this '', CStr (a41_tmp self), CStr '' rhs = '', CStr (a41_tmp rhs), CEndl],
      a41_tmp self = a41_tmp rhs)"

text \<open>
  \<open>std::set\<close> is its list of elements in order; elements of which neither is less are equivalent. \<open>probes\<close> gives, for
  each operation on a set with a key, the pairs that the implementation compares.
\<close>

definition equivalent :: "A_041 \<Rightarrow> A_041 \<Rightarrow> bool" where
  "equivalent a b \<longleftrightarrow> \<not> snd (A_041_less a b) \<and> \<not> snd (A_041_less b a)"

definition set_insert :: "A_041 list \<Rightarrow> A_041 \<Rightarrow> A_041 list" where
  "set_insert s a =
     (if list_ex (\<lambda>b. equivalent b a) s then s
      else takeWhile (\<lambda>b. snd (A_041_less b a)) s @ [a] @ dropWhile (\<lambda>b. snd (A_041_less b a)) s)"

definition probed :: "(A_041 list \<Rightarrow> A_041 \<Rightarrow> (A_041 \<times> A_041) list) \<Rightarrow> A_041 list \<Rightarrow> A_041 \<Rightarrow> cout list" where
  "probed probes s a = concat (map (\<lambda>(x, y). fst (A_041_less x y)) (probes s a))"

definition set_find :: "A_041 list \<Rightarrow> A_041 \<Rightarrow> A_041 option" where
  "set_find s a = List.find (\<lambda>b. equivalent b a) s"

fun linear_find :: "A_041 list \<Rightarrow> A_041 \<Rightarrow> cout list \<times> A_041 option" where
  "linear_find [] a = ([], None)"
| "linear_find (b # bs) a =
     (let (out, equal) = A_041_eq b a in
      if equal then (out, Some b) else let (out', r) = linear_find bs a in (out @ out', r))"

definition main_041 :: "(A_041 list \<Rightarrow> A_041 \<Rightarrow> (A_041 \<times> A_041) list) \<Rightarrow> cout list" where
  "main_041 probes =
     (let one = \<lparr>a41_tmp = ''1''\<rparr>; two = \<lparr>a41_tmp = ''2''\<rparr>;
          s0 = []; s1 = set_insert s0 one; s2 = set_insert s1 two;
          (out, found) = linear_find s2 two
      in probed probes s0 one @ probed probes s1 two @ [CStr (''---'' @ lf)] @ probed probes s2 two @
         [CStr (''---'' @ lf)] @ (if set_find s2 two \<noteq> None then [CStr (''2 has found'' @ lf)] else []) @
         out @ (if found \<noteq> None then [CStr (''2 has found'' @ lf)] else []))"

section \<open>003, 016\_1 and 022\<close>

record Sample_003 =
  s3_int_prm :: int
  s3_dbl_prm :: double
  s3_std_prm :: string

definition Sample_003_print :: "Sample_003 \<Rightarrow> cout list" where
  "Sample_003_print self =
     [CInt (s3_int_prm self), CStr '' '', CDbl (s3_dbl_prm self), CStr '' '', CStr (s3_std_prm self), CEndl]"

definition main_003 :: "cout list" where
  "main_003 =
     (let sample = \<lparr>s3_int_prm = 1, s3_dbl_prm = Fin (- 3.14), s3_std_prm = ''dictum factum''\<rparr>;
          cpp11sample = \<lparr>s3_int_prm = 1, s3_dbl_prm = Fin (- 3.14), s3_std_prm = ''dictum factum''\<rparr>
      in Sample_003_print sample @ Sample_003_print sample)"

datatype value_category = Lvalue | Rvalue

definition S_016_f :: "value_category \<Rightarrow> cout list" where
  "S_016_f object = (case object of Lvalue \<Rightarrow> [CStr (''lvalue'' @ lf)] | Rvalue \<Rightarrow> [CStr (''rvalue'' @ lf)])"

definition main_016_1 :: "cout list" where
  "main_016_1 = S_016_f Lvalue @ S_016_f Rvalue @ S_016_f Rvalue"

text \<open>
  An expression of type \<open>int\<close> as its effect on the variable \<open>i\<close>; as the operand of \<open>sizeof\<close> it has none.
\<close>

definition sizeof_operand :: "nat \<Rightarrow> (int \<Rightarrow> int) \<Rightarrow> int \<Rightarrow> int \<times> nat" where
  "sizeof_operand sizeof_int effect i = (i, sizeof_int)"

definition main_022 :: "nat \<Rightarrow> cout list" where
  "main_022 sizeof_int =
     (let line = (\<lambda>i j. [CInt i, CStr '' '', CInt (int j), CEndl]);
          i = 0;
          (i, j) = sizeof_operand sizeof_int (\<lambda>i. 1234) i; out1 = line i j;
          (i, j) = sizeof_operand sizeof_int (\<lambda>i. i + 1) i; out2 = line i j;
          i = 1234; (i, j) = sizeof_operand sizeof_int (\<lambda>i. i) i; out3 = line i j;
          i = i + 1; (i, j) = sizeof_operand sizeof_int (\<lambda>i. i) i; out4 = line i j
      in out1 @ out2 @ out3 @ out4)"

section \<open>Properties\<close>

text \<open>The capacity after so many insertions at the end.\<close>

fun pushed_cap :: "(nat \<Rightarrow> nat) \<Rightarrow> nat \<Rightarrow> nat" where
  "pushed_cap grow 0 = 0"
| "pushed_cap grow (Suc n) = (if n < pushed_cap grow n then pushed_cap grow n else grow n)"

lemma copy_dates_result:
  assumes "dv_cap v = pushed_cap grow (length (dv_items v))" "\<forall>d \<in> set (dv_items v). d = \<lparr>dt_date = []\<rparr>"
  shows "copy_dates grow ws v =
    (replicate (Suc (length ws)) (CStr (''Date: '' @ lf)),
     \<lparr>dv_items = replicate (length (dv_items v) + length ws) \<lparr>dt_date = []\<rparr>,
      dv_cap = pushed_cap grow (length (dv_items v) + length ws)\<rparr>)"
  using assms
proof (induction ws arbitrary: v)
  case Nil
  have "dv_items v = replicate (length (dv_items v)) \<lparr>dt_date = []\<rparr>"
    using Nil.prems(2) by (simp add: replicate_length_same)
  with Nil.prems(1) show ?case by (cases v) simp
next
  case (Cons w ws)
  let ?v = "dv_push_back grow v \<lparr>dt_date = w\<rparr>"
  have "dv_cap ?v = pushed_cap grow (length (dv_items ?v))" "\<forall>d \<in> set (dv_items ?v). d = \<lparr>dt_date = []\<rparr>"
    "length (dv_items ?v) = Suc (length (dv_items v))"
    using Cons.prems by (auto simp: dv_push_back_def Date_copy_def)
  with Cons.IH [of ?v] show ?case by simp
qed

text \<open>
  what \<open>037_vector_3.cpp\<close> does with \<open>n\<close> words on its input, whatever the growth policy of the
  vector: since every \<open>Date\<close> equals every string, both searches give the begin. Without input the assignment goes
  through the end iterator; with one word the insertion is at the begin and invalidates both iterators; with
  more, it invalidates them exactly when the vector is full. Only otherwise the program ends, and it has then printed
  nothing but the announcements of \<open>operator>>\<close>, one more than there are words.
\<close>

theorem main_037_cases:
  "main_037 grow cin =
     (if length cin = 0 then Inl (Undefined OutOfBoundsWrite)
      else if length cin = 1 \<or> pushed_cap grow (length cin) \<le> length cin then Inl (Undefined UseAfterFree)
      else Inr (replicate (Suc (length cin)) (CStr (''Date: '' @ lf))))"
proof -
  have r: "copy_dates grow cin \<lparr>dv_items = [], dv_cap = 0\<rparr> =
    (replicate (Suc (length cin)) (CStr (''Date: '' @ lf)),
     \<lparr>dv_items = replicate (length cin) \<lparr>dt_date = []\<rparr>, dv_cap = pushed_cap grow (length cin)\<rparr>)"
    using copy_dates_result [of "\<lparr>dv_items = [], dv_cap = 0\<rparr>" grow cin] by simp
  have "date_find (replicate n d) s = 0" for n d s by (cases n) (simp_all add: Date_eq_def)
  then show ?thesis
    by (cases "length cin") (auto simp: main_037_def r Let_def dv_insert_def copy_out_def Date_eq_def)
qed

text \<open>
  whatever the set compares, \<open>041\<close> finds the element both by equivalence and by equality; the second
  search calls \<open>==\<close> twice, the set never does.
\<close>

theorem main_041_output:
  "main_041 probes =
     (let one = \<lparr>a41_tmp = ''1''\<rparr>; two = \<lparr>a41_tmp = ''2''\<rparr> in
      probed probes [] one @ probed probes [one] two @ [CStr (''---'' @ lf)] @ probed probes [one, two] two @
      [CStr (''---'' @ lf), CStr (''2 has found'' @ lf),
       CStr '' == called this '', CStr ''1'', CStr '' rhs = '', CStr ''2'', CEndl,
       CStr '' == called this '', CStr ''2'', CStr '' rhs = '', CStr ''2'', CEndl,
       CStr (''2 has found'' @ lf)])"
  by (simp add: main_041_def set_insert_def set_find_def equivalent_def A_041_less_def A_041_eq_def Let_def)

text \<open>
  the three small programs: \<open>003\<close> prints its first object twice and the second never; the overload follows the
  value category; \<open>i\<close> keeps its value in \<open>sizeof\<close>.
\<close>

theorem small_mains:
  "main_003 = concat (replicate 2 [CInt 1, CStr '' '', CDbl (Fin (- 3.14)), CStr '' '', CStr ''dictum factum'', CEndl])"
  "main_016_1 = [CStr (''lvalue'' @ lf), CStr (''rvalue'' @ lf), CStr (''rvalue'' @ lf)]"
  "main_022 n = concat (map (\<lambda>i. [CInt i, CStr '' '', CInt (int n), CEndl]) [0, 0, 1234, 1235])"
  by (simp_all add: main_003_def Sample_003_print_def Let_def main_016_1_def S_016_f_def main_022_def
      sizeof_operand_def numeral_2_eq_2)

end
