(* ===== verification/DArray_Programs.thy ===== *)
theory DArray_Programs
  imports DArray
begin

text \<open>
  Whole programs over a \<open>DArray\<close>: any sequence of its operations, in which an exception is caught and the next operation
  follows, against the same sequence on a list. This is the contract of the class as its clients see it: the
  operations of \<open>DArray.cpp\<close> implement a list, and keep the array well formed.
\<close>

section \<open>Operations and their results\<close>

datatype darray_op =
    PushOp double
  | PopOp
  | AtOp int
  | GetOp size_t
  | SetOp size_t double
  | DisplayOp

datatype op_result = Done | Value double | Thrown string | Shown "cout list"

text \<open>\<open>try { ... } catch (const std::exception&)\<close> around an operation that leaves the array as it was when it throws.\<close>

definition caught :: "darray \<Rightarrow> cpp_error + op_result \<times> darray \<Rightarrow> cpp_error + op_result \<times> darray" where
  "caught d r = (case r of Inl (Throw msg) \<Rightarrow> Inr (Thrown msg, d) | _ \<Rightarrow> r)"

fun darray_do :: "darray \<Rightarrow> darray_op \<Rightarrow> cpp_error + op_result \<times> darray" where
  "darray_do d (PushOp v) = caught d (bindE (DArray_PushBack d v) (\<lambda>d'. Inr (Done, d')))"
| "darray_do d PopOp = caught d (bindE (DArray_PopBack d) (\<lambda>(v, d'). Inr (Value v, d')))"
| "darray_do d (AtOp i) = caught d (bindE (DArray_At d i) (\<lambda>v. Inr (Value v, d)))"
| "darray_do d (GetOp i) = caught d (bindE (DArray_get d i) (\<lambda>v. Inr (Value v, d)))"
| "darray_do d (SetOp i v) = caught d (bindE (DArray_set d i v) (\<lambda>d'. Inr (Done, d')))"
| "darray_do d DisplayOp = caught d (bindE (DArray_Display d) (\<lambda>out. Inr (Shown out, d)))"

fun darray_run :: "darray \<Rightarrow> darray_op list \<Rightarrow> cpp_error + op_result list \<times> darray" where
  "darray_run d [] = Inr ([], d)"
| "darray_run d (op # ops) =
     bindE (darray_do d op) (\<lambda>(r, d'). bindE (darray_run d' ops) (\<lambda>(rs, d''). Inr (r # rs, d'')))"

section \<open>The specification\<close>

fun list_do :: "double list \<Rightarrow> darray_op \<Rightarrow> op_result \<times> double list" where
  "list_do xs (PushOp v) = (Done, xs @ [v])"
| "list_do xs PopOp = (if xs = [] then (Thrown ''DArray is empty'', []) else (Value (last xs), butlast xs))"
| "list_do xs (AtOp i) =
     (if 0 \<le> i \<and> nat i < length xs then Value (xs ! nat i) else Thrown ''out of range'', xs)"
| "list_do xs (GetOp i) = (Value (xs ! unat i), xs)"
| "list_do xs (SetOp i v) = (Done, xs[unat i := v])"
| "list_do xs DisplayOp = (Shown (concat (map (\<lambda>v. [CDbl v, CStr tab]) xs) @ [CEndl]), xs)"

fun list_run :: "double list \<Rightarrow> darray_op list \<Rightarrow> op_result list \<times> double list" where
  "list_run xs [] = ([], xs)"
| "list_run xs (op # ops) =
     (let (r, xs') = list_do xs op; (rs, xs'') = list_run xs' ops in (r # rs, xs''))"

text \<open>
  What a client has to respect: \<open>operator[]\<close> only inside the array, and \<open>At\<close>, with an \<open>int\<close>, only on an array that is
  not empty.
\<close>

fun op_allowed :: "double list \<Rightarrow> darray_op \<Rightarrow> bool" where
  "op_allowed xs (AtOp i) \<longleftrightarrow> xs \<noteq> [] \<and> in_int_range i"
| "op_allowed xs (GetOp i) \<longleftrightarrow> unat i < length xs"
| "op_allowed xs (SetOp i v) \<longleftrightarrow> unat i < length xs"
| "op_allowed xs _ \<longleftrightarrow> True"

fun ops_allowed :: "double list \<Rightarrow> darray_op list \<Rightarrow> bool" where
  "ops_allowed xs [] \<longleftrightarrow> True"
| "ops_allowed xs (op # ops) \<longleftrightarrow> op_allowed xs op \<and> ops_allowed (snd (list_do xs op)) ops"

section \<open>Simulation\<close>

text \<open>The relation between an array and its list; the capacity can be doubled when it is full.\<close>

definition darray_rel :: "darray \<Rightarrow> double list \<Rightarrow> bool" where
  "darray_rel d xs \<longleftrightarrow> darray_ok d \<and> da_buf_size d \<noteq> 0 \<and> darray_list d = xs"

lemma rel_length: "darray_rel d xs \<Longrightarrow> length xs = unat (da_actual_size d)"
  by (auto simp: darray_rel_def DArray_Size_def)

lemma rel_growable:
  assumes "darray_rel d xs" "length xs \<le> 2 ^ 58"
  shows "growable d"
  using assms rel_length [OF assms(1)] by (auto simp: growable_def darray_rel_def)

lemma rel_push:
  assumes "darray_rel d xs" "length xs \<le> 2 ^ 58"
  shows "\<exists>d'. DArray_PushBack d v = Inr d' \<and> darray_rel d' (xs @ [v])"
proof -
  from DArray_PushBack_ok [OF _ rel_growable [OF assms], of v] assms(1) obtain d' where
    "DArray_PushBack d v = Inr d'" "darray_ok d'" "darray_list d' = xs @ [v]"
    "unat (da_buf_size d') = (if DArray_Size d = DArray_Capacity d then 2 else 1) * unat (da_buf_size d)"
    by (auto simp: darray_rel_def DArray_Capacity_def)
  moreover have "unat (da_buf_size d) \<noteq> 0" using assms(1) by (simp add: darray_rel_def unat_eq_0)
  ultimately show ?thesis by (auto simp: darray_rel_def split: if_splits)
qed

lemma rel_pop:
  assumes "darray_rel d xs"
  shows "if xs = [] then DArray_PopBack d = Inl (Throw ''DArray is empty'')
    else \<exists>d'. DArray_PopBack d = Inr (last xs, d') \<and> darray_rel d' (butlast xs)"
proof (cases "xs = []")
  case True
  with rel_length [OF assms] show ?thesis by (simp add: DArray_PopBack_def unat_eq_0)
next
  case False
  with rel_length [OF assms] have "da_actual_size d \<noteq> 0" by (auto simp: unat_eq_0)
  with DArray_PopBack_ok [of d] assms False show ?thesis by (auto simp: darray_rel_def)
qed

lemma rel_set:
  assumes "darray_rel d xs" "unat i < length xs"
  shows "\<exists>d'. DArray_set d i v = Inr d' \<and> darray_rel d' (xs[unat i := v])"
proof -
  have "i < DArray_Size d" using assms rel_length [OF assms(1)] by (simp add: DArray_Size_def word_less_nat_alt)
  moreover from assms(1) have "\<not> da_null d" by (simp add: darray_rel_def darray_ok_def)
  moreover have "da_buf_size d' = da_buf_size d" if "DArray_set d i v = Inr d'" for d'
    using that by (auto simp: DArray_set_def bindE_eq_Inr_iff split: if_splits)
  ultimately show ?thesis using DArray_set_ok [of d i v] assms(1) by (auto simp: darray_rel_def)
qed

text \<open>
  What \<open>k\<close> doublings do to the capacity and to the log of releases: each one releases the block it replaces, once and with
  \<open>delete[]\<close>; the first of an array that comes straight from the constructor releases a block of \<open>malloc\<close>.
\<close>

fun growth_releases :: "nat \<Rightarrow> alloc_kind \<Rightarrow> heap_op list" where
  "growth_releases 0 a = []"
| "growth_releases (Suc k) a = HeapRelease DeleteArray a # growth_releases k NewArray"

definition array_grown :: "nat \<Rightarrow> darray \<Rightarrow> darray \<Rightarrow> bool" where
  "array_grown k d d' \<longleftrightarrow>
     unat (da_buf_size d') = 2 ^ k * unat (da_buf_size d) \<and>
     da_released d' = da_released d @ growth_releases k (da_kind d) \<and>
     da_kind d' = (if k = 0 then da_kind d else NewArray)"

lemma growth_releases_add:
  "growth_releases (k + k') a = growth_releases k a @ growth_releases k' (if k = 0 then a else NewArray)"
  by (induction k arbitrary: a) auto

lemma array_grown_trans: "array_grown k d d' \<Longrightarrow> array_grown k' d' d'' \<Longrightarrow> array_grown (k + k') d d''"
  by (auto simp: array_grown_def growth_releases_add power_add)

lemma growth_mismatches:
  "filter (\<lambda>h. \<not> release_matches h) (growth_releases k a) = (if k = 0 \<or> a = NewArray then [] else [HeapRelease DeleteArray a])"
proof -
  have "filter (\<lambda>h. \<not> release_matches h) (growth_releases k NewArray) = []" for k by (induction k) auto
  then show ?thesis by (cases k; cases a) auto
qed

lemma push_grown:
  assumes "darray_rel d xs" "length xs \<le> 2 ^ 58" "DArray_PushBack d v = Inr d'"
  shows "\<exists>k. array_grown k d d'"
proof -
  from DArray_PushBack_ok [OF _ rel_growable [OF assms(1,2)], of v] assms(1,3)
  have cap: "unat (da_buf_size d') = (if da_actual_size d = da_buf_size d then 2 else 1) * unat (da_buf_size d)"
    by (auto simp: darray_rel_def DArray_Size_def DArray_Capacity_def)
  have "da_released d' = da_released d @ (if da_actual_size d = da_buf_size d then [HeapRelease DeleteArray (da_kind d)] else []) \<and>
    da_kind d' = (if da_actual_size d = da_buf_size d then NewArray else da_kind d)"
    using assms(3) by (auto simp: DArray_PushBack_def DArray_Reallocate_def DArray_set_def Let_def bindE_eq_Inr_iff split: if_splits)
  with cap show ?thesis
    by (intro exI [of _ "if da_actual_size d = da_buf_size d then 1 else 0"]) (auto simp: array_grown_def)
qed

lemma array_grown_refl: "array_grown 0 d d"
  by (simp add: array_grown_def)

lemma do_grown:
  assumes "darray_rel d xs" "length xs \<le> 2 ^ 58" "darray_do d op = Inr (r, d')"
  shows "\<exists>k. array_grown k d d'"
proof (cases op)
  case (PushOp v)
  with assms(3) rel_push [OF assms(1,2), of v] have "DArray_PushBack d v = Inr d'" by (auto simp: caught_def)
  with push_grown [OF assms(1,2)] show ?thesis by blast
next
  case PopOp
  with assms(3) rel_pop [OF assms(1)] have "d' = d \<or> (\<exists>v. DArray_PopBack d = Inr (v, d'))"
    by (auto simp: caught_def split: if_splits)
  then have "array_grown 0 d d'" by (auto simp: DArray_PopBack_def array_grown_def Let_def bindE_eq_Inr_iff split: if_splits)
  then show ?thesis ..
next
  case (SetOp i v)
  with assms(3) have "d' = d \<or> DArray_set d i v = Inr d'"
    by (auto simp: caught_def bindE_eq_Inr_iff split: sum.splits cpp_error.splits)
  then have "array_grown 0 d d'" by (auto simp: DArray_set_def array_grown_def bindE_eq_Inr_iff split: if_splits)
  then show ?thesis ..
qed (use assms(3) array_grown_refl in \<open>auto simp: caught_def bindE_eq_Inr_iff split: sum.splits cpp_error.splits\<close>)

text \<open>One operation: the array does what the list does.\<close>

lemma darray_do_simulates:
  assumes "darray_rel d xs" "op_allowed xs op" "length xs \<le> 2 ^ 58"
  shows "\<exists>d'. darray_do d op = Inr (fst (list_do xs op), d') \<and> darray_rel d' (snd (list_do xs op))"
proof (cases op)
  case (PushOp v)
  with rel_push [OF assms(1,3), of v] show ?thesis by (auto simp: caught_def)
next
  case PopOp
  with rel_pop [OF assms(1)] assms(1) show ?thesis by (auto simp: caught_def split: if_splits)
next
  case (AtOp i)
  with DArray_At_range [of d i] assms show ?thesis by (auto simp: darray_rel_def caught_def)
next
  case (GetOp i)
  with assms rel_length [OF assms(1)] DArray_get_ok [of d i] show ?thesis
    by (auto simp: darray_rel_def caught_def DArray_Size_def word_less_nat_alt)
next
  case (SetOp i v)
  with rel_set [OF assms(1), of i v] assms(2) show ?thesis by (auto simp: caught_def)
next
  case DisplayOp
  with assms(1) DArray_Display_loop_ok [of d 0 "[]"] show ?thesis
    by (auto simp: darray_rel_def caught_def DArray_Display_def)
qed

lemma list_do_length: "length (snd (list_do xs op)) \<le> Suc (length xs)"
  by (cases op) auto

section \<open>Properties\<close>

text \<open>
  C20: every program of operations on a \<open>DArray\<close> behaves as on a list: from a well-formed array whose capacity is
  not zero, when \<open>operator[]\<close> stays inside, \<open>At\<close> gets an \<open>int\<close> and is not called on an empty array, and the
  elements plus the operations are at most \<open>2^58\<close> (so that the byte counts of a doubled array stay inside \<open>ptrdiff_t\<close>), all results and
  exceptions are those of the list, no access is out of bounds, and the array is again
  well formed with the contents of the list. The capacity has been doubled some number \<open>k\<close> of times, and the
  blocks released are exactly the \<open>k\<close> that were replaced, each once and with \<open>delete[]\<close>; of these only the first can be
  a mismatch, and it is one exactly when the array has array_grown and its block was not from \<open>new[]\<close>, as the
  constructor's is not.
\<close>

theorem DArray_refines_list:
  assumes "darray_rel d xs" and "ops_allowed xs ops" and "length xs + length ops \<le> 2 ^ 58"
  shows "\<exists>d' k. darray_run d ops = Inr (fst (list_run xs ops), d') \<and> darray_rel d' (snd (list_run xs ops)) \<and>
    unat (DArray_Capacity d') = 2 ^ k * unat (DArray_Capacity d) \<and>
    (\<exists>log. da_released d' = da_released d @ log \<and> length log = k \<and> (\<forall>h \<in> set log. \<exists>a. h = HeapRelease DeleteArray a) \<and>
       filter (\<lambda>h. \<not> release_matches h) log =
         (if k = 0 \<or> da_kind d = NewArray then [] else [HeapRelease DeleteArray (da_kind d)]))"
proof -
  have log: "length (growth_releases k a) = k \<and> (\<forall>h \<in> set (growth_releases k a). \<exists>a. h = HeapRelease DeleteArray a)" for k a
    by (induction k arbitrary: a) auto
  have "\<exists>d' k. darray_run d ops = Inr (fst (list_run xs ops), d') \<and> darray_rel d' (snd (list_run xs ops)) \<and> array_grown k d d'"
    using assms
  proof (induction ops arbitrary: d xs)
    case Nil
    then show ?case using array_grown_refl by auto
  next
    case (Cons op ops)
    let ?xs = "snd (list_do xs op)"
    from darray_do_simulates [of d xs op] Cons.prems obtain d1 where
      d1: "darray_do d op = Inr (fst (list_do xs op), d1)" "darray_rel d1 ?xs" by auto
    from do_grown [OF Cons.prems(1) _ d1(1)] Cons.prems(3) obtain k where k: "array_grown k d d1" by auto
    have "length ?xs + length ops \<le> 2 ^ 58" using list_do_length [of xs op] Cons.prems(3) by simp
    with Cons.IH [OF d1(2)] Cons.prems(2) obtain d' k' where
      "darray_run d1 ops = Inr (fst (list_run ?xs ops), d')" "darray_rel d' (snd (list_run ?xs ops))" "array_grown k' d1 d'" by auto
    with d1(1) array_grown_trans [OF k] show ?case by (auto simp: split_beta Let_def)
  qed
  then show ?thesis using log growth_mismatches by (fastforce simp: array_grown_def DArray_Capacity_def)
qed

theorem DArray_refines_list_witness:
  "\<exists>d' k. darray_run (DArray_ctor 1) [PushOp (Fin 1), PushOp (Fin 2), AtOp 5, SetOp 0 (Fin 7), PopOp, PopOp, PopOp] =
     Inr ([Done, Done, Thrown ''out of range'', Done, Value (Fin 2), Value (Fin 7), Thrown ''DArray is empty''], d') \<and>
     unat (DArray_Capacity d') = 2 ^ k * unat (DArray_Capacity (DArray_ctor 1))"
proof -
  have "darray_rel (DArray_ctor 1) []" using DArray_ctor_ok [of 1] by (simp add: darray_rel_def)
  from DArray_refines_list [OF this, of "[PushOp (Fin 1), PushOp (Fin 2), AtOp 5, SetOp 0 (Fin 7), PopOp, PopOp, PopOp]"]
  show ?thesis by (auto simp: in_int_range_def)
qed

end
