(* ===== verification/LinkedList_Programs.thy ===== *)
theory LinkedList_Programs
  imports LinkedList
begin

text \<open>
  Whole programs over a \<open>LinkedList\<close>, in which a client finds nodes by \<open>Search\<close> and hands them to \<open>InsertAfter\<close> and
  \<open>DeteleAt\<close>, against the same programs on a list of values. The programs are those that avoid the two known defects of the class
  (\<open>head_\<close> and \<open>tail_\<close> are not updated): nothing is inserted behind the last node, and neither the first nor the last node
  is removed. For these the doubly linked chain stays well formed.
\<close>

section \<open>Operations and their results\<close>

datatype ll_op = PushL int | InsertL int int | RemoveL int | ShowL

datatype ll_result = Pushed | Inserted bool | Removed bool | ShownL "cout list"

text \<open>\<open>InsertL v x\<close> is \<open>InsertAfter(Search(v), x)\<close>, \<open>RemoveL v\<close> is \<open>DeteleAt(Search(v))\<close>.\<close>

fun ll_do :: "store \<times> linked_list \<Rightarrow> ll_op \<Rightarrow> (cpp_error + ll_result \<times> store \<times> linked_list) option" where
  "ll_do (h, l) (PushL v) = Some (bindE (LinkedList_PushBack h l v) (\<lambda>s. Inr (Pushed, s)))"
| "ll_do (h, l) (InsertL v x) =
     map_option (\<lambda>r. bindE r (\<lambda>p.
       bindE (LinkedList_InsertAfter h p x) (\<lambda>(q, h'). Inr (Inserted (q \<noteq> None), h', l)))) (LinkedList_Search h l v)"
| "ll_do (h, l) (RemoveL v) =
     map_option (\<lambda>r. bindE r (\<lambda>p.
       bindE (LinkedList_DeteleAt h p) (\<lambda>(b, h'). Inr (Removed b, h', l)))) (LinkedList_Search h l v)"
| "ll_do (h, l) ShowL = map_option (\<lambda>r. bindE r (\<lambda>out. Inr (ShownL out, h, l))) (LinkedList_Display h l)"

text \<open>\<open>None\<close> is a program that does not end.\<close>

fun ll_run :: "store \<times> linked_list \<Rightarrow> ll_op list \<Rightarrow> (cpp_error + ll_result list \<times> store \<times> linked_list) option" where
  "ll_run s [] = Some (Inr ([], s))"
| "ll_run s (op # ops) =
     (case ll_do s op of
        None \<Rightarrow> None
      | Some (Inl e) \<Rightarrow> Some (Inl e)
      | Some (Inr (r, s')) \<Rightarrow> map_option (\<lambda>t. bindE t (\<lambda>(rs, s''). Inr (r # rs, s''))) (ll_run s' ops))"

section \<open>The specification\<close>

fun insert_behind :: "int \<Rightarrow> int \<Rightarrow> int list \<Rightarrow> int list" where
  "insert_behind v x [] = []"
| "insert_behind v x (y # ys) = (if y = v then y # x # ys else y # insert_behind v x ys)"

fun vals_do :: "int list \<Rightarrow> ll_op \<Rightarrow> ll_result \<times> int list" where
  "vals_do xs (PushL v) = (Pushed, xs @ [v])"
| "vals_do xs (InsertL v x) = (Inserted (v \<in> set xs), insert_behind v x xs)"
| "vals_do xs (RemoveL v) = (Removed (v \<in> set xs), remove1 v xs)"
| "vals_do xs ShowL = (ShownL (concat (map (\<lambda>x. [CInt x, CStr tab]) xs) @ [CEndl]), xs)"

fun vals_run :: "int list \<Rightarrow> ll_op list \<Rightarrow> ll_result list \<times> int list" where
  "vals_run xs [] = ([], xs)"
| "vals_run xs (op # ops) = (let (r, xs') = vals_do xs op; (rs, xs'') = vals_run xs' ops in (r # rs, xs''))"

fun ll_allowed :: "int list \<Rightarrow> ll_op \<Rightarrow> bool" where
  "ll_allowed xs (InsertL v x) \<longleftrightarrow> v \<in> set xs \<longrightarrow> v \<in> set (butlast xs)"
| "ll_allowed xs (RemoveL v) \<longleftrightarrow> v \<in> set xs \<longrightarrow> hd xs \<noteq> v \<and> v \<in> set (butlast xs)"
| "ll_allowed xs _ \<longleftrightarrow> True"

fun lls_allowed :: "int list \<Rightarrow> ll_op list \<Rightarrow> bool" where
  "lls_allowed xs [] \<longleftrightarrow> True"
| "lls_allowed xs (op # ops) \<longleftrightarrow> ll_allowed xs op \<and> lls_allowed (snd (vals_do xs op)) ops"

section \<open>Simulation\<close>

definition ll_rel :: "store \<times> linked_list \<Rightarrow> int list \<Rightarrow> bool" where
  "ll_rel s xs \<longleftrightarrow> (\<exists>as. list_ok (fst s) (snd s) as \<and> vals (fst s) as = xs)"

text \<open>Where \<open>Search\<close> finds a value.\<close>

lemma first_with_split:
  "v \<in> set (vals h as) \<Longrightarrow>
   \<exists>bs a cs. as = bs @ a # cs \<and> first_with h v as = Some a \<and> v \<notin> set (vals h bs) \<and> nd_data (the (cell h a)) = v"
proof (induction as)
  case (Cons b as)
  show ?case
  proof (cases "nd_data (the (cell h b)) = v")
    case True
    then show ?thesis by (intro exI [of _ "[]"] exI [of _ b] exI [of _ as]) simp
  next
    case False
    with Cons obtain bs a cs where "as = bs @ a # cs" "first_with h v as = Some a" "v \<notin> set (vals h bs)"
      "nd_data (the (cell h a)) = v" by auto
    with False show ?thesis by (intro exI [of _ "b # bs"] exI [of _ a] exI [of _ cs]) simp
  qed
qed simp

lemma first_with_None: "v \<notin> set (vals h as) \<Longrightarrow> first_with h v as = None"
  by (induction as) auto

lemma search_ok: "list_ok h l as \<Longrightarrow> LinkedList_Search h l v = Some (Inr (first_with h v as))"
  by (auto simp: LinkedList_Search_def list_ok_def intro: Search_loop_chain)

lemma insert_behind_split: "v \<notin> set xs \<Longrightarrow> insert_behind v x (xs @ v # ys) = xs @ v # x # ys"
  by (induction xs) auto

lemma insert_behind_absent: "v \<notin> set xs \<Longrightarrow> insert_behind v x xs = xs"
  by (induction xs) auto

lemma insert_simulates:
  assumes "list_ok h l as" "vals h as = xs" "ll_allowed xs (InsertL v x)"
  shows "\<exists>s'. ll_do (h, l) (InsertL v x) = Some (Inr (Inserted (v \<in> set xs), s')) \<and> ll_rel s' (insert_behind v x xs)"
proof (cases "v \<in> set xs")
  case False
  with assms show ?thesis
    by (auto simp: search_ok first_with_None LinkedList_InsertAfter_def ll_rel_def insert_behind_absent)
next
  case True
  with first_with_split [of v h as] assms(2) obtain bs a cs where s: "as = bs @ a # cs" "first_with h v as = Some a"
    "v \<notin> set (vals h bs)" "nd_data (the (cell h a)) = v" by auto
  with True assms(2,3) have "cs \<noteq> []" by (auto simp: butlast_append split: if_splits)
  have c: "chain h None (ll_head l) (bs @ a # cs) None" "distinct (bs @ a # cs)" "ll_tail l = last_ptr (bs @ a # cs)"
    using assms(1) s(1) by (simp_all add: list_ok_def)
  from InsertAfter_chain [OF c(1,2), of x] obtain h' where
    h': "LinkedList_InsertAfter h (Some a) x = Inr (Some (length h), h')"
    "chain h' None (ll_head l) (bs @ a # length h # cs) None"
    "vals h' (bs @ a # length h # cs) = vals h (bs @ [a]) @ x # vals h cs" by blast
  have "length h \<notin> set (bs @ a # cs)" using chain_live [OF c(1)] by blast
  with c h'(2) \<open>cs \<noteq> []\<close> have "list_ok h' l (bs @ a # length h # cs)" by (auto simp: list_ok_def last_ptr_def)
  moreover have "insert_behind v x xs = vals h' (bs @ a # length h # cs)"
    using assms(2) s insert_behind_split [OF s(3)] h'(3) by auto
  ultimately show ?thesis using True h'(1) s(2) by (auto simp: search_ok [OF assms(1)] ll_rel_def)
qed

lemma remove_simulates:
  assumes "list_ok h l as" "vals h as = xs" "ll_allowed xs (RemoveL v)"
  shows "\<exists>s'. ll_do (h, l) (RemoveL v) = Some (Inr (Removed (v \<in> set xs), s')) \<and> ll_rel s' (remove1 v xs)"
proof (cases "v \<in> set xs")
  case False
  with assms show ?thesis
    by (auto simp: search_ok first_with_None LinkedList_DeteleAt_def ll_rel_def remove1_idem)
next
  case True
  with first_with_split [of v h as] assms(2) obtain bs a cs where s: "as = bs @ a # cs" "first_with h v as = Some a"
    "v \<notin> set (vals h bs)" "nd_data (the (cell h a)) = v" by auto
  with True assms(2,3) have "cs \<noteq> []" "bs \<noteq> []" by (auto simp: butlast_append split: if_splits)
  then obtain ds d where bs: "bs = ds @ [d]" by (metis rev_exhaust)
  have c: "chain h None (ll_head l) (ds @ [d] @ a # cs) None" "distinct (ds @ [d] @ a # cs)"
    "ll_tail l = last_ptr (ds @ [d] @ a # cs)" using assms(1) s(1) bs by (simp_all add: list_ok_def)
  from DeteleAt_chain [OF c(1,2)] obtain h' where h': "LinkedList_DeteleAt h (Some a) = Inr (True, h')"
    "chain h' None (ll_head l) (ds @ [d] @ cs) None" "vals h' (ds @ [d] @ cs) = vals h (ds @ [d] @ cs)" by blast
  with c \<open>cs \<noteq> []\<close> have "list_ok h' l (ds @ [d] @ cs)" by (auto simp: list_ok_def last_ptr_def)
  moreover have "remove1 v xs = vals h' (ds @ [d] @ cs)"
    using assms(2) s bs h'(3) by (auto simp: remove1_append)
  ultimately show ?thesis using True h'(1) s(2) by (auto simp: search_ok [OF assms(1)] ll_rel_def)
qed

text \<open>One operation: the chain of nodes does what the list does.\<close>

lemma ll_do_simulates:
  assumes "ll_rel s xs" "ll_allowed xs op"
  shows "\<exists>s'. ll_do s op = Some (Inr (fst (vals_do xs op), s')) \<and> ll_rel s' (snd (vals_do xs op))"
proof -
  obtain h l as where s: "s = (h, l)" "list_ok h l as" "vals h as = xs"
    using assms(1) by (cases s) (auto simp: ll_rel_def)
  show ?thesis
  proof (cases op)
    case (PushL v)
    from PushBack_ok [OF s(2), of v] s(3) obtain h' l' where "LinkedList_PushBack h l v = Inr (h', l')"
      "ll_rel (h', l') (xs @ [v])" by (fastforce simp: ll_rel_def)
    with PushL s(1) show ?thesis by simp
  next
    case (InsertL v x)
    with insert_simulates [OF s(2,3)] assms(2) s(1) show ?thesis by simp
  next
    case (RemoveL v)
    with remove_simulates [OF s(2,3)] assms(2) s(1) show ?thesis by simp
  next
    case ShowL
    with Display_chain [of h l as] s show ?thesis by (auto simp: ll_rel_def shown_def list_ok_def)
  qed
qed

section \<open>Properties\<close>

text \<open>
  C21: the shape of a \<open>LinkedList\<close> is an invariant of every program of \<open>PushBack\<close>, \<open>InsertAfter(Search)\<close>,
  \<open>DeteleAt(Search)\<close> and \<open>Display\<close> that does not insert behind the last node and does not remove the first or the
  last one: the nodes stay a doubly linked chain of distinct live nodes from \<open>head_\<close> to \<open>tail_\<close>. Such a program always
  ends, follows no null or dangling pointer, and its results are those of the same program on the
  list of values.
\<close>

theorem LinkedList_refines_list:
  assumes "ll_rel s xs" and "lls_allowed xs ops"
  shows "\<exists>s'. ll_run s ops = Some (Inr (fst (vals_run xs ops), s')) \<and> ll_rel s' (snd (vals_run xs ops))"
  using assms
proof (induction ops arbitrary: s xs)
  case (Cons op ops)
  from ll_do_simulates [of s xs op] Cons.prems obtain s1 where
    s1: "ll_do s op = Some (Inr (fst (vals_do xs op), s1))" "ll_rel s1 (snd (vals_do xs op))" by auto
  with Cons.IH [OF s1(2)] Cons.prems(2) show ?case by (auto simp: split_beta Let_def)
qed simp

theorem LinkedList_refines_list_witness:
  "\<exists>s'. ll_run ([], LinkedList_ctor) [PushL 1, PushL 2, PushL 3, InsertL 2 7, RemoveL 2, RemoveL 9, ShowL] =
     Some (Inr ([Pushed, Pushed, Pushed, Inserted True, Removed True, Removed False,
       ShownL [CInt 1, CStr tab, CInt 7, CStr tab, CInt 3, CStr tab, CEndl]], s'))"
proof -
  have "ll_rel ([], LinkedList_ctor) []"
    by (auto simp: ll_rel_def list_ok_def LinkedList_ctor_def last_ptr_def intro!: exI [of _ "[]"])
  from LinkedList_refines_list [OF this, of "[PushL 1, PushL 2, PushL 3, InsertL 2 7, RemoveL 2, RemoveL 9, ShowL]"]
  show ?thesis by auto
qed

end
