(* ===== verification/Class_Rules.thy ===== *)
theory Class_Rules
  imports Patterns
begin

text \<open>
  Examples about classes that the compiler decides, in whole or in part: virtual functions and abstract
  classes (\<open>026_1_pure_virt_func_call.cpp\<close>, \<open>031_bridge.cpp\<close>, the visitors of \<open>034_visitor.cpp\<close> and the interfaces of
  \<open>tests_gmock.cpp\<close>). The classes of a translation unit are a list of declarations, the last one first; a base is declared
  before it is used, so that everything about a class is found by recursion on the list. A program that
  the compiler refuses is \<open>Rejected\<close>; the others run in the programs of \<open>Cpp_Prog\<close>.
\<close>

section \<open>Classes\<close>

datatype vbody = Pure | Body "string \<Rightarrow> unit prog"

text \<open>
  A class: its base, its data members, its virtual functions, the virtual functions that its constructor calls, and
  the members that its functions name.
\<close>

record class_decl =
  cd_base :: "string option"
  cd_members :: "string list"
  cd_virtuals :: "(string \<times> vbody) list"
  cd_ctor :: "string list"
  cd_uses :: "string list"

type_synonym classes = "(string \<times> class_decl) list"

datatype 'a compiled = Rejected string | Compiled 'a

text \<open>The final overrider of a virtual function in a class: the class that declares it, and its body.\<close>

fun overrider :: "classes \<Rightarrow> string \<Rightarrow> string \<Rightarrow> (string \<times> vbody) option" where
  "overrider [] c f = None"
| "overrider ((d, decl) # P) c f =
     (if d \<noteq> c then overrider P c f
      else case map_of (cd_virtuals decl) f of
        Some b \<Rightarrow> Some (d, b)
      | None \<Rightarrow> (case cd_base decl of None \<Rightarrow> None | Some b \<Rightarrow> overrider P b f))"

text \<open>A class and its bases, in the order in which their constructors run.\<close>

fun chain :: "classes \<Rightarrow> string \<Rightarrow> (string \<times> class_decl) list" where
  "chain [] c = []"
| "chain ((d, decl) # P) c =
     (if d \<noteq> c then chain P c
      else (case cd_base decl of None \<Rightarrow> [] | Some b \<Rightarrow> chain P b) @ [(d, decl)])"

definition virtuals :: "classes \<Rightarrow> string \<Rightarrow> string list" where
  "virtuals P c = concat (map (\<lambda>(d, decl). map fst (cd_virtuals decl)) (chain P c))"

definition has_member :: "classes \<Rightarrow> string \<Rightarrow> string \<Rightarrow> bool" where
  "has_member P c x \<longleftrightarrow> (\<exists>(d, decl) \<in> set (chain P c). x \<in> set (cd_members decl))"

definition is_pure :: "(string \<times> vbody) option \<Rightarrow> bool" where
  "is_pure r = (case r of Some (_, Pure) \<Rightarrow> True | _ \<Rightarrow> False)"

definition is_abstract :: "classes \<Rightarrow> string \<Rightarrow> bool" where
  "is_abstract P c = list_ex (\<lambda>f. is_pure (overrider P c f)) (virtuals P c)"

text \<open>
  What the compiler checks of a translation unit: bases are declared, and the names in the functions and constructors of a
  class are found in it or in its bases.
\<close>

fun unit_ok :: "classes \<Rightarrow> bool" where
  "unit_ok [] \<longleftrightarrow> True"
| "unit_ok ((c, decl) # P) \<longleftrightarrow>
     unit_ok P \<and> c \<notin> fst ` set P \<and> (case cd_base decl of None \<Rightarrow> True | Some b \<Rightarrow> b \<in> fst ` set P) \<and>
     list_all (\<lambda>f. f \<in> set (virtuals ((c, decl) # P) c)) (cd_ctor decl) \<and>
     list_all (has_member ((c, decl) # P) c) (cd_uses decl)"

text \<open>A call of \<open>f\<close> on an object whose dynamic type is \<open>dyn\<close>.\<close>

definition call_virtual :: "classes \<Rightarrow> string \<Rightarrow> string \<Rightarrow> string \<Rightarrow> unit prog" where
  "call_virtual P dyn f arg =
     (case overrider P dyn f of
        None \<Rightarrow> failP (Abort f)
      | Some (_, Pure) \<Rightarrow> failP (Undefined PureVirtualCall)
      | Some (_, Body b) \<Rightarrow> b arg)"

text \<open>
  The constructors of an object of class \<open>c\<close>: bases first, and while the constructor of \<open>d\<close> runs the dynamic
  type of the object is \<open>d\<close>.
\<close>

definition ctor_calls :: "classes \<Rightarrow> string \<Rightarrow> (string \<times> string) list" where
  "ctor_calls P c = concat (map (\<lambda>(d, decl). map (Pair d) (cd_ctor decl)) (chain P c))"

definition construct :: "classes \<Rightarrow> string \<Rightarrow> unit prog" where
  "construct P c = seqP (map (\<lambda>(d, f). call_virtual P d f []) (ctor_calls P c))"

definition new_object :: "classes \<Rightarrow> string \<Rightarrow> unit prog compiled" where
  "new_object P c = (if is_abstract P c then Rejected c else Compiled (construct P c))"

section \<open>026\_1\_pure\_virt\_func\_call.cpp\<close>

text \<open>\<open>AA\<close>, \<open>BB\<close> and \<open>CC\<close>; \<open>test\<close> returns a new object, of which the callers here keep nothing.\<close>

definition class_AA :: class_decl where
  "class_AA = \<lparr>cd_base = None, cd_members = [],
     cd_virtuals = [(''bar'', Pure),
       (''test'', Body (\<lambda>_. thenP (println ''test - A'') (bindP (alloc NewObject 1) (\<lambda>_. returnP ()))))],
     cd_ctor = [], cd_uses = []\<rparr>"

definition class_BB :: class_decl where
  "class_BB = \<lparr>cd_base = Some ''AA'', cd_members = [],
     cd_virtuals = [(''foo'', Body (\<lambda>_. println ''BB'')), (''bar'', Body (\<lambda>_. println ''bar'')),
       (''test'', Body (\<lambda>_. thenP (println ''test - B'') (bindP (alloc NewObject 1) (\<lambda>_. returnP ()))))],
     cd_ctor = [''bar''], cd_uses = []\<rparr>"

definition class_CC :: class_decl where
  "class_CC = \<lparr>cd_base = Some ''BB'', cd_members = [], cd_virtuals = [(''foo'', Body (\<lambda>_. println ''CC''))], cd_ctor = [], cd_uses = []\<rparr>"

definition classes_026_1 :: classes where
  "classes_026_1 = [(''CC'', class_CC), (''BB'', class_BB), (''AA'', class_AA)]"

definition main_026_1 :: "int prog" where
  "main_026_1 = returnP 0"

section \<open>031\_bridge.cpp\<close>

text \<open>
  The classes of the bridge. What the implementations leave out and what \<open>FileLogger\<close> lacks are arguments, empty in the
  source, so that it can be said what would complete the program.
\<close>

definition class_LoggerImpl :: class_decl where
  "class_LoggerImpl = \<lparr>cd_base = None, cd_members = [],
     cd_virtuals = [(''console_log'', Pure), (''file_log'', Pure), (''socket_log'', Pure)], cd_ctor = [], cd_uses = []\<rparr>"

definition class_ST_LoggerImpl :: class_decl where
  "class_ST_LoggerImpl = \<lparr>cd_base = Some ''LoggerImpl'', cd_members = [],
     cd_virtuals = [(''console_log'', Body (\<lambda>str. print [CStr ''ST == '', CStr str])), (''file_log'', Body (\<lambda>str. returnP ()))],
     cd_ctor = [], cd_uses = []\<rparr>"

definition class_MT_LoggerImpl :: "(string \<times> vbody) list \<Rightarrow> class_decl" where
  "class_MT_LoggerImpl extra = \<lparr>cd_base = Some ''LoggerImpl'', cd_members = [],
     cd_virtuals = (''console_log'', Body (\<lambda>str. print [CStr ''MT == '', CStr str])) # extra, cd_ctor = [], cd_uses = []\<rparr>"

definition impls_031 :: "(string \<times> vbody) list \<Rightarrow> classes" where
  "impls_031 extra = [(''MT_LoggerImpl'', class_MT_LoggerImpl extra), (''ST_LoggerImpl'', class_ST_LoggerImpl),
     (''LoggerImpl'', class_LoggerImpl)]"

definition class_Logger :: class_decl where
  "class_Logger = \<lparr>cd_base = None, cd_members = [''pimpl''], cd_virtuals = [(''log'', Pure)], cd_ctor = [], cd_uses = []\<rparr>"

text \<open>\<open>MT\<close> is defined: the constructor of \<open>ConsoleLogger\<close> makes an \<open>MT_LoggerImpl\<close>.\<close>

definition console_impl :: string where
  "console_impl = ''MT_LoggerImpl''"

definition class_ConsoleLogger :: "classes \<Rightarrow> class_decl" where
  "class_ConsoleLogger impls = \<lparr>cd_base = Some ''Logger'', cd_members = [],
     cd_virtuals = [(''log'', Body (call_virtual impls console_impl ''console_log''))], cd_ctor = [], cd_uses = [''pimpl'']\<rparr>"

definition class_FileLogger :: "string list \<Rightarrow> class_decl" where
  "class_FileLogger members = \<lparr>cd_base = None, cd_members = members, cd_virtuals = [], cd_ctor = [], cd_uses = [''pimpl'']\<rparr>"

definition classes_031 :: "(string \<times> vbody) list \<Rightarrow> string list \<Rightarrow> classes" where
  "classes_031 extra members =
     [(''FileLogger'', class_FileLogger members), (''ConsoleLogger'', class_ConsoleLogger (impls_031 extra)),
      (''Logger'', class_Logger)] @ impls_031 extra"

definition main_031 :: "classes \<Rightarrow> unit prog compiled" where
  "main_031 P =
     (if \<not> unit_ok P then Rejected ''name''
      else case new_object P console_impl of
        Rejected e \<Rightarrow> Rejected e
      | Compiled impl \<Rightarrow>
          (case new_object P ''ConsoleLogger'' of
             Rejected e \<Rightarrow> Rejected e
           | Compiled logger \<Rightarrow>
               Compiled (thenP impl (thenP logger (call_virtual P ''ConsoleLogger'' ''log'' ''some message'')))))"

section \<open>034\_visitor.cpp and the interfaces of tests\_gmock.cpp\<close>

definition class_Building :: class_decl where
  "class_Building = \<lparr>cd_base = None, cd_members = [], cd_virtuals = [(''accept'', Pure)], cd_ctor = [], cd_uses = []\<rparr>"

fun overload :: "string \<Rightarrow> building \<Rightarrow> string" where
  "overload f City = f @ ''(City)''"
| "overload f Industry = f @ ''(Industry)''"
| "overload f House = f @ ''(House)''"

definition class_Visitor :: class_decl where
  "class_Visitor = \<lparr>cd_base = None, cd_members = [],
     cd_virtuals = map (\<lambda>b. (overload ''visit'' b, Pure)) [City, Industry, House] @
       map (\<lambda>b. (overload ''visit2'' b, Pure)) [City, Industry, House], cd_ctor = [], cd_uses = []\<rparr>"

text \<open>\<open>ExportVisitor\<close> declares three functions that are not virtual, and overrides nothing.\<close>

definition class_ExportVisitor :: class_decl where
  "class_ExportVisitor = \<lparr>cd_base = Some ''Visitor'', cd_members = [], cd_virtuals = [], cd_ctor = [], cd_uses = []\<rparr>"

definition class_BuildingVisitor :: class_decl where
  "class_BuildingVisitor = \<lparr>cd_base = Some ''Visitor'', cd_members = [],
     cd_virtuals = map (\<lambda>b. (overload ''visit'' b, Body (\<lambda>_. BuildingVisitor_visit b))) [City, Industry, House] @
       map (\<lambda>b. (overload ''visit2'' b, Body (\<lambda>_. BuildingVisitor_visit2 b))) [City, Industry, House],
     cd_ctor = [], cd_uses = []\<rparr>"

definition visitors_034 :: classes where
  "visitors_034 = [(''BuildingVisitor'', class_BuildingVisitor), (''ExportVisitor'', class_ExportVisitor),
     (''Visitor'', class_Visitor)]"

text \<open>\<open>City::accept\<close>, \<open>Industry::accept\<close> and \<open>House::accept\<close>, with the dynamic type of the visitor.\<close>

definition class_of_building :: "string \<Rightarrow> building \<Rightarrow> class_decl" where
  "class_of_building visitor b = \<lparr>cd_base = Some ''Building'', cd_members = [],
     cd_virtuals = [(''accept'', Body (\<lambda>_. thenP (call_virtual visitors_034 visitor (overload ''visit'' b) [])
       (call_virtual visitors_034 visitor (overload ''visit2'' b) [])))], cd_ctor = [], cd_uses = []\<rparr>"

definition buildings_034 :: "string \<Rightarrow> classes" where
  "buildings_034 visitor = [(''House'', class_of_building visitor House), (''Industry'', class_of_building visitor Industry),
     (''City'', class_of_building visitor City), (''Building'', class_Building)]"

fun building_name :: "building \<Rightarrow> string" where
  "building_name City = ''City''"
| "building_name Industry = ''Industry''"
| "building_name House = ''House''"

text \<open>\<open>ExportVisitor2\<close>: its overloads are chosen by the static type of the argument.\<close>

datatype static_type = StaticBuilding | StaticCity

fun ExportVisitor2_doForBuilding :: "static_type \<Rightarrow> unit prog" where
  "ExportVisitor2_doForBuilding StaticBuilding = print [CStr (''Building*'' @ lf)]"
| "ExportVisitor2_doForBuilding StaticCity = print [CStr (''City*'' @ lf)]"

definition ExportVisitor2_doForIndustry :: "unit prog" where
  "ExportVisitor2_doForIndustry = print [CStr (''Industry*'' @ lf)]"

definition ExportVisitor2_doForHouse :: "unit prog" where
  "ExportVisitor2_doForHouse = print [CStr (''House*'' @ lf)]"

text \<open>
  The interfaces of the tests. What a mock does when it is called is not code of the repository; the results of
  the functions are left out here (\<open>File_Open\<close> of \<open>Containers_Main\<close> has that of \<open>File::Open\<close>, which prints nothing).
\<close>

definition class_Turtle :: class_decl where
  "class_Turtle = \<lparr>cd_base = None, cd_members = [], cd_virtuals = [(''PenDown'', Pure)], cd_ctor = [], cd_uses = []\<rparr>"

definition class_MockTurtle :: "unit prog \<Rightarrow> class_decl" where
  "class_MockTurtle mock = \<lparr>cd_base = Some ''Turtle'', cd_members = [], cd_virtuals = [(''PenDown'', Body (\<lambda>_. mock))],
     cd_ctor = [], cd_uses = []\<rparr>"

definition class_FileInterface :: class_decl where
  "class_FileInterface = \<lparr>cd_base = None, cd_members = [], cd_virtuals = [(''Open'', Pure)], cd_ctor = [], cd_uses = []\<rparr>"

definition class_File :: class_decl where
  "class_File = \<lparr>cd_base = Some ''FileInterface'', cd_members = [], cd_virtuals = [(''Open'', Body (\<lambda>_. returnP ()))],
     cd_ctor = [], cd_uses = []\<rparr>"

definition class_MockFI :: "unit prog \<Rightarrow> class_decl" where
  "class_MockFI mock = \<lparr>cd_base = Some ''FileInterface'', cd_members = [], cd_virtuals = [(''Open'', Body (\<lambda>_. mock))],
     cd_ctor = [], cd_uses = []\<rparr>"

definition classes_gmock :: "unit prog \<Rightarrow> unit prog \<Rightarrow> classes" where
  "classes_gmock mock_PenDown mock_Open =
     [(''MockFI'', class_MockFI mock_Open), (''File'', class_File), (''FileInterface'', class_FileInterface),
      (''MockTurtle'', class_MockTurtle mock_PenDown), (''Turtle'', class_Turtle)]"

section \<open>Dispatch\<close>

text \<open>A recursion that looks at a class before its bases finds the last declaration in the chain.\<close>

lemma overrider_chain:
  "overrider P c f =
     (case find (\<lambda>(d, decl). map_of (cd_virtuals decl) f \<noteq> None) (rev (chain P c)) of
        None \<Rightarrow> None
      | Some (d, decl) \<Rightarrow> map_option (Pair d) (map_of (cd_virtuals decl) f))"
  by (induction P c f rule: overrider.induct) (auto split: option.split)

lemma overrider_declared:
  "overrider P c f = Some (d, b) \<Longrightarrow> \<exists>decl. (d, decl) \<in> set (chain P c) \<and> map_of (cd_virtuals decl) f = Some b"
  by (induction P c f rule: overrider.induct) (auto split: if_splits option.splits)

lemma overrider_virtual: "overrider P c f \<noteq> None \<longleftrightarrow> f \<in> set (virtuals P c)"
proof (induction P c f rule: overrider.induct)
  case (2 d decl P c f)
  have "map_of (cd_virtuals decl) f = None \<longleftrightarrow> f \<notin> fst ` set (cd_virtuals decl)" by (rule map_of_eq_None_iff)
  with 2 show ?case
    by (cases "cd_base decl"; cases "map_of (cd_virtuals decl) f") (auto simp: virtuals_def)
qed (simp add: virtuals_def)

text \<open>An object can only be made of a class in which every virtual function has a body.\<close>

lemma concrete_dispatch:
  assumes "\<not> is_abstract P c" "f \<in> set (virtuals P c)"
  shows "\<exists>d decl b. (d, decl) \<in> set (chain P c) \<and> map_of (cd_virtuals decl) f = Some (Body b) \<and> call_virtual P c f = b"
proof -
  obtain d b where o: "overrider P c f = Some (d, b)" using assms(2) overrider_virtual [of P c f] by auto
  moreover have "b \<noteq> Pure" using assms o by (auto simp: is_abstract_def list_ex_iff is_pure_def)
  moreover from calculation obtain m where "b = Body m" by (cases b) auto
  moreover from calculation have "call_virtual P c f = m" by (simp add: call_virtual_def fun_eq_iff)
  ultimately show ?thesis using overrider_declared [OF o] by blast
qed

text \<open>The constructors of the bases are those of the object.\<close>

lemma chain_declared: "(d, decl) \<in> set (chain P c) \<Longrightarrow> (d, decl) \<in> set P"
proof (induction P c rule: chain.induct)
  case (2 e decl' P c)
  then show ?case by (cases "cd_base decl'") (auto split: if_splits)
qed simp

lemma ctor_calls_known:
  assumes "unit_ok P" "(d, f) \<in> set (ctor_calls P c)"
  shows "overrider P d f \<noteq> None"
proof -
  from assms(2) obtain decl where d: "(d, decl) \<in> set P" "f \<in> set (cd_ctor decl)"
    by (auto simp: ctor_calls_def dest: chain_declared)
  from assms(1) d(1) have "\<exists>Q R. P = Q @ (d, decl) # R \<and> d \<notin> fst ` set Q \<and> unit_ok ((d, decl) # R)"
  proof (induction P rule: unit_ok.induct)
    case (2 e decl' P)
    show ?case
    proof (cases "(e, decl') = (d, decl)")
      case True
      with 2 show ?thesis by (intro exI [of _ "[]"] exI [of _ P]) simp
    next
      case False
      with 2 obtain Q R where "P = Q @ (d, decl) # R" "d \<notin> fst ` set Q" "unit_ok ((d, decl) # R)" by auto
      moreover from False 2(2,3) have "e \<noteq> d" by force
      ultimately show ?thesis by (intro exI [of _ "(e, decl') # Q"] exI [of _ R]) auto
    qed
  qed simp
  then obtain Q R where P: "P = Q @ (d, decl) # R" "d \<notin> fst ` set Q" "unit_ok ((d, decl) # R)" by blast
  have "overrider (Q @ (d, decl) # R) d f = overrider ((d, decl) # R) d f" using P(2) by (induction Q) auto
  moreover have "f \<in> set (virtuals ((d, decl) # R) d)" using P(3) d(2) by (simp add: list_all_iff)
  ultimately show ?thesis using P(1) overrider_virtual by metis
qed

lemma seqP_ok_iff:
  assumes "\<forall>m \<in> set ms. (\<forall>w. fst (m w) = Inr ()) \<or> (\<forall>w. fst (m w) = Inl e)"
  shows "fst (seqP ms w) = (if \<forall>m \<in> set ms. \<forall>w. fst (m w) = Inr () then Inr () else Inl e)"
  using assms
proof (induction ms arbitrary: w)
  case (Cons m ms)
  then have IH: "fst (seqP ms w) = (if \<forall>m \<in> set ms. \<forall>w. fst (m w) = Inr () then Inr () else Inl e)" for w by simp
  consider "\<forall>w. fst (m w) = Inr ()" | "\<forall>w. fst (m w) = Inl e" "\<not> (\<forall>w. fst (m w) = Inr ())"
    using Cons.prems by force
  then show ?case
  proof cases
    case 1
    then obtain w' where "m w = (Inr (), w')" by (metis prod.collapse)
    with IH 1 show ?thesis by (auto simp: thenP_def bindP_def)
  next
    case 2
    then obtain w' where "m w = (Inl e, w')" by (metis prod.collapse)
    with 2 show ?thesis by (auto simp: thenP_def bindP_def)
  qed
qed (simp add: returnP_def)

section \<open>Properties\<close>

text \<open>
  The rule behind \<open>026_1\<close>: when the functions that have a body run through, an object of class \<open>c\<close> is constructed
  exactly when no constructor of the class and of its bases calls a function that is still pure in the class of this
  constructor, whatever the derived classes make of it; otherwise a pure virtual function is called.
\<close>

theorem construct_pure_call:
  assumes "unit_ok P"
    and "\<forall>(d, f) \<in> set (ctor_calls P c). \<forall>e b w. overrider P d f = Some (e, Body b) \<longrightarrow> fst (b [] w) = Inr ()"
  shows "fst (construct P c w) =
    (if \<forall>(d, f) \<in> set (ctor_calls P c). \<not> is_pure (overrider P d f) then Inr () else Inl (Undefined PureVirtualCall))"
proof -
  have call: "(if is_pure (overrider P d f) then \<forall>w. fst (call_virtual P d f [] w) = Inl (Undefined PureVirtualCall)
      else \<forall>w. fst (call_virtual P d f [] w) = Inr ())" if "(d, f) \<in> set (ctor_calls P c)" for d f
    using ctor_calls_known [OF assms(1) that] assms(2) that
    by (auto simp: call_virtual_def is_pure_def failP_def split: option.splits vbody.splits)
  have "(\<forall>m \<in> set (map (\<lambda>(d, f). call_virtual P d f []) (ctor_calls P c)). \<forall>w. fst (m w) = Inr ()) \<longleftrightarrow>
    (\<forall>(d, f) \<in> set (ctor_calls P c). \<not> is_pure (overrider P d f))"
    using call by (fastforce split: if_splits)
  with seqP_ok_iff [of "map (\<lambda>(d, f). call_virtual P d f []) (ctor_calls P c)" "Undefined PureVirtualCall" w] call
  show ?thesis unfolding construct_def by (fastforce split: if_splits)
qed

lemmas class_defs = classes_026_1_def class_AA_def class_BB_def class_CC_def

theorem construct_pure_call_witness:
  "fst (construct classes_026_1 ''CC'' start) = Inr ()"
  using construct_pure_call [of classes_026_1 "''CC''" start]
  by (simp add: class_defs ctor_calls_def is_pure_def virtuals_def println_def print_def)

text \<open>
  The classes of \<open>026_1\<close>. \<open>AA\<close> is abstract, the others are not; constructing a \<open>BB\<close> or a \<open>CC\<close> calls
  \<open>BB::bar\<close> once. With the call in the constructor of \<open>AA\<close> that the file has as a comment, the same objects
  call a pure virtual function, although \<open>BB\<close> overrides it.
\<close>

theorem pure_virtual_in_ctor:
  "map (is_abstract classes_026_1) [''AA'', ''BB'', ''CC''] = [True, False, False] \<and>
   (\<forall>c \<in> {''BB'', ''CC''}.
     construct classes_026_1 c start = (Inr (), start\<lparr>cw_out := [CStr ''bar'', CEndl]\<rparr>) \<and>
     construct [(''CC'', class_CC), (''BB'', class_BB), (''AA'', class_AA\<lparr>cd_ctor := [''bar'']\<rparr>)] c start =
       (Inl (Undefined PureVirtualCall), start))"
  by (simp add: class_defs is_abstract_def virtuals_def is_pure_def construct_def ctor_calls_def call_virtual_def
      prog_defs start_def)

lemmas bridge_defs = classes_031_def impls_031_def class_LoggerImpl_def class_ST_LoggerImpl_def class_MT_LoggerImpl_def
  class_Logger_def class_ConsoleLogger_def class_FileLogger_def console_impl_def

text \<open>
  The bridge of \<open>031\<close> does not compile: \<open>FileLogger\<close> names a \<open>pimpl\<close> that it does not have, and both implementations leave
  a function of \<open>LoggerImpl\<close> pure. Once these are added, whatever they do, the
  message goes through the two virtual calls to the implementation that \<open>MT\<close> selects.
\<close>

theorem bridge_completed:
  "main_031 (classes_031 [] []) = Rejected ''name'' \<and>
   main_031 (classes_031 [] [''pimpl'']) = Rejected ''MT_LoggerImpl'' \<and>
   is_abstract (classes_031 [] []) ''ST_LoggerImpl'' \<and>
   (\<exists>m. main_031 (classes_031 [(''file_log'', Body f), (''socket_log'', Body g)] [''pimpl'']) = Compiled m \<and>
      m start = (Inr (), start\<lparr>cw_out := [CStr ''MT == '', CStr ''some message'']\<rparr>))"
  by (simp add: bridge_defs main_031_def new_object_def is_abstract_def virtuals_def has_member_def is_pure_def construct_def
      ctor_calls_def call_virtual_def prog_defs start_def)

lemmas visitor_defs = visitors_034_def class_Visitor_def class_ExportVisitor_def class_BuildingVisitor_def buildings_034_def
  class_Building_def class_of_building_def

text \<open>
  The double dispatch of \<open>034\<close> through two virtual calls is the function of \<open>Patterns\<close> that goes by the
  dynamic type of the building; \<open>ExportVisitor\<close> is abstract, so that no such object can be visited with.
\<close>

theorem visitor_dispatch:
  "call_virtual (buildings_034 ''BuildingVisitor'') (building_name b) ''accept'' arg =
     accept BuildingVisitor_visit BuildingVisitor_visit2 b \<and>
   is_abstract visitors_034 ''ExportVisitor'' \<and> \<not> is_abstract visitors_034 ''BuildingVisitor''"
  by (cases b) (simp_all add: visitor_defs call_virtual_def accept_def is_abstract_def virtuals_def is_pure_def)

theorem gmock_interfaces:
  "map (is_abstract (classes_gmock p q)) [''Turtle'', ''MockTurtle'', ''FileInterface'', ''File'', ''MockFI''] =
     [True, False, True, False, False]"
  by (simp add: classes_gmock_def class_Turtle_def class_MockTurtle_def class_FileInterface_def class_File_def
      class_MockFI_def is_abstract_def virtuals_def is_pure_def)

end
