(* ===== verification/Member_Rules.thy ===== *)
theory Member_Rules
  imports Class_Rules
begin

text \<open>
  Examples about the members of a class: access (\<open>001_encapsulation.cpp\<close>), constructors that have to exist for an array
  (\<open>005_required_default_constructor_for_array.cpp\<close>), objects whose memory nobody initialised (\<open>018_trivial_constructors.cpp\<close>)
  and defaulted and deleted functions (\<open>019_delete_and_default_methods.cpp\<close>). The first two do not compile; the
  checks that refuse them are part of the model, with the errors as values.
\<close>

section \<open>001\_encapsulation.cpp\<close>

datatype access = Public | Private

datatype class_key = ClassKey | StructKey

datatype class_item = Label access | Data string | Func string

text \<open>The access of the members: by the last label before them, and without one by \<open>class\<close> or \<open>struct\<close>.\<close>

fun default_access :: "class_key \<Rightarrow> access" where
  "default_access ClassKey = Private"
| "default_access StructKey = Public"

fun member_access :: "access \<Rightarrow> class_item list \<Rightarrow> (string \<times> access) list" where
  "member_access a [] = []"
| "member_access a (Label a' # items) = member_access a' items"
| "member_access a (Data x # items) = (x, a) # member_access a items"
| "member_access a (Func f # items) = (f, a) # member_access a items"

definition A_001 :: "class_key \<times> class_item list" where
  "A_001 = (ClassKey, [Data ''a'', Label Private, Data ''b'', Label Public, Data ''c'', Func ''print''])"

definition B_001 :: "class_key \<times> class_item list" where
  "B_001 = (StructKey, [Data ''a'', Label Private, Data ''b'', Label Public, Data ''c'', Func ''print''])"

text \<open>The statements of \<open>main\<close>.\<close>

datatype stmt_001 = Declare string string | Print string | Assign string string int

definition classes_001 :: "(string \<times> class_key \<times> class_item list) list" where
  "classes_001 = [(''A'', A_001), (''B'', B_001)]"

definition main_001 :: "stmt_001 list" where
  "main_001 =
     [Declare ''a'' ''A'', Print ''a'', Assign ''a'' ''c'' 3, Print ''a'',
      Declare ''b'' ''B'', Print ''b'', Assign ''b'' ''a'' 1, Print ''b'', Assign ''b'' ''c'' 3, Print ''b'',
      Declare ''c'' ''C'', Print ''c'', Assign ''c'' ''a'' 1, Print ''c'', Assign ''c'' ''c'' 3, Print ''c'']"

text \<open>What the compiler objects to: unknown classes and objects, and members that may not be named outside.\<close>

definition may_name :: "(string \<times> class_key \<times> class_item list) list \<Rightarrow> (string \<times> string) list \<Rightarrow> string \<Rightarrow> string \<Rightarrow> bool" where
  "may_name classes objs x m =
     (case Option.bind (map_of objs x) (map_of classes) of
        None \<Rightarrow> False
      | Some (key, items) \<Rightarrow> map_of (member_access (default_access key) items) m = Some Public)"

fun objections :: "(string \<times> class_key \<times> class_item list) list \<Rightarrow> (string \<times> string) list \<Rightarrow> stmt_001 list \<Rightarrow> stmt_001 list" where
  "objections classes objs [] = []"
| "objections classes objs (Declare x c # ss) =
     (if map_of classes c = None then Declare x c # objections classes objs ss
      else objections classes ((x, c) # objs) ss)"
| "objections classes objs (Print x # ss) =
     (if may_name classes objs x ''print'' then objections classes objs ss else Print x # objections classes objs ss)"
| "objections classes objs (Assign x m n # ss) =
     (if may_name classes objs x m then objections classes objs ss else Assign x m n # objections classes objs ss)"

text \<open>\<open>A::print\<close> and \<open>B::print\<close>; a member that was never assigned has no value.\<close>

definition read_member :: "int option \<Rightarrow> int prog" where
  "read_member x = (case x of None \<Rightarrow> failP (Undefined UninitialisedRead) | Some n \<Rightarrow> returnP n)"

definition print_members :: "string \<Rightarrow> int option \<Rightarrow> int option \<Rightarrow> int option \<Rightarrow> unit prog" where
  "print_members name a b c =
     thenP (print [CStr name])
       (bindP (read_member a) (\<lambda>a. thenP (print [CInt a, CStr '' ''])
         (bindP (read_member b) (\<lambda>b. thenP (print [CInt b, CStr '' ''])
           (bindP (read_member c) (\<lambda>c. print [CInt c, CEndl]))))))"

definition A_001_print :: "int option \<Rightarrow> int option \<Rightarrow> int option \<Rightarrow> unit prog" where
  "A_001_print = print_members ''A: ''"

definition B_001_print :: "int option \<Rightarrow> int option \<Rightarrow> int option \<Rightarrow> unit prog" where
  "B_001_print = print_members ''B: ''"

text \<open>\<open>MutableClass\<close>: its constant member function writes the mutable member.\<close>

record MutableClass =
  mc_a :: int

definition MutableClass_ctor :: MutableClass where
  "MutableClass_ctor = \<lparr>mc_a = 2\<rparr>"

definition MutableClass_method :: "MutableClass \<Rightarrow> MutableClass" where
  "MutableClass_method self = self\<lparr>mc_a := 5\<rparr>"

section \<open>005\_required\_default\_constructor\_for\_array.cpp\<close>

text \<open>A class that declares a constructor has no implicit one; an array needs one without arguments.\<close>

definition default_constructible :: "string list list \<Rightarrow> bool" where
  "default_constructible ctors \<longleftrightarrow> ctors = [] \<or> [] \<in> set ctors"

definition Sample_005_ctors :: "string list list" where
  "Sample_005_ctors = [[''int'']]"

definition Sample_005_print :: "unit prog" where
  "Sample_005_print = println ''print()''"

text \<open>\<open>main\<close>: the declarations of the two arrays and the loops over \<open>samples1\<close>.\<close>

datatype stmt_005 = DeclareArray string | PrintAll string | DeleteArr string

definition main_005 :: "stmt_005 list" where
  "main_005 = [DeclareArray ''samples'', PrintAll ''samples1'', DeclareArray ''samples1'', PrintAll ''samples1'', DeleteArr ''samples1'']"

fun objections_005 :: "string list list \<Rightarrow> string list \<Rightarrow> stmt_005 list \<Rightarrow> stmt_005 list" where
  "objections_005 ctors names [] = []"
| "objections_005 ctors names (DeclareArray x # ss) =
     (if default_constructible ctors then [] else [DeclareArray x]) @ objections_005 ctors (x # names) ss"
| "objections_005 ctors names (PrintAll x # ss) =
     (if x \<in> set names then [] else [PrintAll x]) @ objections_005 ctors names ss"
| "objections_005 ctors names (DeleteArr x # ss) =
     (if x \<in> set names then [] else [DeleteArr x]) @ objections_005 ctors names ss"

section \<open>018\_trivial\_constructors.cpp\<close>

definition A_018_print :: "int option \<Rightarrow> unit prog" where
  "A_018_print a = thenP (print [CStr ''A::print('']) (bindP (read_member a) (\<lambda>a. print [CInt a, CStr '')'', CEndl]))"

definition B_018_print :: "int option \<Rightarrow> unit prog" where
  "B_018_print b = thenP (print [CStr ''B::print('']) (bindP (read_member b) (\<lambda>b. print [CInt b, CStr '')'', CEndl]))"

definition C_018_print :: "int option \<times> int option \<Rightarrow> unit prog" where
  "C_018_print c = thenP (A_018_print (fst c)) (B_018_print (snd c))"

text \<open>The buffer is a local array of \<open>char\<close> without an initialiser: neither member has a value.\<close>

definition main_018 :: "unit prog" where
  "main_018 = C_018_print (None, None)"

section \<open>019\_delete\_and\_default\_methods.cpp\<close>

record 'd A_019 =
  a19_ipr :: int
  a19_dpr :: 'd

definition A_019_ctor :: "int \<Rightarrow> 'd \<Rightarrow> 'd A_019" where
  "A_019_ctor ipr dpr = \<lparr>a19_ipr = ipr, a19_dpr = dpr\<rparr>"

text \<open>The defaulted functions copy member by member; to move a number is to copy it.\<close>

definition A_019_move :: "'d A_019 \<Rightarrow> 'd A_019" where
  "A_019_move a = \<lparr>a19_ipr = a19_ipr a, a19_dpr = a19_dpr a\<rparr>"

definition A_019_copy :: "'d A_019 \<Rightarrow> 'd A_019" where
  "A_019_copy a = \<lparr>a19_ipr = a19_ipr a, a19_dpr = a19_dpr a\<rparr>"

definition A_019_assign :: "'d A_019 \<Rightarrow> 'd A_019 \<Rightarrow> 'd A_019" where
  "A_019_assign self a = self\<lparr>a19_ipr := a19_ipr a, a19_dpr := a19_dpr a\<rparr>"

text \<open>The three objects at the end of \<open>main\<close>; \<open>x\<close> is the literal 4.2.\<close>

definition main_019 :: "'d \<Rightarrow> 'd A_019 list" where
  "main_019 x =
     (let a2 = A_019_ctor 1 x; a3 = A_019_move a2; a4 = A_019_copy a2; a4 = A_019_assign a4 a3 in [a2, a3, a4])"

section \<open>Properties\<close>

text \<open>
  \<open>001\<close>: of the statements of \<open>main\<close> only those about the undeclared class \<open>C\<close> are refused, and each of those that the file
  has as comments would be. What is left prints members that were never given a value.
\<close>

theorem encapsulation_001:
  "objections classes_001 [] main_001 = drop 10 main_001"
  "\<forall>s \<in> {Assign ''a'' ''a'' 1, Assign ''a'' ''b'' 2, Assign ''b'' ''b'' 2}.
     objections classes_001 [] (take 10 main_001 @ [s]) = [s]"
  "fst (A_001_print None None None w) = Inl (Undefined UninitialisedRead)"
  "fst (A_001_print None None (Some 3) w) = Inl (Undefined UninitialisedRead)"
  "mc_a (MutableClass_method MutableClass_ctor) = 5"
  by (simp_all add: main_001_def classes_001_def A_001_def B_001_def may_name_def A_001_print_def print_members_def
      read_member_def prog_defs MutableClass_method_def)

text \<open>
  \<open>005\<close>: both arrays are refused, and so is the first loop, over an array that is declared later; with the default argument
  that the file has as a comment only the loop would be left.
\<close>

theorem default_constructor_005:
  "objections_005 Sample_005_ctors [] main_005 = [DeclareArray ''samples'', PrintAll ''samples1'', DeclareArray ''samples1'']"
  "objections_005 ([] # Sample_005_ctors) [] main_005 = [PrintAll ''samples1'']"
  by (simp_all add: main_005_def Sample_005_ctors_def default_constructible_def)

text \<open>\<open>018\<close> prints the beginning of a line and then reads memory that has no value; a buffer with values is printed.\<close>

theorem trivial_constructors_018:
  "main_018 start = (Inl (Undefined UninitialisedRead), start\<lparr>cw_out := [CStr ''A::print('']\<rparr>)"
  "C_018_print (Some a, Some b) start = (Inr (), start\<lparr>cw_out :=
     [CStr ''A::print('', CInt a, CStr '')'', CEndl, CStr ''B::print('', CInt b, CStr '')'', CEndl]\<rparr>)"
  by (simp_all add: main_018_def C_018_print_def A_018_print_def B_018_print_def read_member_def prog_defs start_def)

theorem defaulted_019: "main_019 x = replicate 3 (A_019_ctor 1 x)"
  by (simp add: main_019_def A_019_ctor_def A_019_move_def A_019_copy_def A_019_assign_def numeral_3_eq_3 Let_def)

end
