(* ===== verification/Object_Layout.thy ===== *)
theory Object_Layout
  imports Cpp_Prog
begin

text \<open>
  \<open>examples/028_elimination.cpp\<close>: the sizes of classes with an empty base. The layout of a class is the compiler's
  choice and an argument of the model; \<open>conforming\<close> states what the standard demands of it: an object has at least one byte, members do
  not overlap and lie inside the object at the alignment of their type, and two subobjects of one type have
  different addresses. An empty base needs no byte of its own, unless the last rule forces it.
\<close>

section \<open>Classes and layouts\<close>

datatype ctype = TInt | TClass string

record layout_class =
  lc_base :: "string option"
  lc_members :: "(string \<times> ctype) list"

type_synonym layout_classes = "(string \<times> layout_class) list"

record layout =
  ly_size :: "string \<Rightarrow> nat"
  ly_base :: "string \<Rightarrow> nat"
  ly_member :: "string \<Rightarrow> string \<Rightarrow> nat"

fun size_of :: "nat \<Rightarrow> layout \<Rightarrow> ctype \<Rightarrow> nat" where
  "size_of int_size ly TInt = int_size"
| "size_of int_size ly (TClass c) = ly_size ly c"

text \<open>The alignment of a type: that of \<open>int\<close> is the compiler's choice too, and a class has that of its parts.\<close>

fun has_int :: "layout_classes \<Rightarrow> ctype \<Rightarrow> bool" where
  "has_int P TInt = True"
| "has_int [] (TClass c) = False"
| "has_int ((d, decl) # P) (TClass c) =
     (if d \<noteq> c then has_int P (TClass c)
      else list_ex (\<lambda>(m, t). has_int P t) (lc_members decl) \<or>
        (case lc_base decl of None \<Rightarrow> False | Some b \<Rightarrow> has_int P (TClass b)))"

definition align_of :: "nat \<Rightarrow> layout_classes \<Rightarrow> ctype \<Rightarrow> nat" where
  "align_of int_align P t = (if has_int P t then int_align else 1)"

text \<open>The subobjects of class type in an object of class \<open>c\<close>, itself included, with their addresses.\<close>

fun subobjects :: "layout \<Rightarrow> layout_classes \<Rightarrow> string \<Rightarrow> nat \<Rightarrow> (string \<times> nat) list" where
  "subobjects ly [] c a = []"
| "subobjects ly ((d, decl) # P) c a =
     (if d \<noteq> c then subobjects ly P c a
      else (c, a) # (case lc_base decl of None \<Rightarrow> [] | Some b \<Rightarrow> subobjects ly P b (a + ly_base ly c)) @
        concat (map (\<lambda>(m, t). case t of TInt \<Rightarrow> [] | TClass e \<Rightarrow> subobjects ly P e (a + ly_member ly c m))
          (lc_members decl)))"

definition member_range :: "nat \<Rightarrow> layout \<Rightarrow> string \<Rightarrow> string \<times> ctype \<Rightarrow> nat set" where
  "member_range int_size ly c = (\<lambda>(m, t). {ly_member ly c m..<ly_member ly c m + size_of int_size ly t})"

fun disjoint_ranges :: "nat set list \<Rightarrow> bool" where
  "disjoint_ranges [] = True"
| "disjoint_ranges (r # rs) \<longleftrightarrow> list_all (\<lambda>r'. r \<inter> r' = {}) rs \<and> disjoint_ranges rs"

definition class_conforms :: "nat \<Rightarrow> nat \<Rightarrow> layout \<Rightarrow> layout_classes \<Rightarrow> string \<times> layout_class \<Rightarrow> bool" where
  "class_conforms int_size int_align ly P = (\<lambda>(c, decl).
     1 \<le> ly_size ly c \<and> align_of int_align P (TClass c) dvd ly_size ly c \<and>
     list_all (\<lambda>(m, t). ly_member ly c m + size_of int_size ly t \<le> ly_size ly c \<and>
       align_of int_align P t dvd ly_member ly c m) (lc_members decl) \<and>
     disjoint_ranges (map (member_range int_size ly c) (lc_members decl)) \<and>
     distinct (subobjects ly P c 0))"

definition conforming :: "nat \<Rightarrow> nat \<Rightarrow> layout \<Rightarrow> layout_classes \<Rightarrow> bool" where
  "conforming int_size int_align ly P \<longleftrightarrow> int_align dvd int_size \<and> list_all (class_conforms int_size int_align ly P) P"

section \<open>028\_elimination.cpp\<close>

definition layout_A :: layout_class where
  "layout_A = \<lparr>lc_base = None, lc_members = []\<rparr>"

definition layout_B :: layout_class where
  "layout_B = \<lparr>lc_base = Some ''A'', lc_members = [(''a'', TInt)]\<rparr>"

definition layout_C :: layout_class where
  "layout_C = \<lparr>lc_base = Some ''A'', lc_members = [(''a'', TClass ''A''), (''var'', TInt)]\<rparr>"

definition layout_D :: layout_class where
  "layout_D = \<lparr>lc_base = Some ''A'', lc_members = [(''a'', TInt), (''b'', TClass ''B'')]\<rparr>"

definition classes_028 :: layout_classes where
  "classes_028 = [(''D'', layout_D), (''C'', layout_C), (''B'', layout_B), (''A'', layout_A)]"

definition main_028 :: "layout \<Rightarrow> cout list" where
  "main_028 ly = concat (map (\<lambda>c. [CInt (int (ly_size ly c)), CEndl]) [''A'', ''B'', ''C'', ''D''])"

section \<open>Properties\<close>

lemmas layout_defs = classes_028_def layout_A_def layout_B_def layout_C_def layout_D_def conforming_def class_conforms_def
  align_of_def member_range_def

text \<open>Two disjoint ranges that end before \<open>n\<close> leave room for both.\<close>

lemma ranges_room:
  fixes a :: nat
  assumes "{a..<a + k} \<inter> {b..<b + m} = {}" "a + k \<le> n" "b + m \<le> n" "0 < k" "0 < m"
  shows "k + m \<le> n"
proof (rule ccontr)
  assume "\<not> k + m \<le> n"
  with assms(2-5) have "max a b \<in> {a..<a + k} \<inter> {b..<b + m}" by auto
  with assms(1) show False by blast
qed

text \<open>More room than a multiple of the alignment is at least one alignment more.\<close>

lemma multiple_room:
  fixes k :: nat
  assumes "k dvd i" "k dvd n" "i < n"
  shows "i + k \<le> n"
proof -
  from assms have "k dvd n - i" "0 < n - i" by (auto intro: dvd_diff_nat)
  then have "k \<le> n - i" by (rule dvd_imp_le)
  with assms(3) show ?thesis by simp
qed

text \<open>
  No compiler can make the classes smaller than this, whatever the size and the alignment of an \<open>int\<close>: the member of the
  empty class in \<open>C\<close> costs a byte and, by the alignment, as much as the alignment of an \<open>int\<close>, and \<open>D\<close> holds a whole
  \<open>B\<close> beside its \<open>int\<close>. The base of \<open>C\<close> and its member, of the same class, have different addresses. That an empty base
  may take no room is the compiler's choice, which the layout below makes.
\<close>

theorem elimination_028:
  assumes "conforming int_size int_align ly classes_028" "0 < int_size"
  shows "1 \<le> ly_size ly ''A'' \<and> int_size \<le> ly_size ly ''B'' \<and> int_size + int_align \<le> ly_size ly ''C'' \<and>
    int_size + ly_size ly ''B'' \<le> ly_size ly ''D'' \<and> ly_base ly ''C'' \<noteq> ly_member ly ''C'' ''a''"
proof -
  have AB: "1 \<le> ly_size ly ''A''" "int_size \<le> ly_size ly ''B''"
    using assms by (simp_all add: layout_defs)
  have C: "int_align dvd ly_size ly ''C''" "ly_member ly ''C'' ''a'' + ly_size ly ''A'' \<le> ly_size ly ''C''"
    "ly_member ly ''C'' ''var'' + int_size \<le> ly_size ly ''C''" "ly_base ly ''C'' \<noteq> ly_member ly ''C'' ''a''"
    "{ly_member ly ''C'' ''a''..<ly_member ly ''C'' ''a'' + ly_size ly ''A''} \<inter>
     {ly_member ly ''C'' ''var''..<ly_member ly ''C'' ''var'' + int_size} = {}" "int_align dvd int_size"
    using assms by (auto simp: layout_defs)
  have D: "ly_member ly ''D'' ''a'' + int_size \<le> ly_size ly ''D''"
    "ly_member ly ''D'' ''b'' + ly_size ly ''B'' \<le> ly_size ly ''D''"
    "{ly_member ly ''D'' ''a''..<ly_member ly ''D'' ''a'' + int_size} \<inter>
     {ly_member ly ''D'' ''b''..<ly_member ly ''D'' ''b'' + ly_size ly ''B''} = {}"
    using assms by (auto simp: layout_defs)
  have "ly_size ly ''A'' + int_size \<le> ly_size ly ''C''" using ranges_room [OF C(5,2,3)] AB(1) assms(2) by simp
  with AB(1) C(1,6) have "int_size + int_align \<le> ly_size ly ''C''" by (intro multiple_room) auto
  moreover have "int_size + ly_size ly ''B'' \<le> ly_size ly ''D''" using ranges_room [OF D(3,1,2)] AB(2) assms(2) by simp
  ultimately show ?thesis using AB C(4) by simp
qed

text \<open>The layout of the usual compilers, in which the empty bases of \<open>B\<close> and \<open>D\<close> take no room, with an \<open>int\<close> of four bytes.\<close>

definition usual_layout :: layout where
  "usual_layout = \<lparr>ly_size = (\<lambda>c. if c = ''A'' then 1 else if c = ''B'' then 4 else 8), ly_base = (\<lambda>c. 0),
     ly_member = (\<lambda>c m. if c = ''C'' \<and> m = ''a'' then 1 else if c = ''C'' \<or> c = ''D'' \<and> m = ''b'' then 4 else 0)\<rparr>"

theorem elimination_028_witness:
  "conforming 4 4 usual_layout classes_028 \<and>
   main_028 usual_layout = [CInt 1, CEndl, CInt 4, CEndl, CInt 8, CEndl, CInt 8, CEndl] \<and>
   4 + 4 \<le> ly_size usual_layout ''C''"
proof -
  have "conforming 4 4 usual_layout classes_028" by (simp add: layout_defs usual_layout_def)
  with elimination_028 [OF this] show ?thesis by (simp add: main_028_def usual_layout_def)
qed

end
